(* ===== verification/Pico_Base.thy ===== *)
theory Pico_Base
  imports Main "HOL-Library.Word" "HOL-Library.AList"
begin

text \<open>
  Shared vocabulary of the development: the C++ error values, results that are either an
  error or a value, machine-word type names, NUL-terminated views of strings, and generic
  lemmas on these that the component theories use.
\<close>

section \<open>Collections of rules\<close>

named_theorems result_simps \<open>equations for results that may be an error\<close>
named_theorems safe_rules \<open>facts that an operation returns a value\<close>

section \<open>Machine words and strings\<close>

type_synonym size_t = "64 word"
type_synonym int32 = "32 word"
type_synonym uint32 = "32 word"
type_synonym uint16 = "16 word"
type_synonym uint64 = "64 word"

text \<open>
  A \<open>std::string\<close> is a \<open>string\<close>: \<open>char\<close> in HOL is one byte. A C++ \<open>double\<close> or
  \<open>float\<close> is only stored and handed on by the program; it is its bit pattern.
\<close>

type_synonym cxx_double = "64 word"
type_synonym cxx_float = "32 word"

abbreviation nul :: char where
  "nul \<equiv> CHR 0x00"

text \<open>The string a callee sees when it is given \<open>s.c_str()\<close> and reads up to the NUL.\<close>

definition c_str :: "string \<Rightarrow> string" where
  "c_str s = takeWhile (\<lambda>c. c \<noteq> nul) s"

lemma c_str_id [simp]: "nul \<notin> set s \<Longrightarrow> c_str s = s"
  by (auto simp: c_str_def takeWhile_eq_all_conv)

lemma c_str_no_nul [simp]: "nul \<notin> set (c_str s)"
  by (auto simp: c_str_def dest: set_takeWhileD)

lemma c_str_idem [simp]: "c_str (c_str s) = c_str s"
  by simp

section \<open>Errors and results\<close>

text \<open>
  One constructor for every way the program's operations leave normal control flow: the
  standard exceptions, the RapidJSON assertion, reads the language leaves undefined, and
  \<open>std::terminate\<close>.
\<close>

datatype cxx_error =
    Invalid_argument string
  | Out_of_range
  | Runtime_error string
  | Length_error
  | Bad_function_call
  | Rapidjson_assert string
  | Undefined_read string
  | Terminate_called

type_synonym 'a result = "cxx_error + 'a"

definition bind_result :: "'a result \<Rightarrow> ('a \<Rightarrow> 'b result) \<Rightarrow> 'b result" where
  "bind_result r f = (case r of Inl e \<Rightarrow> Inl e | Inr a \<Rightarrow> f a)"

lemma bind_result_Inl [simp, result_simps]: "bind_result (Inl e) f = Inl e"
  by (simp add: bind_result_def)

lemma bind_result_Inr [simp, result_simps]: "bind_result (Inr a) f = f a"
  by (simp add: bind_result_def)

lemma bind_result_eq_Inr [result_simps]:
  "bind_result r f = Inr b \<longleftrightarrow> (\<exists>a. r = Inr a \<and> f a = Inr b)"
  by (cases r) auto

lemma bind_result_eq_Inl [result_simps]:
  "bind_result r f = Inl e \<longleftrightarrow> r = Inl e \<or> (\<exists>a. r = Inr a \<and> f a = Inl e)"
  by (cases r) auto

text \<open>A range-based \<open>for\<close> loop whose body may throw.\<close>

fun for_result :: "('a \<Rightarrow> 's \<Rightarrow> 's result) \<Rightarrow> 'a list \<Rightarrow> 's \<Rightarrow> 's result" where
  "for_result f [] s = Inr s"
| "for_result f (x # xs) s = bind_result (f x s) (for_result f xs)"

lemma for_result_append:
  "for_result f (xs @ ys) s = bind_result (for_result f xs s) (for_result f ys)"
proof (induction xs arbitrary: s)
  case Nil
  then show ?case by simp
next
  case (Cons x xs)
  then show ?case by (cases "f x s") auto
qed

lemma for_result_invariant:
  assumes "for_result f xs s = Inr t" and "P s"
    and "\<And>x s s'. x \<in> set xs \<Longrightarrow> P s \<Longrightarrow> f x s = Inr s' \<Longrightarrow> P s'"
  shows "P t"
  using assms
proof (induction xs arbitrary: s)
  case Nil
  then show ?case by simp
next
  case (Cons x xs)
  from Cons.prems(1) obtain u where u: "f x s = Inr u" and rest: "for_result f xs u = Inr t"
    by (auto simp: result_simps)
  have "P u" using Cons.prems(2,3) u by auto
  with Cons.IH [OF rest] Cons.prems(3) show ?case by auto
qed

section \<open>Association lists as \<open>std::unordered_map\<close>\<close>

text \<open>
  \<open>m[k] = v\<close> and \<open>m.find(k)\<close> on an \<open>unordered_map\<close> are \<open>AList.update\<close> and
  \<open>map_of\<close>: keys stay distinct, and only the iteration order, which C++ leaves
  unspecified, is fixed by the list. \<open>m.emplace(k, v)\<close> does not overwrite.
\<close>

definition emplace :: "'k \<Rightarrow> 'v \<Rightarrow> ('k \<times> 'v) list \<Rightarrow> ('k \<times> 'v) list" where
  "emplace k v m = (case map_of m k of None \<Rightarrow> AList.update k v m | Some _ \<Rightarrow> m)"

lemma map_of_emplace:
  "map_of (emplace k v m) = (case map_of m k of None \<Rightarrow> (map_of m)(k \<mapsto> v) | Some _ \<Rightarrow> map_of m)"
  by (simp add: emplace_def update_conv' split: option.splits)

lemma map_of_emplace_same:
  "map_of (emplace k v m) k = Some (case map_of m k of None \<Rightarrow> v | Some w \<Rightarrow> w)"
  by (simp add: map_of_emplace split: option.splits)

lemma map_of_emplace_other: "j \<noteq> k \<Longrightarrow> map_of (emplace k v m) j = map_of m j"
  by (simp add: map_of_emplace split: option.splits)

lemma dom_emplace [simp]: "dom (map_of (emplace k v m)) = insert k (dom (map_of m))"
  by (auto simp: map_of_emplace split: option.splits)

lemma distinct_emplace: "distinct (map fst m) \<Longrightarrow> distinct (map fst (emplace k v m))"
  by (simp add: emplace_def distinct_update split: option.splits)

section \<open>Decimal text of a number\<close>

text \<open>\<open>std::to_string\<close> of an unsigned value.\<close>

definition digit_char :: "nat \<Rightarrow> char" where
  "digit_char d = char_of (48 + d)"

fun decimal :: "nat \<Rightarrow> string" where
  "decimal n = (if n < 10 then [digit_char n] else decimal (n div 10) @ [digit_char (n mod 10)])"

declare decimal.simps [simp del]

text \<open>An \<open>int\<close> as a stream writes it.\<close>

definition int_text :: "int \<Rightarrow> string" where
  "int_text n = (if n < 0 then CHR ''-'' # decimal (nat (- n)) else decimal (nat n))"

lemma decimal_nonempty: "decimal n \<noteq> []"
  by (subst decimal.simps) simp

lemma decimal_digits: "c \<in> set (decimal n) \<Longrightarrow> \<exists>d < 10. c = digit_char d"
proof (induction n rule: decimal.induct)
  case (1 n)
  have "\<exists>d < 10. digit_char (n mod 10) = digit_char d" by (rule exI [of _ "n mod 10"]) simp
  with 1 show ?case by (cases "n < 10") (auto simp: decimal.simps [of n])
qed

lemma decimal_length: "n < 10 ^ k \<Longrightarrow> 0 < k \<Longrightarrow> length (decimal n) \<le> k"
proof (induction n arbitrary: k rule: decimal.induct)
  case (1 n)
  show ?case
  proof (cases "n < 10")
    case True
    with 1 show ?thesis by (simp add: decimal.simps [of n])
  next
    case False
    with "1.prems" have "1 < k" by (cases k; cases "k - 1") auto
    with "1.prems"(1) have "n div 10 < 10 ^ (k - 1)"
      by (cases k) (auto simp: div_less_iff_less_mult mult.commute)
    with "1.IH" [OF False this] \<open>1 < k\<close> have "length (decimal (n div 10)) \<le> k - 1" by simp
    with False \<open>1 < k\<close> show ?thesis by (simp add: decimal.simps [of n])
  qed
qed

end
