(* ===== verification/Http_Message.thy ===== *)
theory Http_Message
  imports Pico_Base
begin

text \<open>
  \<open>http::Request\<close> and \<open>http::Response\<close> (\<open>src/piconaut/http/request.{h,cc}\<close>,
  \<open>response.{h,cc}\<close>) and the buffer \<open>JsonBuffer\<close> they send. Both classes are views of one
  \<open>h2o_req_t\<close>, the record \<open>h2o_req\<close> here; h2o itself is a parameter, the record \<open>h2o_api\<close> of
  the functions of it whose results the code looks at, and the calls made for their effect are
  recorded in order in \<open>calls\<close>.
\<close>

section \<open>The request object of h2o and its interface\<close>

text \<open>Calls into h2o that act on the response, with the arguments and the status they see.\<close>

datatype h2o_call =
    Add_header_by_str string string
  | Add_header_content_type string
  | Send_inline int string string
  | Send_error_503 string string

text \<open>
  \<open>path_mem\<close> holds the bytes that may be read from \<open>path.base\<close> on; \<open>path_len\<close> is \<open>path.len\<close>.
\<close>

record h2o_req =
  path_normalized :: string
  req_method :: string
  req_headers :: "(string \<times> string) list"
  entity :: string
  path_mem :: string
  path_len :: nat
  query_at :: nat
  status :: int
  reason :: string
  calls :: "h2o_call list"

definition SIZE_MAX :: nat where
  "SIZE_MAX = 2 ^ 64 - 1"

text \<open>Subtraction of \<open>size_t\<close> values.\<close>

definition size_sub :: "nat \<Rightarrow> nat \<Rightarrow> nat" where
  "size_sub a b = (if b \<le> a then a - b else 2 ^ 64 + a - b)"

text \<open>
  What the code gets from h2o: the index of a header (or -1), the offset of a substring (or
  \<open>SIZE_MAX\<close>), the message of a \<open>std::exception\<close> that sending a body raises (if it does), and
  the constant \<open>H2O_STATUS_ERROR_503\<close>.
\<close>

record h2o_api =
  find_header_by_str :: "(string \<times> string) list \<Rightarrow> string \<Rightarrow> int"
  h2o_strstr :: "string \<Rightarrow> string \<Rightarrow> nat"
  send_inline_throws :: "string \<Rightarrow> string option"
  status_error_503 :: int

section \<open>Request\<close>

text \<open>The constructor rejects a null pointer; \<open>Response\<close> has the same check.\<close>

definition make_Request :: "h2o_req option \<Rightarrow> h2o_req result" where
  "make_Request req = (case req of
     None \<Rightarrow> Inl (Invalid_argument ''Request object cannot be null'') | Some r \<Rightarrow> Inr r)"

definition GetPath :: "h2o_req \<Rightarrow> string" where
  "GetPath req = path_normalized req"

definition Method :: "h2o_req \<Rightarrow> string" where
  "Method req = req_method req"

definition Headers :: "h2o_req \<Rightarrow> (string \<times> string) list" where
  "Headers req = fold (\<lambda>(name, v) m. AList.update name v m) (req_headers req) []"

definition GetHeader :: "h2o_api \<Rightarrow> h2o_req \<Rightarrow> string \<Rightarrow> string result" where
  "GetHeader api req name =
     (let header_index = find_header_by_str api (req_headers req) name
      in if header_index \<noteq> -1 then
           (if 0 \<le> header_index \<and> nat header_index < length (req_headers req)
            then Inr (snd (req_headers req ! nat header_index))
            else Inl (Undefined_read ''headers.entries''))
         else Inr [])"

definition GetBody :: "h2o_req \<Rightarrow> string" where
  "GetBody req = entity req"

text \<open>
  \<open>memchr\<close> on the readable bytes \<open>mem\<close>, from \<open>pos\<close>, at most \<open>count\<close> of them: it stops at the
  first hit, and runs off the readable bytes if there is none before their end.
\<close>

definition memchr :: "string \<Rightarrow> nat \<Rightarrow> char \<Rightarrow> nat \<Rightarrow> nat option result" where
  "memchr mem pos c count =
     (let seg = take count (drop pos mem);
          n = length (takeWhile (\<lambda>x. x \<noteq> c) seg)
      in if n < length seg then Inr (Some (pos + n))
         else if pos + count \<le> length mem then Inr None
         else Inl (Undefined_read ''memchr''))"

text \<open>\<open>std::string(found, len)\<close>, with the length check of the library.\<close>

definition string_of_mem :: "string \<Rightarrow> nat \<Rightarrow> nat \<Rightarrow> string result" where
  "string_of_mem mem pos len =
     (if len \<ge> 2 ^ 63 then Inl Length_error
      else if pos + len \<le> length mem then Inr (take len (drop pos mem))
      else Inl (Undefined_read ''string''))"

definition GetQueryString :: "h2o_api \<Rightarrow> h2o_req \<Rightarrow> string \<Rightarrow> string result" where
  "GetQueryString api req name =
     (if query_at req = SIZE_MAX then Inr []
      else let
        query_mem = drop (query_at req + 1) (path_mem req);
        query_len = size_sub (size_sub (path_len req) (query_at req)) 1;
        offset = h2o_strstr api (take query_len query_mem) name
      in if offset = SIZE_MAX then Inr []
         else let found = offset + length name
         in if found \<ge> length query_mem then Inl (Undefined_read ''*found'')
            else if query_mem ! found \<noteq> CHR ''='' then Inr []
            else let found' = found + 1
            in bind_result (memchr query_mem found' (CHR ''&'') (size_sub query_len found'))
                 (\<lambda>e. let end = (case e of None \<Rightarrow> query_len | Some p \<Rightarrow> p)
                   in string_of_mem query_mem found' (size_sub end found')))"

section \<open>JsonBuffer\<close>

record JsonBuffer =
  buf_data :: "string option"
  buf_size :: nat
  buf_buffer :: "string option"

definition empty_JsonBuffer :: JsonBuffer where
  "empty_JsonBuffer = \<lparr>buf_data = None, buf_size = 0, buf_buffer = None\<rparr>"

definition ToString :: "JsonBuffer \<Rightarrow> string" where
  "ToString b = (case buf_buffer b of None \<Rightarrow> []
     | Some _ \<Rightarrow> (case buf_data b of None \<Rightarrow> [] | Some d \<Rightarrow> take (buf_size b) d))"

section \<open>Response\<close>

definition make_Response :: "h2o_req option \<Rightarrow> h2o_req result" where
  "make_Response req = (case req of
     None \<Rightarrow> Inl (Invalid_argument ''Response object cannot be null'') | Some r \<Rightarrow> Inr r)"

definition Status :: "int \<Rightarrow> h2o_req \<Rightarrow> h2o_req" where
  "Status status_code req = req\<lparr>status := status_code\<rparr>"

definition h2o_call_of :: "h2o_call \<Rightarrow> h2o_req \<Rightarrow> h2o_req" where
  "h2o_call_of c req = req\<lparr>calls := calls req @ [c]\<rparr>"

definition AddHeader :: "string \<Rightarrow> string \<Rightarrow> h2o_req \<Rightarrow> h2o_req" where
  "AddHeader name v req = h2o_call_of (Add_header_by_str name v) req"

text \<open>The body of the \<open>try\<close> up to and with \<open>h2o_send_inline\<close>, and the handler of an exception.\<close>

definition send_inline_try :: "h2o_api \<Rightarrow> string \<Rightarrow> h2o_req \<Rightarrow> h2o_req" where
  "send_inline_try api body req =
     (case send_inline_throws api body of
        None \<Rightarrow> h2o_call_of (Send_inline (status req) (reason req) body) req
      | Some what \<Rightarrow>
          h2o_call_of (Send_error_503 ''internal server error'' what) (Status (status_error_503 api) req))"

definition Send :: "h2o_api \<Rightarrow> string \<Rightarrow> int \<Rightarrow> h2o_req \<Rightarrow> h2o_req" where
  "Send api body status_code req =
     send_inline_try api body ((Status status_code req)\<lparr>reason := ''OK''\<rparr>)"

text \<open>The default argument of \<open>Send\<close> and \<open>SendJson\<close>.\<close>

definition default_status :: int where
  "default_status = 200"

definition SendJson :: "h2o_api \<Rightarrow> JsonBuffer \<Rightarrow> int \<Rightarrow> h2o_req \<Rightarrow> h2o_req" where
  "SendJson api json status_code req =
     send_inline_try api (case buf_data json of None \<Rightarrow> [] | Some d \<Rightarrow> take (buf_size json) d)
       ((h2o_call_of (Add_header_content_type ''application/json'') (Status status_code req))
          \<lparr>reason := ''OK''\<rparr>)"

section \<open>Lemmas\<close>

lemma GetPath_frame [simp]:
  "GetPath (Status c r) = GetPath r" "GetPath (h2o_call_of e r) = GetPath r"
  by (simp_all add: GetPath_def Status_def h2o_call_of_def)

lemma Send_calls:
  "calls (Send api body c req) = calls req @
     [case send_inline_throws api body of None \<Rightarrow> Send_inline c ''OK'' body
      | Some what \<Rightarrow> Send_error_503 ''internal server error'' what]"
  by (simp add: Send_def send_inline_try_def Status_def h2o_call_of_def split: option.splits)

lemma map_of_Headers:
  "map_of (Headers req) = map_of (rev (req_headers req))"
proof -
  have "map_of (fold (\<lambda>(name, v) m. AList.update name v m) hs acc) = map_of (rev hs @ acc)" for hs acc
    by (induction hs arbitrary: acc) (auto simp: update_conv' fun_eq_iff map_add_def split: option.splits)
  from this [of "req_headers req" "[]"] show ?thesis by (simp add: Headers_def)
qed

text \<open>What h2o documents of its header search: an index of a header of that name, or -1 if none.\<close>

locale header_search =
  fixes find_header :: "(string \<times> string) list \<Rightarrow> string \<Rightarrow> int"
  assumes find_header_found:
      "find_header hs name \<noteq> -1 \<Longrightarrow>
         0 \<le> find_header hs name \<and> nat (find_header hs name) < length hs \<and>
         fst (hs ! nat (find_header hs name)) = name"
    and find_header_missing: "find_header hs name = -1 \<Longrightarrow> name \<notin> fst ` set hs"
begin

lemma find_header_cases:
  obtains "find_header hs name = -1" and "name \<notin> fst ` set hs"
  | i where "find_header hs name = int i" and "i < length hs" and "fst (hs ! i) = name"
proof (cases "find_header hs name = -1")
  case True
  then show thesis using that(1) find_header_missing by blast
next
  case False
  from find_header_found [OF False] show thesis
    using that(2) [of "nat (find_header hs name)"] by simp
qed

end

text \<open>A search of h2o's \<open>h2o_strstr\<close> kind: the first offset of the needle, or \<open>SIZE_MAX\<close>.\<close>

definition occurs_at :: "string \<Rightarrow> string \<Rightarrow> nat \<Rightarrow> bool" where
  "occurs_at hay needle i = (i + length needle \<le> length hay \<and> take (length needle) (drop i hay) = needle)"

locale substring_search =
  fixes search :: "string \<Rightarrow> string \<Rightarrow> nat"
  assumes search_found: "search hay needle \<noteq> SIZE_MAX \<Longrightarrow>
      occurs_at hay needle (search hay needle) \<and> (\<forall>j < search hay needle. \<not> occurs_at hay needle j)"
    and search_missing: "search hay needle = SIZE_MAX \<Longrightarrow> length hay < SIZE_MAX \<Longrightarrow> \<not> occurs_at hay needle i"
begin

lemma search_first:
  assumes "occurs_at hay needle i" and "\<And>j. j < i \<Longrightarrow> \<not> occurs_at hay needle j" and "length hay < SIZE_MAX"
  shows "search hay needle = i"
proof -
  from assms(1,3) search_missing have "search hay needle \<noteq> SIZE_MAX" by blast
  from search_found [OF this] assms(1,2) show ?thesis by (meson linorder_neqE_nat)
qed

end

text \<open>The searches that walk the list from the front, which have these laws.\<close>

fun first_header :: "(string \<times> string) list \<Rightarrow> string \<Rightarrow> int" where
  "first_header [] name = -1"
| "first_header (h # hs) name =
     (if fst h = name then 0 else let i = first_header hs name in if i = -1 then -1 else i + 1)"

lemma first_header_range: "first_header hs name = -1 \<or> 0 \<le> first_header hs name"
  by (induction hs) (auto simp: Let_def)

fun first_occurrence :: "string \<Rightarrow> string \<Rightarrow> nat" where
  "first_occurrence [] needle = (if needle = [] then 0 else SIZE_MAX)"
| "first_occurrence (c # hay) needle =
     (if take (length needle) (c # hay) = needle then 0
      else let i = first_occurrence hay needle in if i = SIZE_MAX then SIZE_MAX else i + 1)"

interpretation front: header_search first_header
proof
  fix hs :: "(string \<times> string) list" and name
  show "first_header hs name \<noteq> -1 \<Longrightarrow>
      0 \<le> first_header hs name \<and> nat (first_header hs name) < length hs \<and>
      fst (hs ! nat (first_header hs name)) = name"
  proof (induction hs)
    case (Cons h hs)
    then show ?case using first_header_range [of hs name]
      by (auto simp: Let_def nat_add_distrib split: if_splits)
  qed simp
  show "first_header hs name = -1 \<Longrightarrow> name \<notin> fst ` set hs"
  proof (induction hs)
    case (Cons h hs)
    then show ?case using first_header_range [of hs name] by (auto simp: Let_def split: if_splits)
  qed simp
qed

lemma occurs_at_Suc: "occurs_at (c # hay) needle (Suc i) \<longleftrightarrow> occurs_at hay needle i"
  by (simp add: occurs_at_def)

lemma occurs_at_0: "occurs_at hay needle 0 \<longleftrightarrow> take (length needle) hay = needle"
  by (auto simp: occurs_at_def) (metis length_take min.cobounded1)

lemma first_occurrence_bound:
  "first_occurrence hay needle = SIZE_MAX \<or> first_occurrence hay needle \<le> length hay"
  by (induction hay) (auto simp: Let_def)

interpretation scan: substring_search first_occurrence
proof
  fix hay needle :: string and i
  show "first_occurrence hay needle \<noteq> SIZE_MAX \<Longrightarrow>
      occurs_at hay needle (first_occurrence hay needle) \<and>
      (\<forall>j < first_occurrence hay needle. \<not> occurs_at hay needle j)"
  proof (induction hay)
    case (Cons c hay)
    then show ?case
      by (auto simp: Let_def occurs_at_0 occurs_at_Suc less_Suc_eq_0_disj split: if_splits)
  qed (auto simp: occurs_at_def split: if_splits)
  show "first_occurrence hay needle = SIZE_MAX \<Longrightarrow> length hay < SIZE_MAX \<Longrightarrow> \<not> occurs_at hay needle i"
  proof (induction hay arbitrary: i)
    case (Cons c hay)
    have "first_occurrence hay needle = SIZE_MAX"
      using Cons.prems first_occurrence_bound [of hay needle] by (auto simp: Let_def split: if_splits)
    with Cons show ?case
      by (cases i) (auto simp: occurs_at_0 occurs_at_Suc SIZE_MAX_def split: if_splits)
  qed (auto simp: occurs_at_def SIZE_MAX_def split: if_splits)
qed

section \<open>A concrete interface\<close>

text \<open>h2o with the searches from the front, sending without an exception, and a request without a body.\<close>

definition list_api :: h2o_api where
  "list_api = \<lparr>find_header_by_str = first_header, h2o_strstr = first_occurrence,
     send_inline_throws = (\<lambda>body. None), status_error_503 = 503\<rparr>"

definition plain_request :: "string \<Rightarrow> string \<Rightarrow> (string \<times> string) list \<Rightarrow> h2o_req" where
  "plain_request method path headers = \<lparr>path_normalized = path, req_method = method, req_headers = headers,
     entity = [], path_mem = path, path_len = length path, query_at = SIZE_MAX, status = 0, reason = [],
     calls = []\<rparr>"

lemma plain_request_sel [simp]:
  "GetPath (plain_request me p hs) = p" "Method (plain_request me p hs) = me"
  "req_headers (plain_request me p hs) = hs" "calls (plain_request me p hs) = []"
  by (simp_all add: plain_request_def GetPath_def Method_def)

section \<open>The query memory of a request\<close>

text \<open>The path bytes are \<open>pre ? q\<close>, with \<open>beyond\<close> readable after them.\<close>

definition has_query :: "h2o_req \<Rightarrow> string \<Rightarrow> string \<Rightarrow> string \<Rightarrow> bool" where
  "has_query req pre q beyond =
     (path_mem req = pre @ CHR ''?'' # q @ beyond \<and> query_at req = length pre \<and>
      path_len req = length pre + 1 + length q \<and> length (path_mem req) < 2 ^ 63)"

lemma has_query_sizes:
  assumes "has_query req pre q beyond"
  shows "query_at req \<noteq> SIZE_MAX" and "drop (query_at req + 1) (path_mem req) = q @ beyond"
    and "size_sub (size_sub (path_len req) (query_at req)) 1 = length q" and "length q < SIZE_MAX"
    and "length (q @ beyond) < 2 ^ 63"
  using assms by (auto simp: has_query_def SIZE_MAX_def size_sub_def)

lemma memchr_value:
  assumes "c \<notin> set v" and "rest = [] \<or> hd rest = c"
  shows "memchr (as @ v @ rest @ beyond) (length as) c (length v + length rest) =
    Inr (if rest = [] then None else Some (length as + length v))"
proof (cases rest)
  case Nil
  have "length (takeWhile (\<lambda>x. x \<noteq> c) v) = length v"
    using assms(1) by (induction v) auto
  with Nil show ?thesis by (simp add: memchr_def Let_def)
next
  case (Cons x xs)
  have "takeWhile (\<lambda>x. x \<noteq> c) (v @ c # xs) = v" using assms(1) by (induction v) auto
  with Cons assms(2) show ?thesis by (simp add: memchr_def Let_def)
qed

lemma GetHeader_value:
  assumes "header_search (find_header_by_str api)"
  shows "\<exists>v. GetHeader api req name = Inr v \<and>
    (if name \<in> fst ` set (req_headers req) then (name, v) \<in> set (req_headers req) else v = [])"
proof (cases rule: header_search.find_header_cases [OF assms, of "req_headers req" name])
  case 1
  then show ?thesis by (simp add: GetHeader_def)
next
  case (2 i)
  then have "(name, snd (req_headers req ! i)) \<in> set (req_headers req)"
    by (metis nth_mem prod.collapse)
  with 2 show ?thesis by (auto simp: GetHeader_def Let_def intro: rev_image_eqI)
qed

lemma GetHeader_total: "header_search (find_header_by_str api) \<Longrightarrow> \<exists>v. GetHeader api req name = Inr v"
  using GetHeader_value by blast

section \<open>Properties\<close>

text \<open>With a header search as h2o documents it, \<open>GetHeader\<close> never fails: it returns the value of a
  header of that name when the request has one, and the empty string when it has none.\<close>

theorem GetHeader_spec:
  assumes "header_search (find_header_by_str api)"
  shows "\<exists>v. GetHeader api req name = Inr v \<and>
    (if name \<in> fst ` set (req_headers req) then (name, v) \<in> set (req_headers req) else v = [])"
  using assms by (rule GetHeader_value)

theorem GetHeader_spec_witness:
  "\<exists>v. GetHeader list_api (plain_request ''GET'' ''/'' [(''a'', ''1''), (''b'', ''2'')]) ''b'' = Inr v \<and>
    (if ''b'' \<in> fst ` set (req_headers (plain_request ''GET'' ''/'' [(''a'', ''1''), (''b'', ''2'')]))
     then (''b'', v) \<in> set (req_headers (plain_request ''GET'' ''/'' [(''a'', ''1''), (''b'', ''2'')]))
     else v = [])"
  by (rule GetHeader_spec) (simp add: list_api_def front.header_search_axioms)

text \<open>When the name occurs in the query and its first occurrence is followed by \<open>=\<close>,
  \<open>GetQueryString\<close> returns the text from there to the next \<open>&\<close> or to the end, and reads nothing
  beyond the query. Nothing is asked of what stands before the name: an occurrence inside a longer
  name, or inside a value, counts too.\<close>

theorem GetQueryString_found:
  assumes "substring_search (h2o_strstr api)" and "has_query req pre (as @ name @ CHR ''='' # v @ rest) beyond"
    and "\<forall>j < length as. \<not> occurs_at (as @ name @ CHR ''='' # v @ rest) name j"
    and "CHR ''&'' \<notin> set v" and "rest = [] \<or> hd rest = CHR ''&''"
  shows "GetQueryString api req name = Inr v"
proof -
  let ?q = "as @ name @ CHR ''='' # v @ rest" and ?at = "length as + length name"
  note sizes = has_query_sizes [OF assms(2)]
  have "h2o_strstr api ?q name = length as"
    by (rule substring_search.search_first [OF assms(1)]) (use assms(3) sizes(4) in \<open>auto simp: occurs_at_def\<close>)
  moreover have "?at < length ?q" "length as \<noteq> SIZE_MAX" using sizes(4) by (simp_all add: SIZE_MAX_def)
  moreover have "(?q @ beyond) ! ?at = CHR ''=''" by (simp add: nth_append)
  moreover have "memchr (?q @ beyond) (?at + 1) (CHR ''&'') (length v + length rest) =
      Inr (if rest = [] then None else Some (?at + 1 + length v))"
    using memchr_value [OF assms(4,5), of "as @ name @ ''=''" beyond] by simp
  moreover have "string_of_mem (?q @ beyond) (?at + 1) (length v) = Inr v"
    using sizes(5) by (simp add: string_of_mem_def)
  ultimately show ?thesis
    unfolding GetQueryString_def Let_def sizes(2,3)
    using sizes(1) by (auto simp: size_sub_def)
qed

theorem GetQueryString_found_witness:
  "GetQueryString list_api ((plain_request ''GET'' ''/a'' [])
     \<lparr>path_mem := ''/a?xid=3&id=5 HTTP'', path_len := 13, query_at := 2\<rparr>) ''id'' = Inr ''3''"
proof (rule GetQueryString_found [where pre = "''/a''" and as = "''x''" and rest = "''&id=5''" and beyond = "'' HTTP''"])
  show "substring_search (h2o_strstr list_api)" by (simp add: list_api_def scan.substring_search_axioms)
qed (simp_all add: has_query_def plain_request_def occurs_at_def)

text \<open>A request without a query part, and a query in which the name does not occur, give the empty
  string.\<close>

theorem GetQueryString_absent:
  assumes "substring_search (h2o_strstr api)"
    and "query_at req = SIZE_MAX \<or> has_query req pre q beyond \<and> (\<forall>i. \<not> occurs_at q name i)"
  shows "GetQueryString api req name = Inr []"
  using assms(2)
proof
  assume "query_at req = SIZE_MAX"
  then show ?thesis by (simp add: GetQueryString_def)
next
  assume q: "has_query req pre q beyond \<and> (\<forall>i. \<not> occurs_at q name i)"
  then have "has_query req pre q beyond" ..
  note sizes = has_query_sizes [OF this]
  have "h2o_strstr api q name = SIZE_MAX"
    using substring_search.search_found [OF assms(1)] q by blast
  then show ?thesis unfolding GetQueryString_def Let_def sizes(2,3) by simp
qed

theorem GetQueryString_absent_witness:
  "GetQueryString list_api (plain_request ''GET'' ''/a'' []) ''id'' = Inr []"
proof (rule GetQueryString_absent)
  show "substring_search (h2o_strstr list_api)" by (simp add: list_api_def scan.substring_search_axioms)
  show "query_at (plain_request ''GET'' ''/a'' []) = SIZE_MAX \<or>
      has_query (plain_request ''GET'' ''/a'' []) [] [] [] \<and> (\<forall>i. \<not> occurs_at [] ''id'' i)"
    by (simp add: plain_request_def)
qed

text \<open>When the query ends with the first occurrence of the name, the byte after the query is read:
  it belongs to the rest of the request, and when nothing readable follows the read is undefined.\<close>

theorem GetQueryString_reads_past_end:
  assumes "substring_search (h2o_strstr api)" and "has_query req pre (as @ name) []"
    and "\<forall>j < length as. \<not> occurs_at (as @ name) name j"
  shows "GetQueryString api req name = Inl (Undefined_read ''*found'')"
proof -
  note sizes = has_query_sizes [OF assms(2)]
  have "h2o_strstr api (as @ name) name = length as"
    by (rule substring_search.search_first [OF assms(1)]) (use assms(3) sizes(4) in \<open>auto simp: occurs_at_def\<close>)
  moreover have "length as \<noteq> SIZE_MAX" using sizes(4) by simp
  ultimately show ?thesis
    unfolding GetQueryString_def Let_def sizes(2,3) using sizes(1) by simp
qed

theorem GetQueryString_reads_past_end_witness:
  "GetQueryString list_api ((plain_request ''GET'' ''/a'' [])
     \<lparr>path_mem := ''/a?id'', path_len := 5, query_at := 2\<rparr>) ''id'' = Inl (Undefined_read ''*found'')"
proof (rule GetQueryString_reads_past_end [where pre = "''/a''" and as = "[]"])
  show "substring_search (h2o_strstr list_api)" by (simp add: list_api_def scan.substring_search_axioms)
qed (simp_all add: has_query_def plain_request_def)

text \<open>\<open>Send\<close> and \<open>SendJson\<close> answer exactly once and as their last call: with the given status, the
  reason \<open>OK\<close> whatever that status is, and the body; or, when sending throws, with the 503 error page,
  which carries the exception's message. Only \<open>SendJson\<close> adds a header first, the content type.\<close>

theorem Send_answers_once:
  "calls (Send api body c req) = calls req @
     [case send_inline_throws api body of None \<Rightarrow> Send_inline c ''OK'' body
      | Some what \<Rightarrow> Send_error_503 ''internal server error'' what] \<and>
   calls (SendJson api \<lparr>buf_data = Some body, buf_size = length body, buf_buffer = b\<rparr> c req) = calls req @
     [Add_header_content_type ''application/json'',
      case send_inline_throws api body of None \<Rightarrow> Send_inline c ''OK'' body
      | Some what \<Rightarrow> Send_error_503 ''internal server error'' what] \<and>
   status (Send api body c req) =
     (case send_inline_throws api body of None \<Rightarrow> c | Some what \<Rightarrow> status_error_503 api)"
  by (simp add: Send_def SendJson_def send_inline_try_def Status_def h2o_call_of_def split: option.splits)

end
