(* ===== verification/Middleware.thy ===== *)
theory Middleware
  imports Http_Message
begin

text \<open>
  \<open>middleware::MiddlewareBase\<close>, \<open>MiddlewareManager\<close> and \<open>CsrfMiddleware\<close>
  (\<open>src/piconaut/middleware/\<close>). A middleware is what its virtual \<open>Handle\<close> does to the state
  (request and response) and the continuation \<open>next\<close>, which it may call or not.
\<close>

section \<open>The manager\<close>

type_synonym 's middleware = "'s \<Rightarrow> ('s \<Rightarrow> 's result) \<Rightarrow> 's result"

text \<open>The vector of nullable \<open>shared_ptr<MiddlewareBase>\<close>.\<close>

type_synonym 's middlewares = "'s middleware option list"

definition Add :: "'s middleware option \<Rightarrow> 's middlewares \<Rightarrow> 's middlewares" where
  "Add middleware middlewares = middlewares @ [middleware]"

text \<open>Calling \<open>Handle\<close> through the pointer.\<close>

definition invoke :: "'s middleware option \<Rightarrow> 's middleware" where
  "invoke m s next = (case m of None \<Rightarrow> Inl (Undefined_read ''null middleware'') | Some h \<Rightarrow> h s next)"

function execute :: "'s middlewares \<Rightarrow> nat \<Rightarrow> 's \<Rightarrow> 's result" where
  "execute middlewares index s =
     (if index < length middlewares
      then invoke (middlewares ! index) s (\<lambda>s'. execute middlewares (index + 1) s')
      else Inr s)"
  by pat_completeness auto
termination
  by (relation "measure (\<lambda>(ms, index, s). length ms - index)") auto

declare execute.simps [simp del]

definition Handle :: "'s middlewares \<Rightarrow> 's \<Rightarrow> 's result" where
  "Handle middlewares s = execute middlewares 0 s"

section \<open>The chain as a composition\<close>

definition chain :: "'s middlewares \<Rightarrow> ('s \<Rightarrow> 's result) \<Rightarrow> 's \<Rightarrow> 's result" where
  "chain ms final = foldr (\<lambda>m next s. invoke m s next) ms final"

lemma chain_simps [simp]:
  "chain [] final = final"
  "chain (m # ms) final = (\<lambda>s. invoke m s (chain ms final))"
  by (simp_all add: chain_def)

lemma chain_append: "chain (ms @ ns) final = chain ms (chain ns final)"
  by (simp add: chain_def)

lemma execute_chain: "execute ms i s = chain (drop i ms) Inr s"
proof (induction ms i s rule: execute.induct)
  case (1 ms i s)
  show ?case
  proof (cases "i < length ms")
    case True
    then have "(\<lambda>s'. execute ms (i + 1) s') = chain (drop (i + 1) ms) Inr"
      using 1 by auto
    with True show ?thesis
      by (simp add: execute.simps [of ms i s] Cons_nth_drop_Suc [symmetric])
  next
    case False
    then show ?thesis by (simp add: execute.simps [of ms i s])
  qed
qed

lemma Handle_chain: "Handle ms s = chain ms Inr s"
  by (simp add: Handle_def execute_chain)

lemma Handle_Add: "Handle (Add m ms) s = chain ms (\<lambda>s'. invoke m s' Inr) s"
  by (simp add: Handle_chain Add_def chain_append)

section \<open>The contract of a filter\<close>

text \<open>
  A filter either answers by itself (\<open>stop\<close>) or hands the state, after \<open>pass\<close>, to the rest of
  the chain, once and as its last action.
\<close>

locale filter_middleware =
  fixes filter_handle :: "'s middleware"
    and stop :: "'s \<Rightarrow> 's result option"
    and pass :: "'s \<Rightarrow> 's"
  assumes filter_law:
    "filter_handle s next = (case stop s of Some r \<Rightarrow> r | None \<Rightarrow> next (pass s))"
begin

lemma filter_stops: "stop s = Some r \<Longrightarrow> chain (Some filter_handle # ms) final s = r"
  by (simp add: invoke_def filter_law)

lemma filter_passes: "stop s = None \<Longrightarrow> chain (Some filter_handle # ms) final s = chain ms final (pass s)"
  by (simp add: invoke_def filter_law)

lemma filter_guards:
  "chain (Some filter_handle # ms) final s \<noteq> chain (Some filter_handle # ms') final s \<Longrightarrow> stop s = None"
  by (cases "stop s") (auto simp: invoke_def filter_law)

end

section \<open>CsrfMiddleware\<close>

text \<open>\<open>rng_value\<close> is the number drawn from the generator seeded with the clock.\<close>

definition GenerateToken :: "uint64 \<Rightarrow> string" where
  "GenerateToken rng_value = decimal (unat rng_value)"

record CsrfMiddleware =
  csrf_token :: string

definition make_CsrfMiddleware :: "uint64 \<Rightarrow> CsrfMiddleware" where
  "make_CsrfMiddleware rng_value = \<lparr>csrf_token = GenerateToken rng_value\<rparr>"

definition ValidateToken :: "CsrfMiddleware \<Rightarrow> string \<Rightarrow> bool" where
  "ValidateToken m token = (token = csrf_token m)"

definition csrf_header :: string where
  "csrf_header = ''X-CSRF-Token''"

definition csrf_forbidden :: string where
  "csrf_forbidden = ''Forbidden: CSRF token invalid''"

definition CsrfMiddleware_Handle :: "h2o_api \<Rightarrow> CsrfMiddleware \<Rightarrow> h2o_req middleware" where
  "CsrfMiddleware_Handle api m req next =
     (let continue = (\<lambda>r. next (AddHeader csrf_header (csrf_token m) r))
      in if Method req = ''POST'' then
           bind_result (GetHeader api req csrf_header) (\<lambda>token.
             if \<not> ValidateToken m token
             then Inr (Send api csrf_forbidden default_status (Status 403 req))
             else continue req)
         else continue req)"

text \<open>What the middleware does instead of calling \<open>next\<close>, when it does not call it.\<close>

definition csrf_stop :: "h2o_api \<Rightarrow> CsrfMiddleware \<Rightarrow> h2o_req \<Rightarrow> h2o_req result option" where
  "csrf_stop api m req =
     (if Method req \<noteq> ''POST'' then None
      else case GetHeader api req csrf_header of
        Inl e \<Rightarrow> Some (Inl e)
      | Inr token \<Rightarrow> if ValidateToken m token then None
                   else Some (Inr (Send api csrf_forbidden default_status (Status 403 req))))"

interpretation csrf: filter_middleware "CsrfMiddleware_Handle api m" "csrf_stop api m"
  "AddHeader csrf_header (csrf_token m)" for api m
  by unfold_locales
    (auto simp: CsrfMiddleware_Handle_def csrf_stop_def Let_def split: sum.splits)

section \<open>Tokens\<close>

lemma token_length: "length (GenerateToken v) \<le> 20"
proof -
  have "unat v < 2 ^ 64" using unsigned_less [where 'a = nat, of v] by simp
  also have "(2::nat) ^ 64 < 10 ^ 20" by simp
  finally show ?thesis unfolding GenerateToken_def by (rule decimal_length) simp
qed

text \<open>Reading the digits back.\<close>

definition digits_value :: "string \<Rightarrow> nat" where
  "digits_value s = foldl (\<lambda>n c. 10 * n + (of_char c - 48)) 0 s"

lemma digits_value_decimal: "digits_value (decimal n) = n"
proof (induction n rule: decimal.induct)
  case (1 n)
  have d: "(of_char (digit_char k) :: nat) - 48 = k" if "k < 10" for k
    using that by (simp add: digit_char_def)
  show ?case
  proof (cases "n < 10")
    case True
    then show ?thesis using d by (simp add: decimal.simps [of n] digits_value_def)
  next
    case False
    with 1 d [of "n mod 10"] show ?thesis
      by (simp add: decimal.simps [of n] digits_value_def)
  qed
qed

lemma token_nonempty: "csrf_token (make_CsrfMiddleware v) \<noteq> []"
  by (simp add: make_CsrfMiddleware_def GenerateToken_def decimal_nonempty)

section \<open>Properties\<close>

text \<open>C32. The manager runs the added middlewares in the order of \<open>Add\<close>, each with the rest of the
  chain as its continuation, and the chain ends after the last one; the recursion terminates.\<close>

theorem manager_runs_in_order:
  "Handle (fold Add ms []) s = foldr (\<lambda>m next s. invoke m s next) ms Inr s"
proof -
  have "fold Add ms acc = acc @ ms" for acc :: "'a middlewares"
    by (induction ms arbitrary: acc) (simp_all add: Add_def)
  then show ?thesis by (simp add: Handle_chain chain_def)
qed

text \<open>C31. A POST request without the token (no header of that name, or other values) never reaches the
  rest of the chain, whatever it is: the middleware answers itself. The answer is the refusal's body
  under status 200, because \<open>Send\<close> overwrites the 403 that was set before it.\<close>

theorem csrf_refuses:
  assumes "header_search (find_header_by_str api)" and "Method req = ''POST''"
    and "(csrf_header, csrf_token (make_CsrfMiddleware rng)) \<notin> set (req_headers req)"
    and "send_inline_throws api csrf_forbidden = None"
  shows "\<exists>res. Handle (Some (CsrfMiddleware_Handle api (make_CsrfMiddleware rng)) # ms) req = Inr res \<and>
    status res = 200 \<and> calls res = calls req @ [Send_inline 200 ''OK'' csrf_forbidden]"
proof -
  let ?m = "make_CsrfMiddleware rng"
  obtain v where v: "GetHeader api req csrf_header = Inr v" "v \<noteq> csrf_token ?m"
  proof (cases rule: header_search.find_header_cases [OF assms(1), of "req_headers req" csrf_header])
    case 1
    with that [of "[]"] token_nonempty [of rng] show thesis by (simp add: GetHeader_def)
  next
    case (2 i)
    then have "(csrf_header, snd (req_headers req ! i)) \<in> set (req_headers req)"
      by (metis nth_mem prod.collapse)
    with assms(3) have "snd (req_headers req ! i) \<noteq> csrf_token ?m" by metis
    moreover have "GetHeader api req csrf_header = Inr (snd (req_headers req ! i))"
      using 2(1,2) by (simp add: GetHeader_def Let_def)
    ultimately show thesis by (rule that [rotated])
  qed
  then have "csrf_stop api ?m req = Some (Inr (Send api csrf_forbidden default_status (Status 403 req)))"
    using assms(2) by (simp add: csrf_stop_def ValidateToken_def)
  from csrf.filter_stops [OF this] assms(4) show ?thesis
    by (simp add: Handle_chain Send_def send_inline_try_def Status_def h2o_call_of_def default_status_def)
qed

theorem csrf_refuses_witness:
  "\<exists>res. Handle [Some (CsrfMiddleware_Handle list_api (make_CsrfMiddleware 42)), None]
       (plain_request ''POST'' ''/a'' [(''X-CSRF-Token'', ''41'')]) = Inr res \<and>
    status res = 200 \<and>
    calls res = calls (plain_request ''POST'' ''/a'' [(''X-CSRF-Token'', ''41'')]) @ [Send_inline 200 ''OK'' csrf_forbidden]"
proof (rule csrf_refuses)
  show "header_search (find_header_by_str list_api)" by (simp add: list_api_def front.header_search_axioms)
  show "(csrf_header, csrf_token (make_CsrfMiddleware 42))
      \<notin> set (req_headers (plain_request ''POST'' ''/a'' [(''X-CSRF-Token'', ''41'')]))"
    by (simp add: make_CsrfMiddleware_def GenerateToken_def decimal.simps digit_char_def char_of_eq_iff)
qed (simp_all add: list_api_def)

text \<open>Requests of another method, and POST requests all of whose headers of that name (one at least)
  carry the token, are handed to the rest of the chain once, with the token added as a response
  header and nothing sent.\<close>

theorem csrf_passes:
  assumes "header_search (find_header_by_str api)"
    and "Method req \<noteq> ''POST'' \<or> csrf_header \<in> fst ` set (req_headers req) \<and>
      (\<forall>v. (csrf_header, v) \<in> set (req_headers req) \<longrightarrow> v = csrf_token m)"
  shows "Handle (Some (CsrfMiddleware_Handle api m) # ms) req =
    Handle ms (req\<lparr>calls := calls req @ [Add_header_by_str csrf_header (csrf_token m)]\<rparr>)"
proof -
  have "csrf_stop api m req = None"
  proof (cases "Method req = ''POST''")
    case True
    with assms(2) have h: "csrf_header \<in> fst ` set (req_headers req)"
      "\<forall>v. (csrf_header, v) \<in> set (req_headers req) \<longrightarrow> v = csrf_token m" by auto
    show ?thesis
    proof (cases rule: header_search.find_header_cases [OF assms(1), of "req_headers req" csrf_header])
      case 1
      with h show ?thesis by blast
    next
      case (2 i)
      then have "(csrf_header, snd (req_headers req ! i)) \<in> set (req_headers req)"
        by (metis nth_mem prod.collapse)
      with 2 h show ?thesis by (simp add: csrf_stop_def GetHeader_def Let_def ValidateToken_def)
    qed
  qed (simp add: csrf_stop_def)
  from csrf.filter_passes [OF this] show ?thesis
    by (simp add: Handle_chain AddHeader_def h2o_call_of_def)
qed

theorem csrf_passes_witness:
  "Handle [Some (CsrfMiddleware_Handle list_api \<lparr>csrf_token = ''42''\<rparr>), None]
     (plain_request ''POST'' ''/a'' [(''X-CSRF-Token'', ''42'')]) =
   Handle [None] ((plain_request ''POST'' ''/a'' [(''X-CSRF-Token'', ''42'')])
     \<lparr>calls := calls (plain_request ''POST'' ''/a'' [(''X-CSRF-Token'', ''42'')]) @
        [Add_header_by_str csrf_header (csrf_token \<lparr>csrf_token = ''42''\<rparr>)]\<rparr>)"
proof (rule csrf_passes)
  show "header_search (find_header_by_str list_api)" by (simp add: list_api_def front.header_search_axioms)
qed (simp add: csrf_header_def)

text \<open>A token is the decimal text of the drawn number: one to twenty digits, and different numbers
  have different tokens, so a token is accepted by exactly the objects that drew its number.\<close>

theorem token_identifies_number:
  "ValidateToken (make_CsrfMiddleware v) (GenerateToken w) = (v = w) \<and>
   0 < length (GenerateToken v) \<and> length (GenerateToken v) \<le> 20 \<and>
   set (GenerateToken v) \<subseteq> digit_char ` {0..<10}"
proof -
  have "GenerateToken w = GenerateToken v \<longleftrightarrow> v = w"
    unfolding GenerateToken_def by (metis digits_value_decimal word_unat_eq_iff)
  moreover have "set (GenerateToken v) \<subseteq> digit_char ` {0..<10}"
    unfolding GenerateToken_def using decimal_digits by fastforce
  ultimately show ?thesis
    using token_length [of v] decimal_nonempty
    by (simp add: ValidateToken_def make_CsrfMiddleware_def) (simp add: GenerateToken_def)
qed

end
