(* ===== verification/Rapidjson.thy ===== *)
theory Rapidjson
  imports Pico_Base
begin

text \<open>
  RapidJSON as the JSON classes use it. The library is not part of the repository: its values
  are a type parameter and its functions the fields of the record \<open>rapidjson\<close>. The locale
  \<open>rapidjson_laws\<close> states what its documentation says of them. Pointers into a document are
  paths of member names; \<open>deref\<close> and \<open>store\<close> follow them and fail on a path that leads nowhere.
  The type \<open>dom\<close> is a model of the interface, on which the witnesses run.
\<close>

section \<open>The interface\<close>

text \<open>
  Constructors of values; \<open>GetType\<close> as the number of \<open>rapidjson::Type\<close> (0 null, 1 false, 2 true,
  3 object, 4 array, 5 string, 6 number); tests and reads; \<open>HasMember\<close>, \<open>operator[]\<close>,
  \<open>AddMember\<close>, assignment to the member \<open>operator[]\<close> refers to (\<open>rj_put_member\<close>); array
  elements and \<open>PushBack\<close>; \<open>Accept\<close> with a \<open>Writer\<close> or \<open>PrettyWriter\<close> (\<open>None\<close> when it returns
  false).
\<close>

record 'v rapidjson =
  rj_null :: 'v
  rj_object :: 'v
  rj_array :: 'v
  rj_string :: "string \<Rightarrow> 'v"
  rj_bool :: "bool \<Rightarrow> 'v"
  rj_int :: "int32 \<Rightarrow> 'v"
  rj_uint :: "uint32 \<Rightarrow> 'v"
  rj_double :: "cxx_double \<Rightarrow> 'v"
  rj_float :: "cxx_float \<Rightarrow> 'v"
  rj_type :: "'v \<Rightarrow> int"
  rj_is_int :: "'v \<Rightarrow> bool"
  rj_is_double :: "'v \<Rightarrow> bool"
  rj_get_string :: "'v \<Rightarrow> string"
  rj_get_int :: "'v \<Rightarrow> int32"
  rj_get_double :: "'v \<Rightarrow> cxx_double"
  rj_get_bool :: "'v \<Rightarrow> bool"
  rj_has_member :: "'v \<Rightarrow> string \<Rightarrow> bool"
  rj_member :: "'v \<Rightarrow> string \<Rightarrow> 'v"
  rj_add_member :: "string \<Rightarrow> 'v \<Rightarrow> 'v \<Rightarrow> 'v"
  rj_put_member :: "string \<Rightarrow> 'v \<Rightarrow> 'v \<Rightarrow> 'v"
  rj_elements :: "'v \<Rightarrow> 'v list"
  rj_push_back :: "'v \<Rightarrow> 'v \<Rightarrow> 'v"
  rj_write :: "'v \<Rightarrow> string option"
  rj_write_pretty :: "'v \<Rightarrow> string option"

definition is_null :: "'v rapidjson \<Rightarrow> 'v \<Rightarrow> bool" where
  "is_null R v = (rj_type R v = 0)"

definition is_bool :: "'v rapidjson \<Rightarrow> 'v \<Rightarrow> bool" where
  "is_bool R v = (rj_type R v = 1 \<or> rj_type R v = 2)"

definition is_object :: "'v rapidjson \<Rightarrow> 'v \<Rightarrow> bool" where
  "is_object R v = (rj_type R v = 3)"

definition is_array :: "'v rapidjson \<Rightarrow> 'v \<Rightarrow> bool" where
  "is_array R v = (rj_type R v = 4)"

definition is_string :: "'v rapidjson \<Rightarrow> 'v \<Rightarrow> bool" where
  "is_string R v = (rj_type R v = 5)"

definition is_number :: "'v rapidjson \<Rightarrow> 'v \<Rightarrow> bool" where
  "is_number R v = (rj_type R v = 6)"

lemmas is_kind_defs = is_null_def is_bool_def is_object_def is_array_def is_string_def is_number_def

text \<open>\<open>HasMember\<close> asserts that it is called on an object.\<close>

definition has_member :: "'v rapidjson \<Rightarrow> 'v \<Rightarrow> string \<Rightarrow> bool result" where
  "has_member R v k = (if is_object R v then Inr (rj_has_member R v k)
     else Inl (Rapidjson_assert ''IsObject()''))"

section \<open>Pointers into a document\<close>

type_synonym path = "string list"

fun deref :: "'v rapidjson \<Rightarrow> path \<Rightarrow> 'v \<Rightarrow> 'v result" where
  "deref R [] v = Inr v"
| "deref R (k # ks) v =
     (if is_object R v \<and> rj_has_member R v k then deref R ks (rj_member R v k)
      else Inl (Undefined_read ''dangling json pointer''))"

fun store :: "'v rapidjson \<Rightarrow> 'v \<Rightarrow> path \<Rightarrow> 'v \<Rightarrow> 'v result" where
  "store R x [] v = Inr x"
| "store R x (k # ks) v =
     (if is_object R v \<and> rj_has_member R v k
      then bind_result (store R x ks (rj_member R v k)) (\<lambda>m. Inr (rj_put_member R k m v))
      else Inl (Undefined_read ''dangling json pointer''))"

definition live :: "'v rapidjson \<Rightarrow> 'v \<Rightarrow> path \<Rightarrow> bool" where
  "live R d p = (\<exists>v. deref R p d = Inr v)"

lemma live_Nil [simp]: "live R d []"
  by (simp add: live_def)

lemma live_Cons [simp]:
  "live R d (k # ks) \<longleftrightarrow> is_object R d \<and> rj_has_member R d k \<and> live R (rj_member R d k) ks"
  by (auto simp: live_def)

lemma store_live: "live R d p \<Longrightarrow> \<exists>d'. store R x p d = Inr d'"
proof (induction p arbitrary: d)
  case (Cons k p)
  then have "live R (rj_member R d k) p" by simp
  with Cons.IH obtain m where "store R x p (rj_member R d k) = Inr m" by blast
  with Cons.prems show ?case by simp
qed simp

lemma deref_append: "deref R (p @ q) d = bind_result (deref R p d) (deref R q)"
  by (induction p arbitrary: d) auto

lemma live_append: "live R d (p @ q) \<longleftrightarrow> (\<exists>v. deref R p d = Inr v \<and> live R v q)"
  by (auto simp: live_def deref_append result_simps)

lemma live_prefix: "live R d (p @ q) \<Longrightarrow> live R d p"
  by (auto simp: live_append) (simp add: live_def)

text \<open>Two positions that part at some member: neither lies above the other.\<close>

fun diverges :: "path \<Rightarrow> path \<Rightarrow> bool" where
  "diverges (a # p) (b # q) = (a \<noteq> b \<or> diverges p q)"
| "diverges _ _ = False"

section \<open>The documented laws\<close>

locale rapidjson_laws =
  fixes R :: "'v rapidjson"
  assumes type_null: "rj_type R (rj_null R) = 0"
    and type_bool: "rj_type R (rj_bool R b) = (if b then 2 else 1)"
    and type_object: "rj_type R (rj_object R) = 3"
    and type_array: "rj_type R (rj_array R) = 4"
    and type_string: "rj_type R (rj_string R s) = 5"
    and type_int: "rj_type R (rj_int R i) = 6"
    and type_uint: "rj_type R (rj_uint R u) = 6"
    and type_double: "rj_type R (rj_double R x) = 6"
    and type_float: "rj_type R (rj_float R f) = 6"
    and type_range: "0 \<le> rj_type R v \<and> rj_type R v \<le> 6"
    and has_object: "\<not> rj_has_member R (rj_object R) k"
    and type_add: "rj_type R v = 3 \<Longrightarrow> rj_type R (rj_add_member R k y v) = 3"
    and has_add: "rj_type R v = 3 \<Longrightarrow> rj_has_member R (rj_add_member R k y v) j \<longleftrightarrow> j = k \<or> rj_has_member R v j"
    and member_add: "rj_type R v = 3 \<Longrightarrow> \<not> rj_has_member R v k \<Longrightarrow>
      j = k \<or> rj_has_member R v j \<Longrightarrow>
      rj_member R (rj_add_member R k y v) j = (if j = k then y else rj_member R v j)"
    and type_put: "rj_type R v = 3 \<Longrightarrow> rj_has_member R v k \<Longrightarrow> rj_type R (rj_put_member R k y v) = 3"
    and has_put: "rj_type R v = 3 \<Longrightarrow> rj_has_member R v k \<Longrightarrow>
      rj_has_member R (rj_put_member R k y v) j \<longleftrightarrow> rj_has_member R v j"
    and member_put: "rj_type R v = 3 \<Longrightarrow> rj_has_member R v k \<Longrightarrow> rj_has_member R v j \<Longrightarrow>
      rj_member R (rj_put_member R k y v) j = (if j = k then y else rj_member R v j)"
    and get_string: "rj_get_string R (rj_string R s) = s"
    and get_int: "rj_is_int R (rj_int R i) \<and> rj_get_int R (rj_int R i) = i"
    and get_double: "rj_is_double R (rj_double R x) \<and> rj_get_double R (rj_double R x) = x"
    and get_bool: "rj_get_bool R (rj_bool R b) = b"
    and int_not_double: "\<not> rj_is_double R (rj_int R i) \<and> \<not> rj_is_int R (rj_double R x)"
    and number_types: "rj_is_int R v \<or> rj_is_double R v \<Longrightarrow> rj_type R v = 6"
    and elements_array: "rj_elements R (rj_array R) = []"
    and type_push: "rj_type R a = 4 \<Longrightarrow> rj_type R (rj_push_back R a y) = 4"
    and elements_push: "rj_type R a = 4 \<Longrightarrow> rj_elements R (rj_push_back R a y) = rj_elements R a @ [y]"
begin

lemmas type_simps = type_null type_bool type_object type_array type_string type_int type_uint
  type_double type_float

lemma deref_store_same: "store R x p d = Inr d' \<Longrightarrow> deref R p d' = Inr x"
proof (induction p arbitrary: d d')
  case (Cons k ks)
  then show ?case
    by (auto simp: result_simps is_object_def type_put has_put member_put split: if_splits)
qed simp

lemma deref_store_below: "store R x p d = Inr d' \<Longrightarrow> deref R (p @ q) d' = deref R q x"
  by (simp add: deref_append deref_store_same)

text \<open>A write leaves every position that is neither above nor below it as it was.\<close>

lemma deref_store_other:
  "store R x p d = Inr d' \<Longrightarrow> diverges p q \<Longrightarrow> deref R q d' = deref R q d"
proof (induction p q arbitrary: d d' rule: diverges.induct)
  case (1 a p b q)
  then obtain m where st: "store R x p (rj_member R d a) = Inr m" "d' = rj_put_member R a m d"
    and obj: "rj_type R d = 3" "rj_has_member R d a"
    by (auto simp: result_simps is_object_def split: if_splits)
  then show ?case
    using 1 by (auto simp: is_object_def type_put has_put member_put split: if_splits)
qed auto

lemma deref_add_other:
  assumes "rj_type R v = 3" and "\<not> rj_has_member R v k" and "q \<noteq> []" and "hd q \<noteq> k"
  shows "deref R q (rj_add_member R k y v) = deref R q v"
  using assms by (cases q) (auto simp: is_object_def type_add has_add member_add)

lemma store_put_type:
  "store R x p d = Inr d' \<Longrightarrow> p \<noteq> [] \<Longrightarrow> is_object R d \<and> is_object R d'"
  by (cases p) (auto simp: result_simps is_object_def type_put split: if_splits)

end

section \<open>A document model with these laws\<close>

datatype dom =
    DNull
  | DBool bool
  | DInt int32
  | DUint uint32
  | DDouble cxx_double
  | DString string
  | DArray "dom list"
  | DObject "(string \<times> dom) list"

definition escape_char :: "char \<Rightarrow> string" where
  "escape_char c =
     (if c = CHR 0x22 \<or> c = CHR 0x5C then [CHR 0x5C, c]
      else if c = CHR 0x0A then [CHR 0x5C, CHR ''n'']
      else [c])"

definition quoted :: "string \<Rightarrow> string" where
  "quoted s = [CHR 0x22] @ concat (map escape_char s) @ [CHR 0x22]"

definition comma_sep :: "string list \<Rightarrow> string" where
  "comma_sep ts = (case ts of [] \<Rightarrow> [] | t # us \<Rightarrow> t @ concat (map (\<lambda>u. CHR '','' # u) us))"

text \<open>Compact text; the text of a \<open>double\<close> is left to \<open>dtext\<close>.\<close>

fun dom_text :: "(cxx_double \<Rightarrow> string) \<Rightarrow> dom \<Rightarrow> string" where
  "dom_text dtext DNull = ''null''"
| "dom_text dtext (DBool b) = (if b then ''true'' else ''false'')"
| "dom_text dtext (DInt i) =
     (if sint i < 0 then CHR ''-'' # decimal (nat (- sint i)) else decimal (nat (sint i)))"
| "dom_text dtext (DUint u) = decimal (unat u)"
| "dom_text dtext (DDouble x) = dtext x"
| "dom_text dtext (DString s) = quoted s"
| "dom_text dtext (DArray vs) = ''['' @ comma_sep (map (dom_text dtext) vs) @ '']''"
| "dom_text dtext (DObject ms) =
     [CHR 0x7B] @ comma_sep (map (\<lambda>(k, v). quoted k @ '':'' @ dom_text dtext v) ms) @ [CHR 0x7D]"

fun dom_type :: "dom \<Rightarrow> int" where
  "dom_type DNull = 0"
| "dom_type (DBool b) = (if b then 2 else 1)"
| "dom_type (DObject ms) = 3"
| "dom_type (DArray vs) = 4"
| "dom_type (DString s) = 5"
| "dom_type _ = 6"

definition members_of :: "dom \<Rightarrow> (string \<times> dom) list" where
  "members_of v = (case v of DObject ms \<Rightarrow> ms | _ \<Rightarrow> [])"

definition elements_of :: "dom \<Rightarrow> dom list" where
  "elements_of v = (case v of DArray vs \<Rightarrow> vs | _ \<Rightarrow> [])"

text \<open>\<open>dtext\<close> writes a \<open>double\<close> and \<open>widen\<close> turns a \<open>float\<close> into one.\<close>

definition dom_api :: "(cxx_double \<Rightarrow> string) \<Rightarrow> (cxx_float \<Rightarrow> cxx_double) \<Rightarrow> dom rapidjson" where
  "dom_api dtext widen = \<lparr>
     rj_null = DNull, rj_object = DObject [], rj_array = DArray [],
     rj_string = DString, rj_bool = DBool, rj_int = DInt, rj_uint = DUint,
     rj_double = DDouble, rj_float = (\<lambda>f. DDouble (widen f)),
     rj_type = dom_type,
     rj_is_int = (\<lambda>v. case v of DInt i \<Rightarrow> True | DUint u \<Rightarrow> unat u < 2 ^ 31 | _ \<Rightarrow> False),
     rj_is_double = (\<lambda>v. case v of DDouble x \<Rightarrow> True | _ \<Rightarrow> False),
     rj_get_string = (\<lambda>v. case v of DString s \<Rightarrow> s | _ \<Rightarrow> []),
     rj_get_int = (\<lambda>v. case v of DInt i \<Rightarrow> i | DUint u \<Rightarrow> u | _ \<Rightarrow> 0),
     rj_get_double = (\<lambda>v. case v of DDouble x \<Rightarrow> x | _ \<Rightarrow> 0),
     rj_get_bool = (\<lambda>v. case v of DBool b \<Rightarrow> b | _ \<Rightarrow> False),
     rj_has_member = (\<lambda>v k. map_of (members_of v) k \<noteq> None),
     rj_member = (\<lambda>v k. case map_of (members_of v) k of None \<Rightarrow> DNull | Some m \<Rightarrow> m),
     rj_add_member = (\<lambda>k m v. DObject (members_of v @ [(k, m)])),
     rj_put_member = (\<lambda>k m v. DObject (AList.update k m (members_of v))),
     rj_elements = elements_of,
     rj_push_back = (\<lambda>a m. DArray (elements_of a @ [m])),
     rj_write = (\<lambda>v. Some (dom_text dtext v)),
     rj_write_pretty = (\<lambda>v. Some (dom_text dtext v))\<rparr>"

lemma dom_type_object: "dom_type v = 3 \<longleftrightarrow> (\<exists>ms. v = DObject ms)"
  by (cases v) auto

lemma dom_type_array: "dom_type v = 4 \<longleftrightarrow> (\<exists>vs. v = DArray vs)"
  by (cases v) auto

lemma dom_type_range: "0 \<le> dom_type v \<and> dom_type v \<le> 6"
  by (cases v) auto

interpretation dom: rapidjson_laws "dom_api dtext widen" for dtext widen
  by unfold_locales
    (auto simp: dom_api_def members_of_def elements_of_def dom_type_object dom_type_array
      dom_type_range update_conv' map_add_def split: dom.splits option.splits)

end
