(* ===== verification/Json_Builder.thy ===== *)
theory Json_Builder
  imports Rapidjson Http_Message
begin

text \<open>
  \<open>formats::json::ValueBuilder\<close> (\<open>src/piconaut/formats/json/value_builder.{h,cc}\<close>): a
  document, the pointer to the value the last \<open>[]\<close> reached, the type it had, and the chain of
  nodes the \<open>[]\<close> calls of one expression have walked. Pointers are paths of member names.
  RapidJSON is the parameter \<open>R\<close>. What an object writes to \<open>std::cerr\<close> is its log \<open>cerr\<close>.
\<close>

section \<open>State\<close>

datatype JsonValueType =
    kUnknown | kNullType | kFalseType | kTrueType | kObjectType | kArrayType | kStringType | kNumberType
  | kUnnamed int

text \<open>\<open>static_cast<JsonValueType>(type)\<close>; a number with no enumerator keeps its value.\<close>

definition json_value_type :: "int \<Rightarrow> JsonValueType" where
  "json_value_type n =
     (if n = -1 then kUnknown else if n = 0 then kNullType else if n = 1 then kFalseType
      else if n = 2 then kTrueType else if n = 3 then kObjectType else if n = 4 then kArrayType
      else if n = 5 then kStringType else if n = 6 then kNumberType else kUnnamed n)"

text \<open>\<open>JsonBuilderNode\<close>: the key and the pointer to the node.\<close>

type_synonym JsonBuilderNode = "string \<times> path"

record 'v ValueBuilder =
  document :: 'v
  current_value :: "path option"
  is_empty :: bool
  current_type :: JsonValueType
  value_nodes :: "JsonBuilderNode list"
  cerr :: "string list"

definition make_ValueBuilder :: "'v rapidjson \<Rightarrow> 'v ValueBuilder" where
  "make_ValueBuilder R = \<lparr>document = rj_object R, current_value = Some [], is_empty = True,
     current_type = kUnknown, value_nodes = [], cerr = []\<rparr>"

definition copy_ValueBuilder :: "'v ValueBuilder \<Rightarrow> 'v ValueBuilder" where
  "copy_ValueBuilder other = \<lparr>document = document other, current_value = Some [],
     is_empty = is_empty other, current_type = kUnknown, value_nodes = [], cerr = []\<rparr>"

definition GetNodeValue :: "'v ValueBuilder \<Rightarrow> path" where
  "GetNodeValue b = (if length (value_nodes b) = 0 then [] else snd (last (value_nodes b)))"

text \<open>The first lines of the operators: \<open>if (is_empty_) { document_.SetObject(); is_empty_ = false; }\<close>\<close>

definition ensure_object :: "'v rapidjson \<Rightarrow> 'v ValueBuilder \<Rightarrow> 'v ValueBuilder" where
  "ensure_object R b = (if is_empty b then b\<lparr>document := rj_object R, is_empty := False\<rparr> else b)"

section \<open>Operations\<close>

text \<open>\<open>operator=(const ValueBuilder&)\<close>; \<open>self\<close> tells that \<open>other\<close> is the object itself.\<close>

definition assign_builder ::
  "'v rapidjson \<Rightarrow> bool \<Rightarrow> 'v ValueBuilder \<Rightarrow> 'v ValueBuilder \<Rightarrow> 'v ValueBuilder result" where
  "assign_builder R self other b =
     (if self then Inr b
      else let b1 = ensure_object R b; node = GetNodeValue b1
        in bind_result (store R (document other) node (document b1)) (\<lambda>d.
           Inr (b1\<lparr>document := d, current_type := json_value_type (rj_type R (document other)),
                   current_value := Some node\<rparr>)))"

definition index_builder :: "'v rapidjson \<Rightarrow> string \<Rightarrow> 'v ValueBuilder \<Rightarrow> 'v ValueBuilder result" where
  "index_builder R key b =
     (let b1 = ensure_object R b; node = GetNodeValue b1; k = c_str key; child = node @ [k]
      in bind_result (deref R node (document b1)) (\<lambda>nv.
         bind_result (has_member R nv k) (\<lambda>found.
         bind_result
           (if \<not> found then
              bind_result (store R (rj_add_member R k (rj_null R) nv) node (document b1)) (\<lambda>d.
                Inr (b1\<lparr>document := d, current_type := kUnknown, current_value := Some child\<rparr>))
            else Inr (b1\<lparr>current_value := Some child,
                   current_type := json_value_type (rj_type R (rj_member R nv k))\<rparr>))
           (\<lambda>b2. Inr (b2\<lparr>value_nodes := value_nodes b2 @ [(key, child)]\<rparr>)))))"

definition type_message :: string where
  "type_message = ''Can't change the type initialized previously!''"

definition CreateJsonObject :: "'v rapidjson \<Rightarrow> 'v ValueBuilder \<Rightarrow> 'v ValueBuilder result" where
  "CreateJsonObject R b =
     (case current_value b of
        None \<Rightarrow> Inl (Runtime_error (''please call `json['' @ [CHR 0x22] @ ''key_name'' @ [CHR 0x22] @
          ''].CreateJsonObject()` before call CreateJsonObject on root''))
      | Some p \<Rightarrow>
          bind_result
            (if current_type b = kUnknown then
               bind_result (store R (rj_object R) p (document b)) (\<lambda>d.
                 Inr (b\<lparr>document := d, current_type := kObjectType\<rparr>))
             else Inr (b\<lparr>cerr := cerr b @ [type_message]\<rparr>))
            (\<lambda>b1. Inr (b1\<lparr>value_nodes := []\<rparr>)))"

text \<open>
  The common body of the scalar assignments: \<open>accepted\<close> is the condition on \<open>current_type_\<close>,
  \<open>retype\<close> the value it is set to by the operators that set it, \<open>v\<close> the new JSON value.
\<close>

definition assign_scalar ::
  "'v rapidjson \<Rightarrow> JsonValueType set \<Rightarrow> JsonValueType option \<Rightarrow> 'v \<Rightarrow> 'v ValueBuilder \<Rightarrow>
     'v ValueBuilder result" where
  "assign_scalar R accepted retype v b =
     (let b1 = ensure_object R b
      in case current_value b1 of
           None \<Rightarrow> Inr b1
         | Some p \<Rightarrow>
             bind_result
               (if current_type b1 \<in> accepted then
                  bind_result (store R v p (document b1)) (\<lambda>d.
                    Inr (b1\<lparr>document := d,
                      current_type := (case retype of None \<Rightarrow> current_type b1 | Some t \<Rightarrow> t)\<rparr>))
                else Inr (b1\<lparr>cerr := cerr b1 @ [type_message]\<rparr>))
               (\<lambda>b2. Inr (b2\<lparr>value_nodes := []\<rparr>)))"

definition assign_string :: "'v rapidjson \<Rightarrow> string \<Rightarrow> 'v ValueBuilder \<Rightarrow> 'v ValueBuilder result" where
  "assign_string R s = assign_scalar R {kUnknown, kStringType} (Some kStringType) (rj_string R (c_str s))"

definition assign_uint :: "'v rapidjson \<Rightarrow> uint32 \<Rightarrow> 'v ValueBuilder \<Rightarrow> 'v ValueBuilder result" where
  "assign_uint R u = assign_scalar R {kUnknown, kNumberType} (Some kNumberType) (rj_uint R u)"

definition assign_int :: "'v rapidjson \<Rightarrow> int32 \<Rightarrow> 'v ValueBuilder \<Rightarrow> 'v ValueBuilder result" where
  "assign_int R i = assign_scalar R {kUnknown, kNumberType} (Some kNumberType) (rj_int R i)"

definition assign_double :: "'v rapidjson \<Rightarrow> cxx_double \<Rightarrow> 'v ValueBuilder \<Rightarrow> 'v ValueBuilder result" where
  "assign_double R x = assign_scalar R {kUnknown, kNumberType} (Some kNumberType) (rj_double R x)"

definition assign_float :: "'v rapidjson \<Rightarrow> cxx_float \<Rightarrow> 'v ValueBuilder \<Rightarrow> 'v ValueBuilder result" where
  "assign_float R f = assign_scalar R {kUnknown, kNumberType} (Some kNumberType) (rj_float R f)"

definition assign_bool :: "'v rapidjson \<Rightarrow> bool \<Rightarrow> 'v ValueBuilder \<Rightarrow> 'v ValueBuilder result" where
  "assign_bool R t = assign_scalar R {kUnknown, kFalseType, kTrueType} None (rj_bool R t)"

text \<open>The \<open>const char*\<close> operator: the argument is read up to its NUL.\<close>

definition assign_cstr :: "'v rapidjson \<Rightarrow> string \<Rightarrow> 'v ValueBuilder \<Rightarrow> 'v ValueBuilder result" where
  "assign_cstr R s = assign_scalar R {kUnknown, kStringType} None (rj_string R (c_str s))"

definition serialize_error :: cxx_error where
  "serialize_error = Runtime_error ''Failed to serialize JSON document.''"

definition buffer_of :: "string \<Rightarrow> JsonBuffer" where
  "buffer_of t = \<lparr>buf_data = Some t, buf_size = length t, buf_buffer = Some t\<rparr>"

definition SerializeToBytes :: "'v rapidjson \<Rightarrow> 'v ValueBuilder \<Rightarrow> JsonBuffer result" where
  "SerializeToBytes R b =
     (case rj_write R (document b) of None \<Rightarrow> Inl serialize_error | Some t \<Rightarrow> Inr (buffer_of t))"

definition SerializePrettyToBytes :: "'v rapidjson \<Rightarrow> 'v ValueBuilder \<Rightarrow> JsonBuffer result" where
  "SerializePrettyToBytes R b =
     (case rj_write_pretty R (document b) of None \<Rightarrow> Inl serialize_error | Some t \<Rightarrow> Inr (buffer_of t))"

text \<open>The scalar values an assignment can store, and the operations as data.\<close>

datatype scalar = S_string string | S_uint uint32 | S_int int32 | S_double cxx_double
  | S_float cxx_float | S_bool bool | S_cstr string

primrec assign :: "'v rapidjson \<Rightarrow> scalar \<Rightarrow> 'v ValueBuilder \<Rightarrow> 'v ValueBuilder result" where
  "assign R (S_string s) = assign_string R s"
| "assign R (S_uint u) = assign_uint R u"
| "assign R (S_int i) = assign_int R i"
| "assign R (S_double x) = assign_double R x"
| "assign R (S_float f) = assign_float R f"
| "assign R (S_bool t) = assign_bool R t"
| "assign R (S_cstr s) = assign_cstr R s"

datatype 'v builder_op = Op_index string | Op_create | Op_assign scalar | Op_copy_from "'v ValueBuilder"

primrec run_op :: "'v rapidjson \<Rightarrow> 'v builder_op \<Rightarrow> 'v ValueBuilder \<Rightarrow> 'v ValueBuilder result" where
  "run_op R (Op_index key) = index_builder R key"
| "run_op R Op_create = CreateJsonObject R"
| "run_op R (Op_assign v) = assign R v"
| "run_op R (Op_copy_from other) = assign_builder R False other"

definition run_ops :: "'v rapidjson \<Rightarrow> 'v builder_op list \<Rightarrow> 'v ValueBuilder \<Rightarrow> 'v ValueBuilder result" where
  "run_ops R = for_result (run_op R)"

text \<open>An expression \<open>json[k1][k2]...\<close>.\<close>

definition index_all :: "'v rapidjson \<Rightarrow> string list \<Rightarrow> 'v ValueBuilder \<Rightarrow> 'v ValueBuilder result" where
  "index_all R = for_result (index_builder R)"

text \<open>The statements \<open>json[k1]...[kn] = v\<close> and \<open>json[k1]...[kn].CreateJsonObject()\<close>.\<close>

definition assign_at :: "'v rapidjson \<Rightarrow> string list \<Rightarrow> scalar \<Rightarrow> 'v ValueBuilder \<Rightarrow> 'v ValueBuilder result" where
  "assign_at R ks v b = bind_result (index_all R ks b) (assign R v)"

definition create_at :: "'v rapidjson \<Rightarrow> string list \<Rightarrow> 'v ValueBuilder \<Rightarrow> 'v ValueBuilder result" where
  "create_at R ks b = bind_result (index_all R ks b) (CreateJsonObject R)"

section \<open>What the scalar assignments have in common\<close>

primrec scalar_value :: "'v rapidjson \<Rightarrow> scalar \<Rightarrow> 'v" where
  "scalar_value R (S_string s) = rj_string R (c_str s)"
| "scalar_value R (S_uint u) = rj_uint R u"
| "scalar_value R (S_int i) = rj_int R i"
| "scalar_value R (S_double x) = rj_double R x"
| "scalar_value R (S_float f) = rj_float R f"
| "scalar_value R (S_bool t) = rj_bool R t"
| "scalar_value R (S_cstr s) = rj_string R (c_str s)"

text \<open>The types of an existing member that accept the scalar.\<close>

primrec scalar_types :: "scalar \<Rightarrow> JsonValueType set" where
  "scalar_types (S_string s) = {kStringType}"
| "scalar_types (S_uint u) = {kNumberType}"
| "scalar_types (S_int i) = {kNumberType}"
| "scalar_types (S_double x) = {kNumberType}"
| "scalar_types (S_float f) = {kNumberType}"
| "scalar_types (S_bool t) = {kFalseType, kTrueType}"
| "scalar_types (S_cstr s) = {kStringType}"

lemmas assign_defs = assign_string_def assign_uint_def assign_int_def assign_double_def
  assign_float_def assign_bool_def assign_cstr_def

lemma assign_eq_scalar:
  obtains retype where "assign R v = assign_scalar R (insert kUnknown (scalar_types v)) retype (scalar_value R v)"
  by (cases v) (auto simp: assign_defs)

lemma kUnknown_not_scalar_type: "kUnknown \<notin> scalar_types v"
  by (cases v) auto

lemma json_value_type_scalar:
  "rapidjson_laws R \<Longrightarrow> json_value_type (rj_type R (scalar_value R v)) \<in> scalar_types v"
  by (cases v) (auto simp: rapidjson_laws.type_simps json_value_type_def)

lemma json_value_type_known:
  "rapidjson_laws R \<Longrightarrow> json_value_type (rj_type R x) \<noteq> kUnknown"
  using rapidjson_laws.type_range [of R x] by (auto simp: json_value_type_def)

end
