(* ===== verification/Json_Builder_Spec.thy ===== *)
theory Json_Builder_Spec
  imports Json_Builder
begin

text \<open>
  Correctness of \<open>ValueBuilder\<close> over any RapidJSON with the documented laws: the invariant that
  keeps its pointers valid, which operations can fail and when, and what a chained assignment
  \<open>json[k1]...[kn] = v\<close> does to the document, below and beside the position it names.
\<close>

section \<open>The invariant\<close>

text \<open>The pointer of every chain node is the path of the keys up to it.\<close>

definition chained :: "JsonBuilderNode list \<Rightarrow> bool" where
  "chained ns = (\<forall>i < length ns. snd (ns ! i) = map (c_str \<circ> fst) (take (Suc i) ns))"

definition builder_ok :: "'v rapidjson \<Rightarrow> 'v ValueBuilder \<Rightarrow> bool" where
  "builder_ok R b =
     ((\<exists>p. current_value b = Some p \<and> live R (document b) p) \<and>
      chained (value_nodes b) \<and>
      (value_nodes b \<noteq> [] \<longrightarrow> current_value b = Some (GetNodeValue b)) \<and>
      (is_empty b \<longrightarrow> value_nodes b = [] \<and> document b = rj_object R \<and> current_value b = Some []))"

lemma chained_Nil [simp]: "chained []"
  by (simp add: chained_def)

lemma chained_snoc: "chained (ns @ [(k, p)]) \<longleftrightarrow> chained ns \<and> p = map (c_str \<circ> fst) ns @ [c_str k]"
  by (auto simp: chained_def nth_append less_Suc_eq)

lemma chained_last: "chained ns \<Longrightarrow> ns \<noteq> [] \<Longrightarrow> snd (last ns) = map (c_str \<circ> fst) ns"
  by (auto simp: chained_def last_conv_nth)

lemma GetNodeValue_chained: "chained (value_nodes b) \<Longrightarrow> GetNodeValue b = map (c_str \<circ> fst) (value_nodes b)"
  by (simp add: GetNodeValue_def chained_last)

lemma ensure_object_sel [simp]:
  "current_value (ensure_object R b) = current_value b"
  "current_type (ensure_object R b) = current_type b"
  "value_nodes (ensure_object R b) = value_nodes b"
  "cerr (ensure_object R b) = cerr b"
  "\<not> is_empty (ensure_object R b)"
  "GetNodeValue (ensure_object R b) = GetNodeValue b"
  by (simp_all add: ensure_object_def GetNodeValue_def)

lemma ensure_object_document: "builder_ok R b \<Longrightarrow> document (ensure_object R b) = document b"
  by (simp add: ensure_object_def builder_ok_def)

lemma builder_ok_make: "builder_ok R (make_ValueBuilder R)"
  by (simp add: builder_ok_def make_ValueBuilder_def)

lemma builder_ok_copy: "builder_ok R b \<Longrightarrow> builder_ok R (copy_ValueBuilder b)"
  by (simp add: builder_ok_def copy_ValueBuilder_def)

lemma builder_ok_node_live: "builder_ok R b \<Longrightarrow> live R (document b) (GetNodeValue b)"
  by (cases "value_nodes b = []") (auto simp: builder_ok_def GetNodeValue_def)

text \<open>All pointers the chain retains lie at or above the node that the next \<open>[]\<close> extends.\<close>

lemma retained_pointers:
  assumes "builder_ok R b" and "(k, p) \<in> set (value_nodes b)"
  shows "\<exists>s. GetNodeValue b = p @ s" and "live R (document b) p"
proof -
  from assms(2) obtain i where i: "i < length (value_nodes b)" "value_nodes b ! i = (k, p)"
    by (auto simp: in_set_conv_nth)
  from assms(1) have ch: "chained (value_nodes b)" by (simp add: builder_ok_def)
  with i have p: "p = map (c_str \<circ> fst) (take (Suc i) (value_nodes b))"
    unfolding chained_def by (metis snd_conv)
  have "GetNodeValue b = p @ map (c_str \<circ> fst) (drop (Suc i) (value_nodes b))"
    unfolding GetNodeValue_chained [OF ch] p by (metis append_take_drop_id map_append)
  then show "\<exists>s. GetNodeValue b = p @ s" by blast
  with builder_ok_node_live [OF assms(1)] show "live R (document b) p" by (auto dest: live_prefix)
qed

text \<open>
  The object at the end of \<open>ks\<close>; the member \<open>k\<close> of it, if present, has a type the value may
  replace.
\<close>

definition assignable :: "'v rapidjson \<Rightarrow> path \<Rightarrow> string \<Rightarrow> JsonValueType set \<Rightarrow> 'v \<Rightarrow> bool" where
  "assignable R P k types d =
     (\<exists>nv. deref R P d = Inr nv \<and> is_object R nv \<and>
        (rj_has_member R nv k \<longrightarrow> json_value_type (rj_type R (rj_member R nv k)) \<in> types))"

context rapidjson_laws
begin

section \<open>One \<open>[]\<close>\<close>

lemma index_builder_reject:
  assumes "builder_ok R b" and "deref R (GetNodeValue b) (document b) = Inr nv" and "\<not> is_object R nv"
  shows "index_builder R key b = Inl (Rapidjson_assert ''IsObject()'')"
  using assms by (simp add: index_builder_def Let_def ensure_object_document has_member_def)

lemma index_builder_hit:
  assumes "builder_ok R b" and "deref R (GetNodeValue b) (document b) = Inr nv" and "is_object R nv"
    and "rj_has_member R nv (c_str key)"
  shows "index_builder R key b = Inr ((ensure_object R b)
    \<lparr>current_value := Some (GetNodeValue b @ [c_str key]),
     current_type := json_value_type (rj_type R (rj_member R nv (c_str key))),
     value_nodes := value_nodes b @ [(key, GetNodeValue b @ [c_str key])]\<rparr>)"
  using assms by (simp add: index_builder_def Let_def ensure_object_document has_member_def)

lemma index_builder_new:
  assumes "builder_ok R b" and "deref R (GetNodeValue b) (document b) = Inr nv" and "is_object R nv"
    and "\<not> rj_has_member R nv (c_str key)"
    and "store R (rj_add_member R (c_str key) (rj_null R) nv) (GetNodeValue b) (document b) = Inr d"
  shows "index_builder R key b = Inr ((ensure_object R b)
    \<lparr>document := d, current_value := Some (GetNodeValue b @ [c_str key]), current_type := kUnknown,
     value_nodes := value_nodes b @ [(key, GetNodeValue b @ [c_str key])]\<rparr>)"
  using assms by (simp add: index_builder_def Let_def ensure_object_document has_member_def)

lemma index_builder_cases:
  assumes ok: "builder_ok R b"
  obtains nv where "deref R (GetNodeValue b) (document b) = Inr nv" and "\<not> is_object R nv"
      and "index_builder R key b = Inl (Rapidjson_assert ''IsObject()'')"
  | nv d t where "deref R (GetNodeValue b) (document b) = Inr nv" and "is_object R nv"
      and "index_builder R key b = Inr ((ensure_object R b)
        \<lparr>document := d, current_value := Some (GetNodeValue b @ [c_str key]), current_type := t,
         value_nodes := value_nodes b @ [(key, GetNodeValue b @ [c_str key])]\<rparr>)"
      and "live R d (GetNodeValue b @ [c_str key])"
proof -
  from builder_ok_node_live [OF ok] obtain nv where nv: "deref R (GetNodeValue b) (document b) = Inr nv"
    by (auto simp: live_def)
  show thesis
  proof (cases "is_object R nv")
    case False
    with nv index_builder_reject [OF ok nv] show thesis by (rule_tac that(1))
  next
    case True
    show thesis
    proof (cases "rj_has_member R nv (c_str key)")
      case hit: True
      from index_builder_hit [OF ok nv True hit]
      have "index_builder R key b = Inr ((ensure_object R b)
        \<lparr>document := document b, current_value := Some (GetNodeValue b @ [c_str key]),
         current_type := json_value_type (rj_type R (rj_member R nv (c_str key))),
         value_nodes := value_nodes b @ [(key, GetNodeValue b @ [c_str key])]\<rparr>)"
        by (simp add: ensure_object_document [OF ok, symmetric])
      moreover have "live R (document b) (GetNodeValue b @ [c_str key])"
        using nv True hit by (simp add: live_append)
      ultimately show thesis using nv True by (rule_tac that(2))
    next
      case new: False
      let ?o = "rj_add_member R (c_str key) (rj_null R) nv"
      from store_live [OF builder_ok_node_live [OF ok]]
      obtain d where d: "store R ?o (GetNodeValue b) (document b) = Inr d" by blast
      have "live R d (GetNodeValue b @ [c_str key])"
        using deref_store_same [OF d] True by (simp add: live_append is_object_def type_add has_add)
      with index_builder_new [OF ok nv True new d] nv True show thesis by (rule_tac that(2))
    qed
  qed
qed

lemma index_builder_ok: "builder_ok R b \<Longrightarrow> index_builder R key b = Inr b' \<Longrightarrow> builder_ok R b'"
proof -
  assume ok: "builder_ok R b" and eq: "index_builder R key b = Inr b'"
  from ok show "builder_ok R b'"
  proof (cases rule: index_builder_cases [where key = key])
    case (2 nv d t)
    from ok have ch: "chained (value_nodes b)" by (simp add: builder_ok_def)
    from 2(3) eq have b': "b' = (ensure_object R b)
        \<lparr>document := d, current_value := Some (GetNodeValue b @ [c_str key]), current_type := t,
         value_nodes := value_nodes b @ [(key, GetNodeValue b @ [c_str key])]\<rparr>" by simp
    show ?thesis
      using 2(4) ch by (simp add: b' builder_ok_def chained_snoc GetNodeValue_chained)
  qed (use eq in simp)
qed

lemma GetNodeValue_index:
  "builder_ok R b \<Longrightarrow> index_builder R key b = Inr b' \<Longrightarrow> GetNodeValue b' = GetNodeValue b @ [c_str key]"
  by (erule index_builder_cases [where key = key]) (auto simp: GetNodeValue_def)

section \<open>The assignments\<close>

lemma assign_scalar_eq:
  assumes ok: "builder_ok R b" and cur: "current_value b = Some p"
  shows "(current_type b \<in> A \<and> (\<exists>d. store R x p (document b) = Inr d \<and>
        assign_scalar R A rt x b = Inr ((ensure_object R b)\<lparr>document := d,
          current_type := (case rt of None \<Rightarrow> current_type b | Some t \<Rightarrow> t), value_nodes := []\<rparr>))) \<or>
     (current_type b \<notin> A \<and> assign_scalar R A rt x b =
        Inr ((ensure_object R b)\<lparr>cerr := cerr b @ [type_message], value_nodes := []\<rparr>))"
proof -
  from ok cur have "live R (document b) p" by (auto simp: builder_ok_def)
  from store_live [OF this] obtain d where "store R x p (document b) = Inr d" by blast
  with cur show ?thesis
    by (simp add: assign_scalar_def Let_def ensure_object_document [OF ok] split: option.split)
qed

lemma assign_ok: "builder_ok R b \<Longrightarrow> \<exists>b'. assign R v b = Inr b' \<and> builder_ok R b'"
proof -
  assume ok: "builder_ok R b"
  then obtain p where cur: "current_value b = Some p" by (auto simp: builder_ok_def)
  obtain rt where rt: "assign R v = assign_scalar R (insert kUnknown (scalar_types v)) rt (scalar_value R v)"
    by (rule assign_eq_scalar)
  from assign_scalar_eq [OF ok cur, of "insert kUnknown (scalar_types v)" "scalar_value R v" rt]
  show "\<exists>b'. assign R v b = Inr b' \<and> builder_ok R b'"
  proof (elim disjE conjE exE)
    fix d assume d: "store R (scalar_value R v) p (document b) = Inr d"
      and eq: "assign_scalar R (insert kUnknown (scalar_types v)) rt (scalar_value R v) b =
        Inr ((ensure_object R b)\<lparr>document := d,
          current_type := (case rt of None \<Rightarrow> current_type b | Some t \<Rightarrow> t), value_nodes := []\<rparr>)"
    from deref_store_same [OF d] have "live R d p" by (simp add: live_def)
    with eq cur show ?thesis unfolding rt by (auto simp: builder_ok_def)
  next
    assume eq: "assign_scalar R (insert kUnknown (scalar_types v)) rt (scalar_value R v) b =
        Inr ((ensure_object R b)\<lparr>cerr := cerr b @ [type_message], value_nodes := []\<rparr>)"
    with ok cur show ?thesis
      unfolding rt by (auto simp: builder_ok_def ensure_object_document [OF ok])
  qed
qed

lemma CreateJsonObject_ok: "builder_ok R b \<Longrightarrow> \<exists>b'. CreateJsonObject R b = Inr b' \<and> builder_ok R b'"
proof -
  assume ok: "builder_ok R b"
  then obtain p where cur: "current_value b = Some p" and lv: "live R (document b) p"
    by (auto simp: builder_ok_def)
  from store_live [OF lv] obtain d where d: "store R (rj_object R) p (document b) = Inr d" by blast
  from deref_store_same [OF d] have "live R d p" by (simp add: live_def)
  with ok cur d show ?thesis
    by (cases "current_type b = kUnknown") (auto simp: CreateJsonObject_def builder_ok_def)
qed

lemma assign_builder_ok:
  "builder_ok R b \<Longrightarrow> \<exists>b'. assign_builder R self other b = Inr b' \<and> builder_ok R b'"
proof -
  assume ok: "builder_ok R b"
  from store_live [OF builder_ok_node_live [OF ok]]
  obtain d where d: "store R (document other) (GetNodeValue b) (document b) = Inr d" by blast
  from deref_store_same [OF d] have "live R d (GetNodeValue b)" by (simp add: live_def)
  moreover from ok have "chained (value_nodes b)" by (simp add: builder_ok_def)
  ultimately show ?thesis
    using ok d
    by (auto simp: assign_builder_def Let_def ensure_object_document [OF ok] builder_ok_def
        GetNodeValue_def split: if_splits)
qed

lemma run_op_result:
  assumes ok: "builder_ok R b"
  shows "(\<exists>b'. run_op R op b = Inr b' \<and> builder_ok R b') \<or>
    (\<exists>key nv. op = Op_index key \<and> deref R (GetNodeValue b) (document b) = Inr nv \<and>
       \<not> is_object R nv \<and> run_op R op b = Inl (Rapidjson_assert ''IsObject()''))"
proof (cases op)
  case (Op_index key)
  from ok show ?thesis
    by (cases rule: index_builder_cases [where key = key])
      (use Op_index index_builder_ok [OF ok] in auto)
next
  case Op_create
  with CreateJsonObject_ok [OF ok] show ?thesis by simp
next
  case (Op_assign v)
  with assign_ok [OF ok] show ?thesis by simp
next
  case (Op_copy_from other)
  with assign_builder_ok [OF ok] show ?thesis by simp
qed

lemma run_op_ok: "run_op R op b = Inr b' \<Longrightarrow> builder_ok R b \<Longrightarrow> builder_ok R b'"
  using run_op_result [of b op] by auto

lemma run_ops_ok: "run_ops R ops b = Inr b' \<Longrightarrow> builder_ok R b \<Longrightarrow> builder_ok R b'"
  unfolding run_ops_def
  by (erule for_result_invariant [where P = "builder_ok R"]) (auto intro: run_op_ok)

lemma run_ops_error:
  assumes "run_ops R ops b = Inl e" and "builder_ok R b"
  shows "e = Rapidjson_assert ''IsObject()''"
  using assms
proof (induction ops arbitrary: b)
  case (Cons op ops)
  from run_op_result [OF Cons.prems(2), of op] Cons show ?case
    by (auto simp: run_ops_def)
qed (simp add: run_ops_def)

section \<open>Chains of \<open>[]\<close>\<close>

text \<open>Along members that exist, a chain only moves the pointers.\<close>

lemma index_all_navigates:
  assumes "builder_ok R b" and "live R (document b) (GetNodeValue b @ map c_str ks)"
  shows "\<exists>b'. index_all R ks b = Inr b' \<and> builder_ok R b' \<and> document b' = document b \<and>
    GetNodeValue b' = GetNodeValue b @ map c_str ks \<and> cerr b' = cerr b"
  using assms
proof (induction ks arbitrary: b)
  case Nil
  then show ?case by (simp add: index_all_def)
next
  case (Cons k ks)
  note ok = Cons.prems(1)
  from Cons.prems(2) obtain nv where nv: "deref R (GetNodeValue b) (document b) = Inr nv"
    and obj: "is_object R nv" "rj_has_member R nv (c_str k)"
    by (auto simp: live_append)
  from index_builder_hit [OF ok nv obj] obtain b1 where b1: "index_builder R k b = Inr b1"
    "document b1 = document b" "cerr b1 = cerr b"
    by (auto simp: ensure_object_document [OF ok])
  note ok1 = index_builder_ok [OF ok b1(1)] and node1 = GetNodeValue_index [OF ok b1(1)]
  from Cons.prems(2) b1 node1 have "live R (document b1) (GetNodeValue b1 @ map c_str ks)" by simp
  from Cons.IH [OF ok1 this] b1 node1 show ?case by (auto simp: index_all_def)
qed

lemma index_all_snoc: "index_all R (ks @ [k]) b = bind_result (index_all R ks b) (index_builder R k)"
  by (simp add: index_all_def for_result_append bind_result_def split: sum.splits)

lemma diverges_snoc: "diverges (P @ [k]) q \<longleftrightarrow> diverges P q \<or> (\<exists>j q'. q = P @ j # q' \<and> j \<noteq> k)"
proof (induction P arbitrary: q)
  case Nil
  then show ?case by (cases q) auto
next
  case (Cons a P)
  then show ?case by (cases q) auto
qed

text \<open>After the chain the last member exists, is assignable, and nothing beside it has changed.\<close>

lemma index_all_leaf:
  assumes ok: "builder_ok R b" and fresh: "value_nodes b = []"
    and asg: "assignable R (map c_str ks) (c_str k) types (document b)"
  shows "\<exists>b'. index_all R (ks @ [k]) b = Inr b' \<and> builder_ok R b' \<and>
    current_value b' = Some (map c_str (ks @ [k])) \<and> current_type b' \<in> insert kUnknown types \<and>
    cerr b' = cerr b \<and>
    (\<forall>q. diverges (map c_str (ks @ [k])) q \<longrightarrow> deref R q (document b') = deref R q (document b))"
proof -
  have node: "GetNodeValue b = []" using fresh by (simp add: GetNodeValue_def)
  from asg obtain nv where nv: "deref R (map c_str ks) (document b) = Inr nv" "is_object R nv"
    and ty: "rj_has_member R nv (c_str k) \<Longrightarrow> json_value_type (rj_type R (rj_member R nv (c_str k))) \<in> types"
    by (auto simp: assignable_def)
  have "live R (document b) (GetNodeValue b @ map c_str ks)" using nv node by (simp add: live_def)
  from index_all_navigates [OF ok this] node obtain b1 where b1: "index_all R ks b = Inr b1"
    "builder_ok R b1" "document b1 = document b" "GetNodeValue b1 = map c_str ks" "cerr b1 = cerr b"
    by auto
  then have nv1: "deref R (GetNodeValue b1) (document b1) = Inr nv" using nv by simp
  show ?thesis
  proof (cases "rj_has_member R nv (c_str k)")
    case True
    note hit = index_builder_hit [OF b1(2) nv1 nv(2) True]
    from index_builder_ok [OF b1(2) hit] hit b1 ty [OF True] show ?thesis
      by (simp add: index_all_snoc ensure_object_document [OF b1(2)])
  next
    case False
    let ?o = "rj_add_member R (c_str k) (rj_null R) nv"
    from store_live [OF builder_ok_node_live [OF b1(2)]]
    obtain d where d: "store R ?o (GetNodeValue b1) (document b1) = Inr d" by blast
    note new = index_builder_new [OF b1(2) nv1 nv(2) False d]
    have frame: "deref R q d = deref R q (document b)" if "diverges (map c_str ks @ [c_str k]) q" for q
      using that unfolding diverges_snoc
    proof (elim disjE exE conjE)
      assume "diverges (map c_str ks) q"
      then show ?thesis using deref_store_other [OF d] b1 by simp
    next
      fix j q' assume q: "q = map c_str ks @ j # q'" "j \<noteq> c_str k"
      have "deref R q d = deref R (j # q') ?o"
        using deref_store_below [OF d, of "j # q'"] q b1 by simp
      also have "\<dots> = deref R (j # q') nv"
        by (rule deref_add_other) (use nv(2) False q in \<open>auto simp: is_object_def\<close>)
      also have "\<dots> = deref R q (document b)" using nv q by (simp add: deref_append del: deref.simps)
      finally show ?thesis .
    qed
    from index_builder_ok [OF b1(2) new] new b1 frame show ?thesis by (simp add: index_all_snoc)
  qed
qed

lemma assign_at_writes:
  assumes ok: "builder_ok R b" and fresh: "value_nodes b = []"
    and asg: "assignable R (map c_str ks) (c_str k) (scalar_types v) (document b)"
  shows "\<exists>b'. assign_at R (ks @ [k]) v b = Inr b' \<and> builder_ok R b' \<and> value_nodes b' = [] \<and>
    cerr b' = cerr b \<and> deref R (map c_str (ks @ [k])) (document b') = Inr (scalar_value R v) \<and>
    (\<forall>q. diverges (map c_str (ks @ [k])) q \<longrightarrow> deref R q (document b') = deref R q (document b))"
proof -
  from index_all_leaf [OF assms] obtain b1 where b1: "index_all R (ks @ [k]) b = Inr b1"
    "builder_ok R b1" "current_value b1 = Some (map c_str (ks @ [k]))"
    "current_type b1 \<in> insert kUnknown (scalar_types v)" "cerr b1 = cerr b"
    "\<forall>q. diverges (map c_str (ks @ [k])) q \<longrightarrow> deref R q (document b1) = deref R q (document b)"
    by blast
  obtain rt where rt: "assign R v = assign_scalar R (insert kUnknown (scalar_types v)) rt (scalar_value R v)"
    by (rule assign_eq_scalar)
  from assign_scalar_eq [OF b1(2,3), of "insert kUnknown (scalar_types v)" "scalar_value R v" rt] b1(4)
  obtain d where d: "store R (scalar_value R v) (map c_str (ks @ [k])) (document b1) = Inr d"
    and eq: "assign R v b1 = Inr ((ensure_object R b1)\<lparr>document := d,
      current_type := (case rt of None \<Rightarrow> current_type b1 | Some t \<Rightarrow> t), value_nodes := []\<rparr>)"
    unfolding rt by blast
  from assign_ok [OF b1(2), of v] eq show ?thesis
    using b1 deref_store_same [OF d] deref_store_other [OF d] by (simp add: assign_at_def)
qed

lemma assign_at_rejects:
  assumes ok: "builder_ok R b" and fresh: "value_nodes b = []"
    and nv: "deref R (map c_str ks) (document b) = Inr nv" "is_object R nv" "rj_has_member R nv (c_str k)"
    and ty: "json_value_type (rj_type R (rj_member R nv (c_str k))) \<notin> scalar_types v"
  shows "\<exists>b'. assign_at R (ks @ [k]) v b = Inr b' \<and> document b' = document b \<and> value_nodes b' = [] \<and>
    cerr b' = cerr b @ [type_message]"
proof -
  have node: "GetNodeValue b = []" using fresh by (simp add: GetNodeValue_def)
  have "live R (document b) (GetNodeValue b @ map c_str ks)" using nv node by (simp add: live_def)
  from index_all_navigates [OF ok this] node obtain b1 where b1: "index_all R ks b = Inr b1"
    "builder_ok R b1" "document b1 = document b" "GetNodeValue b1 = map c_str ks" "cerr b1 = cerr b"
    by auto
  then have nv1: "deref R (GetNodeValue b1) (document b1) = Inr nv" using nv by simp
  note hit = index_builder_hit [OF b1(2) nv1 nv(2,3)]
  define b2 where "b2 = (ensure_object R b1)
    \<lparr>current_value := Some (GetNodeValue b1 @ [c_str k]),
     current_type := json_value_type (rj_type R (rj_member R nv (c_str k))),
     value_nodes := value_nodes b1 @ [(k, GetNodeValue b1 @ [c_str k])]\<rparr>"
  from hit have ix: "index_builder R k b1 = Inr b2" by (simp add: b2_def)
  note ok2 = index_builder_ok [OF b1(2) ix]
  have t2: "current_type b2 \<notin> insert kUnknown (scalar_types v)"
    using ty json_value_type_known [OF rapidjson_laws_axioms] by (simp add: b2_def)
  have c2: "current_value b2 = Some (GetNodeValue b1 @ [c_str k])" by (simp add: b2_def)
  have d2: "document b2 = document b" "cerr b2 = cerr b"
    using b1 by (simp_all add: b2_def ensure_object_document [OF b1(2)])
  obtain rt where rt: "assign R v = assign_scalar R (insert kUnknown (scalar_types v)) rt (scalar_value R v)"
    by (rule assign_eq_scalar)
  from assign_scalar_eq [OF ok2 c2, of "insert kUnknown (scalar_types v)" "scalar_value R v" rt] t2
  have "assign R v b2 = Inr ((ensure_object R b2)\<lparr>cerr := cerr b2 @ [type_message], value_nodes := []\<rparr>)"
    unfolding rt by blast
  with b1(1) ix d2 show ?thesis
    by (simp add: assign_at_def index_all_snoc ensure_object_document [OF ok2])
qed

text \<open>\<open>json[k1]...[kn].CreateJsonObject()\<close>\<close>

lemma CreateJsonObject_known:
  "current_value b = Some p \<Longrightarrow> current_type b \<noteq> kUnknown \<Longrightarrow>
     CreateJsonObject R b = Inr (b\<lparr>cerr := cerr b @ [type_message], value_nodes := []\<rparr>)"
  by (simp add: CreateJsonObject_def)

lemma create_at_writes:
  assumes ok: "builder_ok R b" and fresh: "value_nodes b = []"
    and asg: "assignable R (map c_str ks) (c_str k) {} (document b)"
  shows "\<exists>b'. create_at R (ks @ [k]) b = Inr b' \<and> builder_ok R b' \<and> value_nodes b' = [] \<and>
    cerr b' = cerr b \<and> deref R (map c_str (ks @ [k])) (document b') = Inr (rj_object R) \<and>
    (\<forall>q. diverges (map c_str (ks @ [k])) q \<longrightarrow> deref R q (document b') = deref R q (document b))"
proof -
  from index_all_leaf [OF assms] obtain b1 where b1: "index_all R (ks @ [k]) b = Inr b1"
    "builder_ok R b1" "current_value b1 = Some (map c_str (ks @ [k]))" "current_type b1 = kUnknown"
    "cerr b1 = cerr b"
    "\<forall>q. diverges (map c_str (ks @ [k])) q \<longrightarrow> deref R q (document b1) = deref R q (document b)"
    by auto
  from b1(2,3) have "live R (document b1) (map c_str (ks @ [k]))" by (auto simp: builder_ok_def)
  from store_live [OF this] obtain d
    where d: "store R (rj_object R) (map c_str (ks @ [k])) (document b1) = Inr d" by blast
  with b1(3,4) have eq: "CreateJsonObject R b1 =
      Inr (b1\<lparr>document := d, current_type := kObjectType, value_nodes := []\<rparr>)"
    by (simp add: CreateJsonObject_def)
  from CreateJsonObject_ok [OF b1(2)] eq show ?thesis
    using b1 deref_store_same [OF d] deref_store_other [OF d] by (simp add: create_at_def)
qed

lemma create_at_keeps:
  assumes ok: "builder_ok R b" and fresh: "value_nodes b = []"
    and nv: "deref R (map c_str ks) (document b) = Inr nv" "is_object R nv" "rj_has_member R nv (c_str k)"
  shows "\<exists>b'. create_at R (ks @ [k]) b = Inr b' \<and> document b' = document b \<and> value_nodes b' = [] \<and>
    cerr b' = cerr b @ [type_message]"
proof -
  have node: "GetNodeValue b = []" using fresh by (simp add: GetNodeValue_def)
  have "live R (document b) (GetNodeValue b @ map c_str ks)" using nv node by (simp add: live_def)
  from index_all_navigates [OF ok this] node obtain b1 where b1: "index_all R ks b = Inr b1"
    "builder_ok R b1" "document b1 = document b" "GetNodeValue b1 = map c_str ks" "cerr b1 = cerr b"
    by auto
  then have nv1: "deref R (GetNodeValue b1) (document b1) = Inr nv" using nv by simp
  show ?thesis
    using b1 json_value_type_known [OF rapidjson_laws_axioms]
    by (simp add: create_at_def index_all_snoc index_builder_hit [OF b1(2) nv1 nv(2,3)]
        CreateJsonObject_known ensure_object_document [OF b1(2)])
qed

end

section \<open>A builder for the examples\<close>

text \<open>The document model with a text for \<open>double\<close> values that is not used.\<close>

definition plain_json :: "dom rapidjson" where
  "plain_json = dom_api (\<lambda>x. ''?'') (\<lambda>x. 0)"

lemma plain_json_laws: "rapidjson_laws plain_json"
  unfolding plain_json_def by (rule dom.rapidjson_laws_axioms)

lemmas plain_json_sel = plain_json_def dom_api_def members_of_def elements_of_def is_object_def has_member_def

lemmas builder_eval = plain_json_sel index_all_def index_builder_def assign_builder_def ensure_object_def
  GetNodeValue_def make_ValueBuilder_def copy_ValueBuilder_def Let_def c_str_def json_value_type_def

definition json_text :: "dom ValueBuilder result \<Rightarrow> string result" where
  "json_text r = bind_result r (\<lambda>b. bind_result (SerializeToBytes plain_json b) (\<lambda>buf. Inr (ToString buf)))"

text \<open>A program of statements on a fresh builder: \<open>None\<close> stands for \<open>CreateJsonObject\<close>.\<close>

definition run_statements :: "(string list \<times> scalar option) list \<Rightarrow> dom ValueBuilder result" where
  "run_statements sts = for_result (\<lambda>(ks, st) b. case st of None \<Rightarrow> create_at plain_json ks b
     | Some v \<Rightarrow> assign_at plain_json ks v b) sts (make_ValueBuilder plain_json)"

lemmas statement_eval = run_statements_def builder_eval assign_at_def create_at_def CreateJsonObject_def assign_defs assign_scalar_def
  json_text_def SerializeToBytes_def buffer_of_def ToString_def quoted_def escape_char_def comma_sep_def

section \<open>Properties\<close>

text \<open>C5. Whatever operations are performed on a fresh builder, in any order and number, no pointer it
  follows dangles: the invariant holds of every state reached, and the only way an operation can fail
  is RapidJSON's assertion that \<open>[]\<close> is applied to an object.\<close>

theorem builder_run_safe:
  assumes "rapidjson_laws R"
  shows "case run_ops R ops (make_ValueBuilder R) of
      Inr b \<Rightarrow> builder_ok R b
    | Inl e \<Rightarrow> e = Rapidjson_assert ''IsObject()''"
proof (cases "run_ops R ops (make_ValueBuilder R)")
  case (Inl e)
  from rapidjson_laws.run_ops_error [OF assms Inl builder_ok_make] Inl show ?thesis by simp
next
  case (Inr b)
  from rapidjson_laws.run_ops_ok [OF assms Inr builder_ok_make] Inr show ?thesis by simp
qed

theorem builder_run_safe_witness:
  "case run_ops plain_json [Op_index ''a'', Op_assign (S_int 1), Op_index ''a'', Op_index ''b''] (make_ValueBuilder plain_json) of
      Inr b \<Rightarrow> builder_ok plain_json b
    | Inl e \<Rightarrow> e = Rapidjson_assert ''IsObject()''"
  by (rule builder_run_safe) (rule plain_json_laws)

text \<open>The statement \<open>json[k1]...[kn] = v\<close>, begun with an empty chain, on an existing object at
  \<open>k1...\<close> whose member \<open>kn\<close> is absent or of the value's type: it returns, the value is at its place,
  every position beside the path is untouched, nothing is reported, and the chain is empty again.\<close>

theorem assign_statement_writes:
  assumes "rapidjson_laws R" and "builder_ok R b" and "value_nodes b = []"
    and "assignable R (map c_str ks) (c_str k) (scalar_types v) (document b)"
  shows "\<exists>b'. assign_at R (ks @ [k]) v b = Inr b' \<and> builder_ok R b' \<and> value_nodes b' = [] \<and>
    cerr b' = cerr b \<and> deref R (map c_str (ks @ [k])) (document b') = Inr (scalar_value R v) \<and>
    (\<forall>q. diverges (map c_str (ks @ [k])) q \<longrightarrow> deref R q (document b') = deref R q (document b))"
  using assms by (rule rapidjson_laws.assign_at_writes)

theorem assign_statement_writes_witness:
  "\<exists>b'. assign_at plain_json ([] @ [''n'']) (S_int 7) (make_ValueBuilder plain_json) = Inr b' \<and>
    builder_ok plain_json b' \<and> value_nodes b' = [] \<and> cerr b' = cerr (make_ValueBuilder plain_json) \<and>
    deref plain_json (map c_str ([] @ [''n''])) (document b') = Inr (scalar_value plain_json (S_int 7)) \<and>
    (\<forall>q. diverges (map c_str ([] @ [''n''])) q \<longrightarrow>
       deref plain_json q (document b') = deref plain_json q (document (make_ValueBuilder plain_json)))"
proof (rule assign_statement_writes [OF plain_json_laws builder_ok_make])
  show "value_nodes (make_ValueBuilder plain_json) = []" by (simp add: make_ValueBuilder_def)
  show "assignable plain_json (map c_str []) (c_str ''n'') (scalar_types (S_int 7)) (document (make_ValueBuilder plain_json))"
    by (simp add: assignable_def make_ValueBuilder_def plain_json_def dom_api_def members_of_def is_object_def)
qed

text \<open>The type of a member never changes: when the member exists and has a type the value does not
  fit, the statement leaves the document as it is and reports it. A null member fits no value, so it
  can never be assigned.\<close>

theorem assign_statement_rejects:
  assumes "rapidjson_laws R" and "builder_ok R b" and "value_nodes b = []"
    and "deref R (map c_str ks) (document b) = Inr nv" and "is_object R nv" and "rj_has_member R nv (c_str k)"
    and "json_value_type (rj_type R (rj_member R nv (c_str k))) \<notin> scalar_types v"
  shows "\<exists>b'. assign_at R (ks @ [k]) v b = Inr b' \<and> document b' = document b \<and> value_nodes b' = [] \<and>
    cerr b' = cerr b @ [type_message]"
  using assms by (rule rapidjson_laws.assign_at_rejects)

theorem assign_statement_rejects_witness:
  "\<exists>b'. assign_at plain_json ([] @ [''n'']) (S_bool True)
      ((make_ValueBuilder plain_json)\<lparr>document := DObject [(''n'', DNull)], is_empty := False\<rparr>) = Inr b' \<and>
    document b' = document ((make_ValueBuilder plain_json)\<lparr>document := DObject [(''n'', DNull)], is_empty := False\<rparr>) \<and>
    value_nodes b' = [] \<and>
    cerr b' = cerr ((make_ValueBuilder plain_json)\<lparr>document := DObject [(''n'', DNull)], is_empty := False\<rparr>) @ [type_message]"
proof (rule assign_statement_rejects [OF plain_json_laws])
  let ?b = "(make_ValueBuilder plain_json)\<lparr>document := DObject [(''n'', DNull)], is_empty := False\<rparr>"
  show "builder_ok plain_json ?b" by (simp add: builder_ok_def make_ValueBuilder_def)
  show "value_nodes ?b = []" by (simp add: make_ValueBuilder_def)
  show "deref plain_json (map c_str []) (document ?b) = Inr (DObject [(''n'', DNull)])" by simp
qed (simp_all add: plain_json_def dom_api_def members_of_def is_object_def json_value_type_def)

text \<open>The statement \<open>json[k1]...[kn].CreateJsonObject()\<close> puts an empty object at a free place and
  leaves everything beside it, and on an existing member of any type, objects included, it changes
  nothing but reports it.\<close>

theorem create_statement:
  assumes "rapidjson_laws R" and "builder_ok R b" and "value_nodes b = []"
    and "deref R (map c_str ks) (document b) = Inr nv" and "is_object R nv"
  shows "\<exists>b'. create_at R (ks @ [k]) b = Inr b' \<and> value_nodes b' = [] \<and>
    (if rj_has_member R nv (c_str k)
     then document b' = document b \<and> cerr b' = cerr b @ [type_message]
     else cerr b' = cerr b \<and> deref R (map c_str (ks @ [k])) (document b') = Inr (rj_object R) \<and>
       (\<forall>q. diverges (map c_str (ks @ [k])) q \<longrightarrow> deref R q (document b') = deref R q (document b)))"
proof (cases "rj_has_member R nv (c_str k)")
  case True
  with rapidjson_laws.create_at_keeps [OF assms True] show ?thesis by auto
next
  case False
  with assms(4,5) have "assignable R (map c_str ks) (c_str k) {} (document b)" by (simp add: assignable_def)
  from rapidjson_laws.create_at_writes [OF assms(1-3) this] False show ?thesis by auto
qed

theorem create_statement_witness:
  "\<exists>b'. create_at plain_json ([] @ [''o'']) (make_ValueBuilder plain_json) = Inr b' \<and> value_nodes b' = [] \<and>
    (if rj_has_member plain_json (DObject []) (c_str ''o'')
     then document b' = document (make_ValueBuilder plain_json) \<and> cerr b' = cerr (make_ValueBuilder plain_json) @ [type_message]
     else cerr b' = cerr (make_ValueBuilder plain_json) \<and>
       deref plain_json (map c_str ([] @ [''o''])) (document b') = Inr (rj_object plain_json) \<and>
       (\<forall>q. diverges (map c_str ([] @ [''o''])) q \<longrightarrow>
          deref plain_json q (document b') = deref plain_json q (document (make_ValueBuilder plain_json))))"
  by (rule create_statement [OF plain_json_laws builder_ok_make])
    (simp_all add: make_ValueBuilder_def plain_json_def dom_api_def is_object_def)

text \<open>Assigning a builder to \<open>json[k1]...[kn]\<close> does not end the chain, although the source says the
  nodes must be cleared on assignment: the next \<open>json[k]\<close> is resolved below \<open>k1...kn\<close>, not at the root.\<close>

theorem copy_assignment_keeps_chain:
  assumes "rapidjson_laws R" and "builder_ok R b" and "value_nodes b = []"
    and "index_all R ks b = Inr b1" and "assign_builder R False other b1 = Inr b2"
    and "index_builder R k b2 = Inr b3"
  shows "current_value b3 = Some (map c_str (ks @ [k]))"
proof -
  have nodes: "GetNodeValue b1 = map c_str ks \<and> builder_ok R b1"
    if "index_all R ks b = Inr b1" "builder_ok R b" "GetNodeValue b = []" for b1
    using that(1)
  proof (induction ks arbitrary: b1 rule: rev_induct)
    case (snoc j js)
    then obtain c where c: "index_all R js b = Inr c" "index_builder R j c = Inr b1"
      using rapidjson_laws.index_all_snoc [OF assms(1)] by (auto simp: result_simps)
    with snoc.IH [OF c(1)] rapidjson_laws.GetNodeValue_index [OF assms(1) _ c(2)]
      rapidjson_laws.index_builder_ok [OF assms(1) _ c(2)] show ?case by simp
  qed (use that in \<open>simp add: index_all_def\<close>)
  have b1: "GetNodeValue b1 = map c_str ks" "builder_ok R b1"
    using nodes [OF assms(4,2)] assms(3) by (simp_all add: GetNodeValue_def)
  have b2: "value_nodes b2 = value_nodes b1" "builder_ok R b2"
    using assms(5) rapidjson_laws.assign_builder_ok [OF assms(1) b1(2), of False other]
    by (auto simp: assign_builder_def Let_def result_simps)
  have "GetNodeValue b3 = map c_str (ks @ [k])" "value_nodes b3 \<noteq> []" "builder_ok R b3"
    using rapidjson_laws.GetNodeValue_index [OF assms(1) b2(2) assms(6)] b1(1) b2(1)
      rapidjson_laws.index_builder_ok [OF assms(1) b2(2) assms(6)] assms(6)
    by (auto simp: GetNodeValue_def index_builder_def Let_def result_simps)
  then show ?thesis by (simp add: builder_ok_def)
qed

theorem copy_assignment_keeps_chain_witness:
  "current_value (\<lparr>document = DObject [(''a'', DObject [(''x'', DBool True), (''b'', DNull)])],
      current_value = Some [''a'', ''b''], is_empty = False, current_type = kUnknown,
      value_nodes = [(''a'', [''a'']), (''b'', [''a'', ''b''])], cerr = []\<rparr>) = Some (map c_str ([''a''] @ [''b'']))"
proof (rule copy_assignment_keeps_chain [OF plain_json_laws builder_ok_make])
  show "value_nodes (make_ValueBuilder plain_json) = []" by (simp add: make_ValueBuilder_def)
  show "index_all plain_json [''a''] (make_ValueBuilder plain_json) =
      Inr \<lparr>document = DObject [(''a'', DNull)], current_value = Some [''a''], is_empty = False,
        current_type = kUnknown, value_nodes = [(''a'', [''a''])], cerr = []\<rparr>"
    by (simp add: builder_eval)
  show "assign_builder plain_json False (copy_ValueBuilder ((make_ValueBuilder plain_json)\<lparr>document := DObject [(''x'', DBool True)]\<rparr>))
      \<lparr>document = DObject [(''a'', DNull)], current_value = Some [''a''], is_empty = False,
        current_type = kUnknown, value_nodes = [(''a'', [''a''])], cerr = []\<rparr> =
      Inr \<lparr>document = DObject [(''a'', DObject [(''x'', DBool True)])], current_value = Some [''a''], is_empty = False,
        current_type = kObjectType, value_nodes = [(''a'', [''a''])], cerr = []\<rparr>"
    by (simp add: builder_eval)
  show "index_builder plain_json ''b''
      \<lparr>document = DObject [(''a'', DObject [(''x'', DBool True)])], current_value = Some [''a''], is_empty = False,
        current_type = kObjectType, value_nodes = [(''a'', [''a''])], cerr = []\<rparr> =
      Inr \<lparr>document = DObject [(''a'', DObject [(''x'', DBool True), (''b'', DNull)])],
        current_value = Some [''a'', ''b''], is_empty = False, current_type = kUnknown,
        value_nodes = [(''a'', [''a'']), (''b'', [''a'', ''b''])], cerr = []\<rparr>"
    by (simp add: builder_eval)
qed

text \<open>What \<open>SerializeToBytes\<close> returns is the whole text of the document: \<open>ToString\<close> gives it back,
  and \<open>SendJson\<close> hands exactly it to h2o; when the writer fails, \<open>runtime_error\<close> is thrown.\<close>

theorem serialized_text_is_sent:
  "case rj_write R (document b) of
      None \<Rightarrow> SerializeToBytes R b = Inl (Runtime_error ''Failed to serialize JSON document.'')
    | Some t \<Rightarrow> (\<exists>buf. SerializeToBytes R b = Inr buf \<and> ToString buf = t \<and>
        calls (SendJson api buf code req) = calls req @ [Add_header_content_type ''application/json'',
          case send_inline_throws api t of None \<Rightarrow> Send_inline code ''OK'' t
          | Some what \<Rightarrow> Send_error_503 ''internal server error'' what])"
  by (simp add: SerializeToBytes_def serialize_error_def buffer_of_def ToString_def SendJson_def
      send_inline_try_def Status_def h2o_call_of_def split: option.split)

text \<open>The repository's two JSON test cases, run on the document model: the statements of each test
  give the text the test expects.\<close>

theorem json_builder_tests:
  \<open>json_text (run_statements [([''key1''], Some (S_cstr ''value1'')), ([''key2''], Some (S_cstr ''value2'')),
       ([''key3''], Some (S_cstr ''value3''))]) =
     Inr ''{"key1":"value1","key2":"value2","key3":"value3"}'' \<and>
   json_text (run_statements [([''key0''], Some (S_cstr ''value0'')), ([''object''], None),
       ([''object'', ''key1''], Some (S_cstr ''value1'')), ([''object'', ''key2''], Some (S_cstr ''value2'')),
       ([''object'', ''inner''], None), ([''object'', ''inner'', ''status''], Some (S_int 1)),
       ([''other''], Some (S_bool True))]) =
     Inr ''{"key0":"value0","object":{"key1":"value1","key2":"value2","inner":{"status":1}},"other":true}''\<close>
  by (simp add: statement_eval decimal.simps digit_char_def char_of_eq_iff)

end
