(* ===== verification/Json_Value.thy ===== *)
theory Json_Value
  imports Json_Builder_Spec
begin

text \<open>
  \<open>formats::json::Value\<close> (\<open>src/piconaut/formats/json/value.{h,cc}\<close>): the untyped sibling of
  \<open>ValueBuilder\<close> with vectors, optionals and the reading side \<open>As<T>()\<close>, one function per
  instance of the template. Pointers are paths, as in \<open>Json_Builder\<close>; \<open>operator[]\<close> always
  starts from the document.
\<close>

section \<open>State\<close>

record 'v Value =
  v_document :: 'v
  v_current :: "path option"
  v_empty :: bool

definition make_Value :: "'v rapidjson \<Rightarrow> 'v Value" where
  "make_Value R = \<lparr>v_document = rj_object R, v_current = Some [], v_empty = True\<rparr>"

definition copy_Value :: "'v Value \<Rightarrow> 'v Value" where
  "copy_Value other = \<lparr>v_document = v_document other, v_current = Some [], v_empty = v_empty other\<rparr>"

text \<open>\<open>operator=(const Value&)\<close>; \<open>self\<close> tells that \<open>other\<close> is the object itself.\<close>

definition assign_Value :: "bool \<Rightarrow> 'v Value \<Rightarrow> 'v Value \<Rightarrow> 'v Value" where
  "assign_Value self other v =
     (if self then v
      else v\<lparr>v_document := v_document other, v_current := Some [], v_empty := v_empty other\<rparr>)"

definition v_ensure :: "'v rapidjson \<Rightarrow> 'v Value \<Rightarrow> 'v Value" where
  "v_ensure R v = (if v_empty v then v\<lparr>v_document := rj_object R, v_empty := False\<rparr> else v)"

definition index_Value :: "'v rapidjson \<Rightarrow> string \<Rightarrow> 'v Value \<Rightarrow> 'v Value result" where
  "index_Value R key v =
     (let v1 = v_ensure R v; k = c_str key
      in bind_result (has_member R (v_document v1) k) (\<lambda>found.
           Inr ((if \<not> found then v1\<lparr>v_document := rj_add_member R k (rj_null R) (v_document v1)\<rparr> else v1)
             \<lparr>v_current := Some [k]\<rparr>)))"

section \<open>Assignment\<close>

text \<open>\<open>if (current_value_) *current_value_ = x\<close>, and the same without the test.\<close>

definition put_if_current :: "'v rapidjson \<Rightarrow> 'v \<Rightarrow> 'v Value \<Rightarrow> 'v Value result" where
  "put_if_current R x v =
     (case v_current v of None \<Rightarrow> Inr v
      | Some p \<Rightarrow> bind_result (store R x p (v_document v)) (\<lambda>d. Inr (v\<lparr>v_document := d\<rparr>)))"

definition put_current :: "'v rapidjson \<Rightarrow> 'v \<Rightarrow> 'v Value \<Rightarrow> 'v Value result" where
  "put_current R x v =
     (case v_current v of None \<Rightarrow> Inl (Undefined_read ''null current_value_'')
      | Some p \<Rightarrow> bind_result (store R x p (v_document v)) (\<lambda>d. Inr (v\<lparr>v_document := d\<rparr>)))"

definition set_string :: "'v rapidjson \<Rightarrow> string \<Rightarrow> 'v Value \<Rightarrow> 'v Value result" where
  "set_string R s v = put_if_current R (rj_string R (c_str s)) (v_ensure R v)"

definition set_cstr :: "'v rapidjson \<Rightarrow> string \<Rightarrow> 'v Value \<Rightarrow> 'v Value result" where
  "set_cstr R s v = put_if_current R (rj_string R (c_str s)) (v_ensure R v)"

definition set_int :: "'v rapidjson \<Rightarrow> int32 \<Rightarrow> 'v Value \<Rightarrow> 'v Value result" where
  "set_int R i v = put_if_current R (rj_int R i) (v_ensure R v)"

definition set_double :: "'v rapidjson \<Rightarrow> cxx_double \<Rightarrow> 'v Value \<Rightarrow> 'v Value result" where
  "set_double R x v = put_if_current R (rj_double R x) (v_ensure R v)"

definition set_bool :: "'v rapidjson \<Rightarrow> bool \<Rightarrow> 'v Value \<Rightarrow> 'v Value result" where
  "set_bool R t v = put_if_current R (rj_bool R t) (v_ensure R v)"

definition set_opt_string :: "'v rapidjson \<Rightarrow> string option \<Rightarrow> 'v Value \<Rightarrow> 'v Value result" where
  "set_opt_string R ov v = (case ov of Some s \<Rightarrow> set_string R s v | None \<Rightarrow> put_current R (rj_null R) v)"

definition set_opt_int :: "'v rapidjson \<Rightarrow> int32 option \<Rightarrow> 'v Value \<Rightarrow> 'v Value result" where
  "set_opt_int R ov v = (case ov of Some i \<Rightarrow> set_int R i v | None \<Rightarrow> put_current R (rj_null R) v)"

definition set_opt_double :: "'v rapidjson \<Rightarrow> cxx_double option \<Rightarrow> 'v Value \<Rightarrow> 'v Value result" where
  "set_opt_double R ov v = (case ov of Some x \<Rightarrow> set_double R x v | None \<Rightarrow> put_current R (rj_null R) v)"

definition set_opt_bool :: "'v rapidjson \<Rightarrow> bool option \<Rightarrow> 'v Value \<Rightarrow> 'v Value result" where
  "set_opt_bool R ov v = (case ov of Some t \<Rightarrow> set_bool R t v | None \<Rightarrow> put_current R (rj_null R) v)"

text \<open>The loops that build an array with \<open>PushBack\<close>.\<close>

definition array_of :: "'v rapidjson \<Rightarrow> ('a \<Rightarrow> 'v) \<Rightarrow> 'a list \<Rightarrow> 'v" where
  "array_of R f items = fold (\<lambda>item a. rj_push_back R a (f item)) items (rj_array R)"

definition set_vec_Value :: "'v rapidjson \<Rightarrow> 'v Value list \<Rightarrow> 'v Value \<Rightarrow> 'v Value result" where
  "set_vec_Value R items v = put_if_current R (array_of R v_document items) (v_ensure R v)"

definition set_vec_string :: "'v rapidjson \<Rightarrow> string list \<Rightarrow> 'v Value \<Rightarrow> 'v Value result" where
  "set_vec_string R items v =
     put_if_current R (array_of R (\<lambda>s. rj_string R (c_str s)) items) (v_ensure R v)"

definition set_vec_int :: "'v rapidjson \<Rightarrow> int32 list \<Rightarrow> 'v Value \<Rightarrow> 'v Value result" where
  "set_vec_int R items v = put_if_current R (array_of R (rj_int R) items) (v_ensure R v)"

definition set_vec_double :: "'v rapidjson \<Rightarrow> cxx_double list \<Rightarrow> 'v Value \<Rightarrow> 'v Value result" where
  "set_vec_double R items v = put_if_current R (array_of R (rj_double R) items) (v_ensure R v)"

definition set_vec_bool :: "'v rapidjson \<Rightarrow> bool list \<Rightarrow> 'v Value \<Rightarrow> 'v Value result" where
  "set_vec_bool R items v = put_if_current R (array_of R (rj_bool R) items) (v_ensure R v)"

section \<open>Reading: \<open>As<T>()\<close>\<close>

definition current :: "'v rapidjson \<Rightarrow> 'v Value \<Rightarrow> 'v result" where
  "current R v = (case v_current v of None \<Rightarrow> Inl (Runtime_error ''Null JSON value'')
     | Some p \<Rightarrow> deref R p (v_document v))"

text \<open>A checked read: the message when the test fails.\<close>

definition checked :: "('v \<Rightarrow> bool) \<Rightarrow> string \<Rightarrow> ('v \<Rightarrow> 'a) \<Rightarrow> 'v \<Rightarrow> 'a result" where
  "checked test msg get x = (if test x then Inr (get x) else Inl (Runtime_error msg))"

definition as_string :: "'v rapidjson \<Rightarrow> 'v Value \<Rightarrow> string result" where
  "as_string R v = bind_result (current R v)
     (checked (is_string R) ''JSON value is not a string'' (\<lambda>x. c_str (rj_get_string R x)))"

definition as_int :: "'v rapidjson \<Rightarrow> 'v Value \<Rightarrow> int32 result" where
  "as_int R v = bind_result (current R v)
     (checked (rj_is_int R) ''JSON value is not an integer'' (rj_get_int R))"

definition as_double :: "'v rapidjson \<Rightarrow> 'v Value \<Rightarrow> cxx_double result" where
  "as_double R v = bind_result (current R v)
     (checked (rj_is_double R) ''JSON value is not a double'' (rj_get_double R))"

definition as_bool :: "'v rapidjson \<Rightarrow> 'v Value \<Rightarrow> bool result" where
  "as_bool R v = bind_result (current R v)
     (checked (is_bool R) ''JSON value is not a boolean'' (rj_get_bool R))"

definition as_opt :: "'v rapidjson \<Rightarrow> ('v Value \<Rightarrow> 'a result) \<Rightarrow> 'v Value \<Rightarrow> 'a option result" where
  "as_opt R as v = bind_result (current R v) (\<lambda>x.
     if is_null R x then Inr None else bind_result (as v) (\<lambda>y. Inr (Some y)))"

text \<open>The four \<open>std::optional\<close> instances.\<close>

definition as_opt_string :: "'v rapidjson \<Rightarrow> 'v Value \<Rightarrow> string option result" where
  "as_opt_string R = as_opt R (as_string R)"

definition as_opt_int :: "'v rapidjson \<Rightarrow> 'v Value \<Rightarrow> int32 option result" where
  "as_opt_int R = as_opt R (as_int R)"

definition as_opt_double :: "'v rapidjson \<Rightarrow> 'v Value \<Rightarrow> cxx_double option result" where
  "as_opt_double R = as_opt R (as_double R)"

definition as_opt_bool :: "'v rapidjson \<Rightarrow> 'v Value \<Rightarrow> bool option result" where
  "as_opt_bool R = as_opt R (as_bool R)"

text \<open>The vector instances: the array test, then a loop whose body may throw.\<close>

definition as_vec :: "'v rapidjson \<Rightarrow> ('v \<Rightarrow> 'a result) \<Rightarrow> 'v Value \<Rightarrow> 'a list result" where
  "as_vec R elem v = bind_result (current R v) (\<lambda>x.
     if \<not> is_array R x then Inl (Runtime_error ''JSON value is not an array'')
     else for_result (\<lambda>e acc. bind_result (elem e) (\<lambda>y. Inr (acc @ [y]))) (rj_elements R x) [])"

text \<open>An element: a default \<open>Value\<close> whose document is overwritten, then copied into the vector.\<close>

definition element_Value :: "'v rapidjson \<Rightarrow> 'v \<Rightarrow> 'v Value" where
  "element_Value R e = copy_Value ((make_Value R)\<lparr>v_document := e\<rparr>)"

definition as_vec_Value :: "'v rapidjson \<Rightarrow> 'v Value \<Rightarrow> 'v Value list result" where
  "as_vec_Value R = as_vec R (\<lambda>e. Inr (element_Value R e))"

definition as_vec_string :: "'v rapidjson \<Rightarrow> 'v Value \<Rightarrow> string list result" where
  "as_vec_string R = as_vec R
     (checked (is_string R) ''JSON array element is not a string'' (\<lambda>x. c_str (rj_get_string R x)))"

definition as_vec_int :: "'v rapidjson \<Rightarrow> 'v Value \<Rightarrow> int32 list result" where
  "as_vec_int R = as_vec R
     (checked (rj_is_int R) ''JSON array element is not an integer'' (rj_get_int R))"

definition as_vec_double :: "'v rapidjson \<Rightarrow> 'v Value \<Rightarrow> cxx_double list result" where
  "as_vec_double R = as_vec R
     (checked (rj_is_double R) ''JSON array element is not a double'' (rj_get_double R))"

definition as_vec_bool :: "'v rapidjson \<Rightarrow> 'v Value \<Rightarrow> bool list result" where
  "as_vec_bool R = as_vec R
     (checked (is_bool R) ''JSON array element is not a boolean'' (rj_get_bool R))"

definition Value_SerializeToBytes :: "'v rapidjson \<Rightarrow> 'v Value \<Rightarrow> string result" where
  "Value_SerializeToBytes R v =
     (case rj_write R (v_document v) of None \<Rightarrow> Inl serialize_error | Some t \<Rightarrow> Inr t)"

section \<open>Lemmas\<close>

lemma v_ensure_sel [simp]: "v_current (v_ensure R v) = v_current v" "\<not> v_empty (v_ensure R v)"
  by (simp_all add: v_ensure_def)

lemma for_result_collect:
  "(\<And>x. x \<in> set xs \<Longrightarrow> elem x = Inr (f x)) \<Longrightarrow>
     for_result (\<lambda>e acc. bind_result (elem e) (\<lambda>y. Inr (acc @ [y]))) xs acc = Inr (acc @ map f xs)"
  by (induction xs arbitrary: acc) auto

lemma as_vec_elements:
  assumes "current R v = Inr x" and "is_array R x" and "\<And>e. e \<in> set (rj_elements R x) \<Longrightarrow> elem e = Inr (f e)"
  shows "as_vec R elem v = Inr (map f (rj_elements R x))"
  using assms for_result_collect [of "rj_elements R x" elem f "[]"] by (simp add: as_vec_def)

lemma put_if_current_current:
  "put_if_current R x v = Inr v' \<Longrightarrow> v_current v = Some p \<Longrightarrow>
     v_current v' = Some p \<and> store R x p (v_document v) = Inr (v_document v')"
  by (auto simp: put_if_current_def result_simps)

context rapidjson_laws
begin

lemma fold_push:
  "rj_type R a = 4 \<Longrightarrow> rj_type R (fold (\<lambda>x a. rj_push_back R a (f x)) xs a) = 4 \<and>
     rj_elements R (fold (\<lambda>x a. rj_push_back R a (f x)) xs a) = rj_elements R a @ map f xs"
  by (induction xs arbitrary: a) (auto simp: type_push elements_push)

lemma array_of_elements: "is_array R (array_of R f xs)" "rj_elements R (array_of R f xs) = map f xs"
  using fold_push [of "rj_array R" f xs] by (simp_all add: array_of_def is_array_def type_array elements_array)

lemma current_put:
  assumes "put_if_current R x v = Inr v'" and "v_current v = Some p"
  shows "current R v' = Inr x"
  using put_if_current_current [OF assms] by (auto simp: current_def dest: deref_store_same)

text \<open>The indexed member exists afterwards, so an assignment to it returns.\<close>

lemma index_Value_live:
  assumes "index_Value R key v = Inr v'"
  shows "v_current v' = Some [c_str key] \<and> live R (v_document v') [c_str key] \<and> \<not> v_empty v' \<and>
    is_object R (v_document v')"
  using assms
  by (auto simp: index_Value_def Let_def result_simps has_member_def is_object_def type_add has_add
      split: if_splits)

lemma put_if_current_returns:
  assumes "index_Value R key v = Inr v'"
  shows "\<exists>w. put_if_current R x (v_ensure R v') = Inr w \<and> current R w = Inr x \<and>
    v_document w = rj_put_member R (c_str key) x (v_document v')"
proof -
  note live = index_Value_live [OF assms]
  then have ens: "v_ensure R v' = v'" by (simp add: v_ensure_def)
  from live have "put_if_current R x (v_ensure R v') =
      Inr (v'\<lparr>v_document := rj_put_member R (c_str key) x (v_document v')\<rparr>)"
    unfolding ens by (simp add: put_if_current_def)
  moreover from current_put [OF this] live ens
  have "current R (v'\<lparr>v_document := rj_put_member R (c_str key) x (v_document v')\<rparr>) = Inr x"
    by simp
  ultimately show ?thesis by simp
qed

end

section \<open>Properties\<close>

text \<open>C34. A scalar assigned to \<open>value[key]\<close> is read back by the \<open>As\<close> of its type: strings up to their
  first NUL, integers, doubles and booleans exactly, and optionals as they were, the empty one as
  null. None of these assignments and reads fails.\<close>

theorem scalars_round_trip:
  assumes "rapidjson_laws R" and "index_Value R key v = Inr v'"
  shows "bind_result (set_string R s v') (as_string R) = Inr (c_str s) \<and>
    bind_result (set_cstr R s v') (as_string R) = Inr (c_str s) \<and>
    bind_result (set_int R i v') (as_int R) = Inr i \<and>
    bind_result (set_double R x v') (as_double R) = Inr x \<and>
    bind_result (set_bool R t v') (as_bool R) = Inr t \<and>
    bind_result (set_opt_string R os v') (as_opt_string R) = Inr (map_option c_str os) \<and>
    bind_result (set_opt_int R oi v') (as_opt_int R) = Inr oi \<and>
    bind_result (set_opt_double R ox v') (as_opt_double R) = Inr ox \<and>
    bind_result (set_opt_bool R ot v') (as_opt_bool R) = Inr ot"
proof -
  note laws = rapidjson_laws.type_simps [OF assms(1)] rapidjson_laws.get_string [OF assms(1)]
    rapidjson_laws.get_int [OF assms(1)] rapidjson_laws.get_double [OF assms(1)] rapidjson_laws.get_bool [OF assms(1)]
  have put: "\<exists>w. put_if_current R y (v_ensure R v') = Inr w \<and> current R w = Inr y" for y
    using rapidjson_laws.put_if_current_returns [OF assms] by blast
  have ens: "v_ensure R v' = v'" and cur: "v_current v' \<noteq> None"
    using rapidjson_laws.index_Value_live [OF assms] by (simp_all add: v_ensure_def)
  have put': "\<exists>w. put_current R y v' = Inr w \<and> current R w = Inr y" for y
    using put [of y] cur unfolding ens by (auto simp: put_current_def put_if_current_def split: option.splits)
  have null: "\<exists>w. put_current R (rj_null R) v' = Inr w \<and> current R w = Inr (rj_null R)" by (rule put')
  have str: "\<exists>w. set_string R s v' = Inr w \<and> as_string R w = Inr (c_str s) \<and> current R w = Inr (rj_string R (c_str s))" for s
    using put [of "rj_string R (c_str s)"] by (auto simp: set_string_def as_string_def checked_def is_kind_defs laws)
  have int: "\<exists>w. set_int R i v' = Inr w \<and> as_int R w = Inr i \<and> current R w = Inr (rj_int R i)" for i
    using put [of "rj_int R i"] by (auto simp: set_int_def as_int_def checked_def is_kind_defs laws)
  have dbl: "\<exists>w. set_double R x v' = Inr w \<and> as_double R w = Inr x \<and> current R w = Inr (rj_double R x)" for x
    using put [of "rj_double R x"] by (auto simp: set_double_def as_double_def checked_def is_kind_defs laws)
  have bool: "\<exists>w. set_bool R t v' = Inr w \<and> as_bool R w = Inr t \<and> current R w = Inr (rj_bool R t)" for t
    using put [of "rj_bool R t"] by (auto simp: set_bool_def as_bool_def checked_def is_kind_defs laws)
  have "bind_result (set_opt_string R os v') (as_opt_string R) = Inr (map_option c_str os)"
    using str [of "the os"] null
    by (cases os) (auto simp: set_opt_string_def as_opt_string_def as_opt_def is_null_def laws)
  moreover have "bind_result (set_opt_int R oi v') (as_opt_int R) = Inr oi"
    using int [of "the oi"] null by (cases oi) (auto simp: set_opt_int_def as_opt_int_def as_opt_def is_null_def laws)
  moreover have "bind_result (set_opt_double R ox v') (as_opt_double R) = Inr ox"
    using dbl [of "the ox"] null by (cases ox) (auto simp: set_opt_double_def as_opt_double_def as_opt_def is_null_def laws)
  moreover have "bind_result (set_opt_bool R ot v') (as_opt_bool R) = Inr ot"
    using bool [of "the ot"] null by (cases ot) (auto simp: set_opt_bool_def as_opt_bool_def as_opt_def is_null_def laws)
  moreover have "set_cstr R s v' = set_string R s v'" by (simp add: set_cstr_def set_string_def)
  ultimately show ?thesis using str [of s] int [of i] dbl [of x] bool [of t] by auto
qed

text \<open>The state after \<open>Value v; v["k"]\<close>.\<close>

definition indexed_Value :: "dom Value" where
  "indexed_Value = \<lparr>v_document = DObject [(''k'', DNull)], v_current = Some [''k''], v_empty = False\<rparr>"

lemma indexed_Value: "index_Value plain_json ''k'' (make_Value plain_json) = Inr indexed_Value"
  by (simp add: index_Value_def indexed_Value_def make_Value_def v_ensure_def plain_json_sel Let_def)

theorem scalars_round_trip_witness:
  "bind_result (set_string plain_json ''t'' indexed_Value) (as_string plain_json) = Inr (c_str ''t'') \<and>
    bind_result (set_cstr plain_json ''t'' indexed_Value) (as_string plain_json) = Inr (c_str ''t'') \<and>
    bind_result (set_int plain_json 5 indexed_Value) (as_int plain_json) = Inr 5 \<and>
    bind_result (set_double plain_json 6 indexed_Value) (as_double plain_json) = Inr 6 \<and>
    bind_result (set_bool plain_json True indexed_Value) (as_bool plain_json) = Inr True \<and>
    bind_result (set_opt_string plain_json None indexed_Value) (as_opt_string plain_json) = Inr (map_option c_str None) \<and>
    bind_result (set_opt_int plain_json (Some 7) indexed_Value) (as_opt_int plain_json) = Inr (Some 7) \<and>
    bind_result (set_opt_double plain_json None indexed_Value) (as_opt_double plain_json) = Inr None \<and>
    bind_result (set_opt_bool plain_json None indexed_Value) (as_opt_bool plain_json) = Inr None"
  by (rule scalars_round_trip [OF plain_json_laws indexed_Value])

text \<open>C35. The same for vectors: a vector assigned to \<open>value[key]\<close> is read back element by element, in
  order, by the \<open>As\<close> of its type, for strings, integers, doubles and booleans; a vector of \<open>Value\<close>
  gives back the elements' documents.\<close>

theorem vectors_round_trip:
  assumes "rapidjson_laws R" and "index_Value R key v = Inr v'"
  shows "bind_result (set_vec_string R ss v') (as_vec_string R) = Inr (map c_str ss) \<and>
    bind_result (set_vec_int R is v') (as_vec_int R) = Inr is \<and>
    bind_result (set_vec_double R xs v') (as_vec_double R) = Inr xs \<and>
    bind_result (set_vec_bool R ts v') (as_vec_bool R) = Inr ts \<and>
    bind_result (set_vec_Value R vs v') (as_vec_Value R) = Inr (map (\<lambda>e. element_Value R (v_document e)) vs)"
proof -
  note laws = rapidjson_laws.type_simps [OF assms(1)] rapidjson_laws.get_string [OF assms(1)]
    rapidjson_laws.get_int [OF assms(1)] rapidjson_laws.get_double [OF assms(1)] rapidjson_laws.get_bool [OF assms(1)]
  have vec: "bind_result (put_if_current R (array_of R f items) (v_ensure R v')) (as_vec R elem) = Inr (map g items)"
    if "\<And>a. elem (f a) = Inr (g a)" for f :: "'b \<Rightarrow> 'a" and elem :: "'a \<Rightarrow> 'c result" and g items
  proof -
    obtain w where w: "put_if_current R (array_of R f items) (v_ensure R v') = Inr w" "current R w = Inr (array_of R f items)"
      using rapidjson_laws.put_if_current_returns [OF assms] by blast
    note arr = rapidjson_laws.array_of_elements [OF assms(1), of f items]
    have "as_vec R elem w = Inr (map (\<lambda>e. projr (elem e)) (rj_elements R (array_of R f items)))"
      by (rule as_vec_elements [OF w(2) arr(1)]) (auto simp: arr(2) that)
    with w(1) that show ?thesis by (simp add: arr(2))
  qed
  have elems: "checked (is_string R) m (\<lambda>x. c_str (rj_get_string R x)) (rj_string R (c_str s)) = Inr (c_str s)"
    "checked (rj_is_int R) m (rj_get_int R) (rj_int R i) = Inr (id i)"
    "checked (rj_is_double R) m (rj_get_double R) (rj_double R x) = Inr (id x)"
    "checked (is_bool R) m (rj_get_bool R) (rj_bool R t) = Inr (id t)" for m s i x t
    by (simp_all add: checked_def is_kind_defs laws)
  have "bind_result (set_vec_string R ss v') (as_vec_string R) = Inr (map c_str ss)"
    unfolding set_vec_string_def as_vec_string_def by (rule vec) (rule elems)
  moreover have "bind_result (set_vec_int R is v') (as_vec_int R) = Inr (map id is)"
    unfolding set_vec_int_def as_vec_int_def by (rule vec) (rule elems)
  moreover have "bind_result (set_vec_double R xs v') (as_vec_double R) = Inr (map id xs)"
    unfolding set_vec_double_def as_vec_double_def by (rule vec) (rule elems)
  moreover have "bind_result (set_vec_bool R ts v') (as_vec_bool R) = Inr (map id ts)"
    unfolding set_vec_bool_def as_vec_bool_def by (rule vec) (rule elems)
  moreover have "bind_result (set_vec_Value R vs v') (as_vec_Value R) = Inr (map (\<lambda>e. element_Value R (v_document e)) vs)"
    unfolding set_vec_Value_def as_vec_Value_def by (rule vec) (rule refl)
  ultimately show ?thesis by simp
qed

theorem vectors_round_trip_witness:
  "bind_result (set_vec_string plain_json [''a'', ''b''] indexed_Value) (as_vec_string plain_json) = Inr (map c_str [''a'', ''b'']) \<and>
    bind_result (set_vec_int plain_json [1, 2] indexed_Value) (as_vec_int plain_json) = Inr [1, 2] \<and>
    bind_result (set_vec_double plain_json [] indexed_Value) (as_vec_double plain_json) = Inr [] \<and>
    bind_result (set_vec_bool plain_json [True] indexed_Value) (as_vec_bool plain_json) = Inr [True] \<and>
    bind_result (set_vec_Value plain_json [make_Value plain_json] indexed_Value) (as_vec_Value plain_json) =
      Inr (map (\<lambda>e. element_Value plain_json (v_document e)) [make_Value plain_json])"
  by (rule vectors_round_trip [OF plain_json_laws indexed_Value])

text \<open>The elements that \<open>As<vector<Value>>\<close> returns still count as empty: the first \<open>[]\<close> on one of
  them replaces what it holds by an object with only the new member, and the content is lost.\<close>

theorem vector_elements_are_wiped:
  assumes "rapidjson_laws R" and "as_vec_Value R v = Inr es" and "e \<in> set es"
  shows "\<exists>w. index_Value R key e = Inr w \<and>
    v_document w = rj_add_member R (c_str key) (rj_null R) (rj_object R)"
proof -
  from assms(2) obtain x where x: "current R v = Inr x" "is_array R x"
    by (auto simp: as_vec_Value_def as_vec_def result_simps split: if_splits)
  from as_vec_elements [OF x, of "\<lambda>e. Inr (element_Value R e)" "element_Value R"] assms(2)
  have "es = map (element_Value R) (rj_elements R x)" by (simp add: as_vec_Value_def)
  with assms(3) obtain d where "e = element_Value R d" by auto
  then show ?thesis
    by (simp add: element_Value_def copy_Value_def make_Value_def index_Value_def Let_def v_ensure_def has_member_def
        is_object_def rapidjson_laws.type_object [OF assms(1)] rapidjson_laws.has_object [OF assms(1)])
qed

theorem vector_elements_are_wiped_witness:
  "\<exists>w. index_Value plain_json ''k'' (element_Value plain_json (DObject [(''a'', DNull)])) = Inr w \<and>
    v_document w = rj_add_member plain_json (c_str ''k'') (rj_null plain_json) (rj_object plain_json)"
proof (rule vector_elements_are_wiped [OF plain_json_laws])
  show "as_vec_Value plain_json \<lparr>v_document = DArray [DObject [(''a'', DNull)]], v_current = Some [], v_empty = False\<rparr> =
      Inr [element_Value plain_json (DObject [(''a'', DNull)])]"
    by (simp add: as_vec_Value_def as_vec_def current_def is_array_def plain_json_sel)
qed simp

text \<open>\<open>value[k1][k2] = i\<close> is \<open>value[k2] = i\<close> with the member \<open>k1\<close> created on the way: the second
  \<open>[]\<close> starts from the document again, so the integer ends up beside \<open>k1\<close>, not below it.\<close>

theorem index_is_not_nested:
  assumes "rapidjson_laws R" and "index_Value R k1 v = Inr v1" and "index_Value R k2 v1 = Inr v2"
    and "set_int R i v2 = Inr w" and "c_str k1 \<noteq> c_str k2"
  shows "deref R [c_str k2] (v_document w) = Inr (rj_int R i) \<and>
    deref R [c_str k1] (v_document w) = deref R [c_str k1] (v_document v1)"
proof -
  note live1 = rapidjson_laws.index_Value_live [OF assms(1,2)]
  note live2 = rapidjson_laws.index_Value_live [OF assms(1,3)]
  have "v_ensure R v2 = v2" using live2 by (simp add: v_ensure_def)
  then have st: "store R (rj_int R i) [c_str k2] (v_document v2) = Inr (v_document w)"
    using assms(4) live2 put_if_current_current [of R "rj_int R i" v2 w "[c_str k2]"] by (simp add: set_int_def)
  have "v_document v2 = (if rj_has_member R (v_document v1) (c_str k2) then v_document v1
      else rj_add_member R (c_str k2) (rj_null R) (v_document v1))"
    using assms(3) live1 by (auto simp: index_Value_def Let_def v_ensure_def has_member_def)
  then have "deref R [c_str k1] (v_document v2) = deref R [c_str k1] (v_document v1)"
    using rapidjson_laws.deref_add_other [OF assms(1)] live1 assms(5) by (auto simp: is_object_def simp del: deref.simps)
  moreover have "deref R [c_str k1] (v_document w) = deref R [c_str k1] (v_document v2)"
    using rapidjson_laws.deref_store_other [OF assms(1) st] assms(5) by (simp del: deref.simps)
  ultimately show ?thesis using rapidjson_laws.deref_store_same [OF assms(1) st] by (simp del: deref.simps)
qed

theorem index_is_not_nested_witness:
  "deref plain_json [c_str ''b''] (v_document \<lparr>v_document = DObject [(''a'', DNull), (''b'', DInt 3)],
      v_current = Some [''b''], v_empty = False\<rparr>) = Inr (rj_int plain_json 3) \<and>
   deref plain_json [c_str ''a''] (v_document \<lparr>v_document = DObject [(''a'', DNull), (''b'', DInt 3)],
      v_current = Some [''b''], v_empty = False\<rparr>) =
   deref plain_json [c_str ''a''] (v_document \<lparr>v_document = DObject [(''a'', DNull)], v_current = Some [''a''], v_empty = False\<rparr>)"
proof (rule index_is_not_nested [OF plain_json_laws])
  show "index_Value plain_json ''a'' (make_Value plain_json) =
      Inr \<lparr>v_document = DObject [(''a'', DNull)], v_current = Some [''a''], v_empty = False\<rparr>"
    by (simp add: index_Value_def make_Value_def v_ensure_def plain_json_sel Let_def)
  show "index_Value plain_json ''b'' \<lparr>v_document = DObject [(''a'', DNull)], v_current = Some [''a''], v_empty = False\<rparr> =
      Inr \<lparr>v_document = DObject [(''a'', DNull), (''b'', DNull)], v_current = Some [''b''], v_empty = False\<rparr>"
    by (simp add: index_Value_def v_ensure_def plain_json_sel Let_def)
  show "set_int plain_json 3 \<lparr>v_document = DObject [(''a'', DNull), (''b'', DNull)], v_current = Some [''b''], v_empty = False\<rparr> =
      Inr \<lparr>v_document = DObject [(''a'', DNull), (''b'', DInt 3)], v_current = Some [''b''], v_empty = False\<rparr>"
    by (simp add: set_int_def put_if_current_def v_ensure_def plain_json_sel)
qed simp

end
