(* ===== verification/Json_Value_Spec.thy ===== *)
theory Json_Value_Spec
  imports Json_Value
begin

text \<open>
  \<open>formats::json::Value\<close> under arbitrary sequences of its operations: the invariant that its pointer never
  dangles, the one way an operation can fail, and what each \<open>As<T>\<close> does to any state that can be
  reached (\<open>src/piconaut/formats/json/value.cc\<close>).
\<close>

section \<open>Sequences of operations\<close>

text \<open>The operations of the class; in \<open>V_assign\<close> and \<open>V_copy_of\<close> another object is copied.\<close>

datatype 'v value_op =
    V_index string
  | V_string string
  | V_cstr string
  | V_int int32
  | V_double cxx_double
  | V_bool bool
  | V_opt_string "string option"
  | V_opt_int "int32 option"
  | V_opt_double "cxx_double option"
  | V_opt_bool "bool option"
  | V_vec_Value "'v Value list"
  | V_vec_string "string list"
  | V_vec_int "int32 list"
  | V_vec_double "cxx_double list"
  | V_vec_bool "bool list"
  | V_assign_self
  | V_assign "'v Value"
  | V_copy

primrec run_value_op :: "'v rapidjson \<Rightarrow> 'v value_op \<Rightarrow> 'v Value \<Rightarrow> 'v Value result" where
  "run_value_op R (V_index k) v = index_Value R k v"
| "run_value_op R (V_string s) v = set_string R s v"
| "run_value_op R (V_cstr s) v = set_cstr R s v"
| "run_value_op R (V_int i) v = set_int R i v"
| "run_value_op R (V_double x) v = set_double R x v"
| "run_value_op R (V_bool t) v = set_bool R t v"
| "run_value_op R (V_opt_string s) v = set_opt_string R s v"
| "run_value_op R (V_opt_int i) v = set_opt_int R i v"
| "run_value_op R (V_opt_double x) v = set_opt_double R x v"
| "run_value_op R (V_opt_bool t) v = set_opt_bool R t v"
| "run_value_op R (V_vec_Value vs) v = set_vec_Value R vs v"
| "run_value_op R (V_vec_string ss) v = set_vec_string R ss v"
| "run_value_op R (V_vec_int is) v = set_vec_int R is v"
| "run_value_op R (V_vec_double xs) v = set_vec_double R xs v"
| "run_value_op R (V_vec_bool ts) v = set_vec_bool R ts v"
| "run_value_op R V_assign_self v = Inr (assign_Value True v v)"
| "run_value_op R (V_assign other) v = Inr (assign_Value False other v)"
| "run_value_op R V_copy v = Inr (copy_Value v)"

definition run_value :: "'v rapidjson \<Rightarrow> 'v value_op list \<Rightarrow> 'v Value \<Rightarrow> 'v Value result" where
  "run_value R = for_result (run_value_op R)"

section \<open>The invariant\<close>

text \<open>
  The pointer is set and leads somewhere; an object that counts as empty points to its document. (The
  document of such an object need not be an object: \<open>value = std::optional<int>()\<close> makes it null, and a
  copy of an element of a vector keeps what the element holds.)
\<close>

definition value_ok :: "'v rapidjson \<Rightarrow> 'v Value \<Rightarrow> bool" where
  "value_ok R v =
     ((\<exists>p. v_current v = Some p \<and> live R (v_document v) p) \<and> (v_empty v \<longrightarrow> v_current v = Some []))"

lemma value_ok_make: "value_ok R (make_Value R)"
  by (simp add: value_ok_def make_Value_def)

lemma value_ok_copy: "value_ok R (copy_Value v)"
  by (simp add: value_ok_def copy_Value_def)

lemma value_ok_assign: "value_ok R v \<Longrightarrow> value_ok R (assign_Value self other v)"
  by (simp add: value_ok_def assign_Value_def)

lemma value_ok_ensure: "value_ok R v \<Longrightarrow> value_ok R (v_ensure R v)"
  by (auto simp: value_ok_def v_ensure_def)

context rapidjson_laws
begin

lemma store_keeps_live: "store R x p d = Inr d' \<Longrightarrow> live R d' p"
  by (auto simp: live_def dest: deref_store_same)

text \<open>Writing through the pointer never fails and never lets it dangle.\<close>

lemma put_current_ok:
  assumes "value_ok R v"
  shows "\<exists>w. put_current R x v = Inr w \<and> value_ok R w" and "\<exists>w. put_if_current R x v = Inr w \<and> value_ok R w"
proof -
  from assms obtain p where p: "v_current v = Some p" "live R (v_document v) p" by (auto simp: value_ok_def)
  from store_live [OF p(2)] obtain d where d: "store R x p (v_document v) = Inr d" by blast
  with p assms store_keeps_live [OF d] have "value_ok R (v\<lparr>v_document := d\<rparr>)" by (simp add: value_ok_def)
  with p(1) d show "\<exists>w. put_current R x v = Inr w \<and> value_ok R w" "\<exists>w. put_if_current R x v = Inr w \<and> value_ok R w"
    by (simp_all add: put_current_def put_if_current_def)
qed

lemma index_Value_ok:
  assumes "value_ok R v"
  shows "case index_Value R k v of Inr w \<Rightarrow> value_ok R w | Inl e \<Rightarrow> e = Rapidjson_assert ''IsObject()''"
proof (cases "index_Value R k v")
  case (Inl e)
  then show ?thesis by (auto simp: index_Value_def Let_def has_member_def result_simps split: if_splits)
next
  case (Inr w)
  with index_Value_live [OF Inr] show ?thesis by (simp add: value_ok_def)
qed

lemma run_value_op_ok:
  assumes "value_ok R v"
  shows "case run_value_op R op v of Inr w \<Rightarrow> value_ok R w | Inl e \<Rightarrow> e = Rapidjson_assert ''IsObject()''"
proof -
  have put: "case put_if_current R x (v_ensure R v) of Inr w \<Rightarrow> value_ok R w
      | Inl e \<Rightarrow> e = Rapidjson_assert ''IsObject()''" for x
    using put_current_ok(2) [OF value_ok_ensure [OF assms], of x] by (auto split: sum.splits)
  have null: "case put_current R x v of Inr w \<Rightarrow> value_ok R w | Inl e \<Rightarrow> e = Rapidjson_assert ''IsObject()''" for x
    using put_current_ok(1) [OF assms, of x] by (auto split: sum.splits)
  note [simp] = set_string_def set_cstr_def set_int_def set_double_def set_bool_def set_opt_string_def
    set_opt_int_def set_opt_double_def set_opt_bool_def set_vec_Value_def set_vec_string_def set_vec_int_def
    set_vec_double_def set_vec_bool_def put null
  show ?thesis
  proof (cases op)
    case (V_opt_string s) then show ?thesis by (cases s) simp_all
  next
    case (V_opt_int i) then show ?thesis by (cases i) simp_all
  next
    case (V_opt_double x) then show ?thesis by (cases x) simp_all
  next
    case (V_opt_bool t) then show ?thesis by (cases t) simp_all
  qed (simp_all add: index_Value_ok [OF assms] value_ok_assign [OF assms] value_ok_copy)
qed

lemma run_value_ok:
  "value_ok R v \<Longrightarrow>
     case run_value R ops v of Inr w \<Rightarrow> value_ok R w | Inl e \<Rightarrow> e = Rapidjson_assert ''IsObject()''"
proof (induction ops arbitrary: v)
  case (Cons op ops)
  from run_value_op_ok [OF Cons.prems, of op] Cons.IH show ?case
    by (cases "run_value_op R op v") (simp_all add: run_value_def)
qed (simp add: run_value_def)

end

section \<open>Reading\<close>

text \<open>The branch of \<open>As<T>\<close> for every other type.\<close>

definition as_unsupported :: "'v rapidjson \<Rightarrow> 'v Value \<Rightarrow> 'a result" where
  "as_unsupported R v = bind_result (current R v)
     (\<lambda>x. Inl (Runtime_error ''Unsupported type for JSON deserialization''))"

lemma for_result_checked:
  "for_result (\<lambda>e acc. bind_result (checked test msg get e) (\<lambda>y. Inr (acc @ [y]))) es acc =
     (if \<forall>e \<in> set es. test e then Inr (acc @ map get es) else Inl (Runtime_error msg))"
  by (induction es arbitrary: acc) (auto simp: checked_def)

lemma as_vec_checked:
  assumes "current R v = Inr x"
  shows "as_vec R (checked test msg get) v =
    (if \<not> is_array R x then Inl (Runtime_error ''JSON value is not an array'')
     else if \<forall>e \<in> set (rj_elements R x). test e then Inr (map get (rj_elements R x)) else Inl (Runtime_error msg))"
  using assms for_result_checked [of test msg get "rj_elements R x" "[]"] by (simp add: as_vec_def)

lemma as_opt_checked:
  assumes "current R v = Inr x" and "as v = checked test msg get x"
  shows "as_opt R as v = (if is_null R x then Inr None
    else if test x then Inr (Some (get x)) else Inl (Runtime_error msg))"
  using assms by (simp add: as_opt_def checked_def)

lemma value_ok_current: "value_ok R v \<Longrightarrow> \<exists>x. current R v = Inr x"
  by (auto simp: value_ok_def current_def live_def)

section \<open>What a read promises\<close>

text \<open>JSON as the user of the class sees it, without RapidJSON: what a value shows.\<close>

datatype json = J_null | J_bool bool | J_int int32 | J_double cxx_double | J_string string | J_array "json list" | J_object

fun displays :: "'v rapidjson \<Rightarrow> json \<Rightarrow> 'v \<Rightarrow> bool" where
  "displays R J_null x = (x = rj_null R)"
| "displays R (J_bool b) x = (x = rj_bool R b)"
| "displays R (J_int i) x = (x = rj_int R i)"
| "displays R (J_double y) x = (x = rj_double R y)"
| "displays R (J_string s) x = (x = rj_string R s)"
| "displays R (J_array js) x = (is_array R x \<and> list_all2 (displays R) js (rj_elements R x))"
| "displays R J_object x = is_object R x"

text \<open>The content of each type, and what a read of the type, of its optional and of its vector gives.\<close>

primrec string_in :: "json \<Rightarrow> string option" where
  "string_in (J_string s) = Some (c_str s)" | "string_in J_null = None" | "string_in (J_bool b) = None"
| "string_in (J_int i) = None" | "string_in (J_double y) = None" | "string_in (J_array js) = None" | "string_in J_object = None"

primrec int_in :: "json \<Rightarrow> int32 option" where
  "int_in (J_int i) = Some i" | "int_in J_null = None" | "int_in (J_bool b) = None"
| "int_in (J_string s) = None" | "int_in (J_double y) = None" | "int_in (J_array js) = None" | "int_in J_object = None"

primrec double_in :: "json \<Rightarrow> cxx_double option" where
  "double_in (J_double y) = Some y" | "double_in J_null = None" | "double_in (J_bool b) = None"
| "double_in (J_string s) = None" | "double_in (J_int i) = None" | "double_in (J_array js) = None" | "double_in J_object = None"

primrec bool_in :: "json \<Rightarrow> bool option" where
  "bool_in (J_bool b) = Some b" | "bool_in J_null = None" | "bool_in (J_int i) = None"
| "bool_in (J_string s) = None" | "bool_in (J_double y) = None" | "bool_in (J_array js) = None" | "bool_in J_object = None"

definition read_of :: "(json \<Rightarrow> 'a option) \<Rightarrow> string \<Rightarrow> json \<Rightarrow> 'a result" where
  "read_of sel msg j = (case sel j of Some y \<Rightarrow> Inr y | None \<Rightarrow> Inl (Runtime_error msg))"

definition opt_of :: "(json \<Rightarrow> 'a option) \<Rightarrow> string \<Rightarrow> json \<Rightarrow> 'a option result" where
  "opt_of sel msg j =
     (if j = J_null then Inr None else case sel j of Some y \<Rightarrow> Inr (Some y) | None \<Rightarrow> Inl (Runtime_error msg))"

definition not_array :: cxx_error where
  "not_array = Runtime_error ''JSON value is not an array''"

definition vec_of :: "(json \<Rightarrow> 'a option) \<Rightarrow> string \<Rightarrow> json \<Rightarrow> 'a list result" where
  "vec_of sel msg j =
     (case j of
        J_array js \<Rightarrow> if None \<in> sel ` set js then Inl (Runtime_error msg) else Inr (map (the \<circ> sel) js)
      | _ \<Rightarrow> Inl not_array)"

text \<open>RapidJSON's test and read of a type find that content and nothing else.\<close>

definition reads_type :: "'v rapidjson \<Rightarrow> ('v \<Rightarrow> bool) \<Rightarrow> ('v \<Rightarrow> 'a) \<Rightarrow> (json \<Rightarrow> 'a option) \<Rightarrow> bool" where
  "reads_type R test get sel =
     (\<forall>j x. displays R j x \<longrightarrow> test x = (sel j \<noteq> None) \<and> (sel j \<noteq> None \<longrightarrow> get x = the (sel j)))"

context rapidjson_laws
begin

lemma number_tests: "\<not> rj_is_int R x" "\<not> rj_is_double R x" if "rj_type R x \<noteq> 6"
  using number_types [of x] that by auto

lemma reads_types:
  "reads_type R (is_string R) (\<lambda>x. c_str (rj_get_string R x)) string_in"
  "reads_type R (rj_is_int R) (rj_get_int R) int_in"
  "reads_type R (rj_is_double R) (rj_get_double R) double_in"
  "reads_type R (is_bool R) (rj_get_bool R) bool_in"
  unfolding reads_type_def
  by (intro allI; case_tac j;
      simp add: is_kind_defs type_simps get_string get_int get_double get_bool int_not_double number_tests)+

lemma shows_null: "displays R j x \<Longrightarrow> is_null R x = (j = J_null)"
  by (cases j) (auto simp: is_kind_defs type_simps)

lemma shows_array: "displays R j x \<Longrightarrow> is_array R x = (\<exists>js. j = J_array js)"
  by (cases j) (auto simp: is_kind_defs type_simps)

lemma read_shown:
  assumes "reads_type R test get sel" and "displays R j x"
  shows "checked test msg get x = read_of sel msg j"
  using assms by (auto simp: reads_type_def checked_def read_of_def split: option.split)

lemma read_opt_shown:
  assumes "reads_type R test get sel" and "displays R j x" and "current R v = Inr x" and "as v = checked test msg get x"
  shows "as_opt R as v = opt_of sel msg j"
  unfolding as_opt_checked [of R v x as test msg get, OF assms(3,4)] shows_null [OF assms(2)]
  using assms(1,2) by (auto simp: reads_type_def opt_of_def split: option.split)

lemma read_vec_shown:
  assumes "reads_type R test get sel" and "displays R j x" and "current R v = Inr x"
  shows "as_vec R (checked test msg get) v = vec_of sel msg j"
proof (cases "\<exists>js. j = J_array js")
  case True
  then obtain js where js: "j = J_array js" by blast
  with assms(2) have el: "list_all2 (displays R) js (rj_elements R x)" and arr: "is_array R x" by simp_all
  from el assms(1) have "(\<forall>e \<in> set (rj_elements R x). test e) = (None \<notin> sel ` set js) \<and>
      (None \<notin> sel ` set js \<longrightarrow> map get (rj_elements R x) = map (the \<circ> sel) js)"
    by (induction rule: list_all2_induct) (fastforce simp: reads_type_def)+
  with arr js show ?thesis by (simp add: as_vec_checked [OF assms(3)] vec_of_def)
next
  case False
  with shows_array [OF assms(2)] show ?thesis
    by (simp add: as_vec_checked [OF assms(3)] vec_of_def not_array_def split: json.split)
qed

lemma read_values_shown:
  assumes "displays R j x" and "current R v = Inr x"
  shows "case j of
       J_array js \<Rightarrow> \<exists>es. as_vec_Value R v = Inr es \<and> list_all2 (\<lambda>i e. displays R i (v_document e)) js es
     | _ \<Rightarrow> as_vec_Value R v = Inl not_array"
proof (cases "\<exists>js. j = J_array js")
  case True
  then obtain js where js: "j = J_array js" by blast
  with assms(1) have el: "list_all2 (displays R) js (rj_elements R x)" and arr: "is_array R x" by simp_all
  have "as_vec_Value R v = Inr (map (element_Value R) (rj_elements R x))"
    unfolding as_vec_Value_def using as_vec_elements [OF assms(2) arr, of "\<lambda>e. Inr (element_Value R e)" "element_Value R"] by simp
  moreover have "v_document (element_Value R e) = e" for e by (simp add: element_Value_def copy_Value_def)
  ultimately show ?thesis using el js by (simp add: list.rel_map(2))
next
  case False
  with shows_array [OF assms(1)] show ?thesis
    by (simp add: as_vec_Value_def as_vec_def assms(2) not_array_def split: json.split)
qed

text \<open>All instances at once.\<close>

lemma reads_shown:
  assumes "run_value R ops (make_Value R) = Inr v"
  shows "\<exists>p x. v_current v = Some p \<and> deref R p (v_document v) = Inr x \<and> (\<forall>j. displays R j x \<longrightarrow>
    as_string R v = read_of string_in ''JSON value is not a string'' j \<and>
    as_int R v = read_of int_in ''JSON value is not an integer'' j \<and>
    as_double R v = read_of double_in ''JSON value is not a double'' j \<and>
    as_bool R v = read_of bool_in ''JSON value is not a boolean'' j \<and>
    as_opt_string R v = opt_of string_in ''JSON value is not a string'' j \<and>
    as_opt_int R v = opt_of int_in ''JSON value is not an integer'' j \<and>
    as_opt_double R v = opt_of double_in ''JSON value is not a double'' j \<and>
    as_opt_bool R v = opt_of bool_in ''JSON value is not a boolean'' j \<and>
    as_vec_string R v = vec_of string_in ''JSON array element is not a string'' j \<and>
    as_vec_int R v = vec_of int_in ''JSON array element is not an integer'' j \<and>
    as_vec_double R v = vec_of double_in ''JSON array element is not a double'' j \<and>
    as_vec_bool R v = vec_of bool_in ''JSON array element is not a boolean'' j \<and>
    (case j of
       J_array js \<Rightarrow> \<exists>es. as_vec_Value R v = Inr es \<and> list_all2 (\<lambda>i e. displays R i (v_document e)) js es
     | _ \<Rightarrow> as_vec_Value R v = Inl not_array) \<and>
    (as_unsupported R v :: 'a result) = Inl (Runtime_error ''Unsupported type for JSON deserialization''))"
proof -
  have "value_ok R v" using run_value_ok [OF value_ok_make, of ops] assms by simp
  then obtain p x where x: "v_current v = Some p" "deref R p (v_document v) = Inr x"
    by (auto simp: value_ok_def live_def)
  then have cur: "current R v = Inr x" by (simp add: current_def)
  note as_defs = as_string_def as_int_def as_double_def as_bool_def
  have scalar: "as_string R v = checked (is_string R) ''JSON value is not a string'' (\<lambda>x. c_str (rj_get_string R x)) x"
    "as_int R v = checked (rj_is_int R) ''JSON value is not an integer'' (rj_get_int R) x"
    "as_double R v = checked (rj_is_double R) ''JSON value is not a double'' (rj_get_double R) x"
    "as_bool R v = checked (is_bool R) ''JSON value is not a boolean'' (rj_get_bool R) x"
    by (simp_all add: as_defs cur)
  show ?thesis
  proof (intro exI conjI allI impI)
    fix j assume j: "displays R j x"
    note opt = read_opt_shown [OF _ j cur] and vec = read_vec_shown [OF _ j cur] and types = reads_types
    show "as_string R v = read_of string_in ''JSON value is not a string'' j"
      unfolding scalar by (rule read_shown [OF types(1) j])
    show "as_int R v = read_of int_in ''JSON value is not an integer'' j"
      unfolding scalar by (rule read_shown [OF types(2) j])
    show "as_double R v = read_of double_in ''JSON value is not a double'' j"
      unfolding scalar by (rule read_shown [OF types(3) j])
    show "as_bool R v = read_of bool_in ''JSON value is not a boolean'' j"
      unfolding scalar by (rule read_shown [OF types(4) j])
    show "as_opt_string R v = opt_of string_in ''JSON value is not a string'' j"
      unfolding as_opt_string_def by (rule opt [OF types(1)]) (rule scalar(1))
    show "as_opt_int R v = opt_of int_in ''JSON value is not an integer'' j"
      unfolding as_opt_int_def by (rule opt [OF types(2)]) (rule scalar(2))
    show "as_opt_double R v = opt_of double_in ''JSON value is not a double'' j"
      unfolding as_opt_double_def by (rule opt [OF types(3)]) (rule scalar(3))
    show "as_opt_bool R v = opt_of bool_in ''JSON value is not a boolean'' j"
      unfolding as_opt_bool_def by (rule opt [OF types(4)]) (rule scalar(4))
    show "as_vec_string R v = vec_of string_in ''JSON array element is not a string'' j"
      unfolding as_vec_string_def by (rule vec [OF types(1)])
    show "as_vec_int R v = vec_of int_in ''JSON array element is not an integer'' j"
      unfolding as_vec_int_def by (rule vec [OF types(2)])
    show "as_vec_double R v = vec_of double_in ''JSON array element is not a double'' j"
      unfolding as_vec_double_def by (rule vec [OF types(3)])
    show "as_vec_bool R v = vec_of bool_in ''JSON array element is not a boolean'' j"
      unfolding as_vec_bool_def by (rule vec [OF types(4)])
    show "case j of
       J_array js \<Rightarrow> \<exists>es. as_vec_Value R v = Inr es \<and> list_all2 (\<lambda>i e. displays R i (v_document e)) js es
     | _ \<Rightarrow> as_vec_Value R v = Inl not_array"
      by (rule read_values_shown [OF j cur])
    show "(as_unsupported R v :: 'a result) = Inl (Runtime_error ''Unsupported type for JSON deserialization'')"
      by (simp add: as_unsupported_def cur)
  qed (fact x)+
qed

end

section \<open>Properties\<close>

text \<open>Whatever is done to a fresh value, indexing, assignments of all types, copies, in any order, its
  pointer leads to a position of its document after every step, and the only way a step can fail is
  RapidJSON's assertion that \<open>[]\<close> is applied to an object.\<close>

theorem value_run_safe:
  assumes "rapidjson_laws R"
  shows "case run_value R ops (make_Value R) of
      Inr v \<Rightarrow> \<exists>p. v_current v = Some p \<and> live R (v_document v) p \<and> (v_empty v \<longrightarrow> p = [])
    | Inl e \<Rightarrow> e = Rapidjson_assert ''IsObject()''"
  using rapidjson_laws.run_value_ok [OF assms value_ok_make, of ops]
  by (auto simp: value_ok_def split: sum.splits)

theorem value_run_safe_witness:
  "case run_value plain_json [V_index ''a'', V_int 1, V_copy, V_opt_bool None, V_index ''b''] (make_Value plain_json) of
      Inr v \<Rightarrow> \<exists>p. v_current v = Some p \<and> live plain_json (v_document v) p \<and> (v_empty v \<longrightarrow> p = [])
    | Inl e \<Rightarrow> e = Rapidjson_assert ''IsObject()''"
  by (rule value_run_safe) (rule plain_json_laws)

text \<open>C22. Reading never goes wrong silently. Whatever operations have made a value, its pointer leads to some
  position of the document, and when the JSON there is \<open>j\<close>, each instance of \<open>As<T>\<close> is a function of \<open>j\<close>
  alone: a scalar is returned when \<open>j\<close> is of its type (an integer is no double and a double no integer),
  an optional also when \<open>j\<close> is null, a vector when \<open>j\<close> is an array whose elements all have the type, a
  vector of \<open>Value\<close> for every array, with values that show the elements; in every other case the
  instance throws its own \<open>runtime_error\<close>. The error for a null pointer is never thrown.\<close>

theorem value_reads_checked:
  assumes "rapidjson_laws R" and "run_value R ops (make_Value R) = Inr v"
  shows "\<exists>p x. v_current v = Some p \<and> deref R p (v_document v) = Inr x \<and> (\<forall>j. displays R j x \<longrightarrow>
    as_string R v = read_of string_in ''JSON value is not a string'' j \<and>
    as_int R v = read_of int_in ''JSON value is not an integer'' j \<and>
    as_double R v = read_of double_in ''JSON value is not a double'' j \<and>
    as_bool R v = read_of bool_in ''JSON value is not a boolean'' j \<and>
    as_opt_string R v = opt_of string_in ''JSON value is not a string'' j \<and>
    as_opt_int R v = opt_of int_in ''JSON value is not an integer'' j \<and>
    as_opt_double R v = opt_of double_in ''JSON value is not a double'' j \<and>
    as_opt_bool R v = opt_of bool_in ''JSON value is not a boolean'' j \<and>
    as_vec_string R v = vec_of string_in ''JSON array element is not a string'' j \<and>
    as_vec_int R v = vec_of int_in ''JSON array element is not an integer'' j \<and>
    as_vec_double R v = vec_of double_in ''JSON array element is not a double'' j \<and>
    as_vec_bool R v = vec_of bool_in ''JSON array element is not a boolean'' j \<and>
    (case j of
       J_array js \<Rightarrow> \<exists>es. as_vec_Value R v = Inr es \<and> list_all2 (\<lambda>i e. displays R i (v_document e)) js es
     | _ \<Rightarrow> as_vec_Value R v = Inl not_array) \<and>
    (as_unsupported R v :: 'a result) = Inl (Runtime_error ''Unsupported type for JSON deserialization''))"
  using assms(2) by (rule rapidjson_laws.reads_shown [OF assms(1)])

text \<open>A vector of an integer and a string is an array, but no vector of integers.\<close>

definition mixed_ops :: "dom value_op list" where
  "mixed_ops = [V_index ''n'', V_vec_Value [\<lparr>v_document = DInt 1, v_current = Some [], v_empty = False\<rparr>,
     \<lparr>v_document = DString ''t'', v_current = Some [], v_empty = False\<rparr>]]"

theorem value_reads_checked_witness:
  "\<exists>v. run_value plain_json mixed_ops (make_Value plain_json) = Inr v \<and>
     as_vec_int plain_json v = Inl (Runtime_error ''JSON array element is not an integer'') \<and>
     as_opt_int plain_json v = Inl (Runtime_error ''JSON value is not an integer'') \<and>
     (\<exists>es. as_vec_Value plain_json v = Inr es \<and> list_all2 (\<lambda>i e. displays plain_json i (v_document e)) [J_int 1, J_string ''t''] es)"
proof -
  let ?doc = "DObject [(''n'', DArray [DInt 1, DString ''t''])]"
  let ?v = "\<lparr>v_document = ?doc, v_current = Some [''n''], v_empty = False\<rparr>"
  have v: "run_value plain_json mixed_ops (make_Value plain_json) = Inr ?v"
    by (simp add: mixed_ops_def run_value_def index_Value_def make_Value_def v_ensure_def plain_json_sel Let_def set_vec_Value_def
        put_if_current_def array_of_def)
  have "displays plain_json (J_array [J_int 1, J_string ''t'']) x" if "deref plain_json [''n''] ?doc = Inr x" for x
    using that by (auto simp: plain_json_sel is_array_def)
  moreover from value_reads_checked [OF plain_json_laws v, where 'a = unit] obtain p x where
    "p = [''n'']" "deref plain_json p ?doc = Inr x" and reads: "\<And>j. displays plain_json j x \<Longrightarrow>
      as_vec_int plain_json ?v = vec_of int_in ''JSON array element is not an integer'' j \<and>
      as_opt_int plain_json ?v = opt_of int_in ''JSON value is not an integer'' j \<and>
      (case j of
         J_array js \<Rightarrow> \<exists>es. as_vec_Value plain_json ?v = Inr es \<and> list_all2 (\<lambda>i e. displays plain_json i (v_document e)) js es
       | _ \<Rightarrow> as_vec_Value plain_json ?v = Inl not_array)"
    by auto
  ultimately have "displays plain_json (J_array [J_int 1, J_string ''t'']) x" by blast
  from reads [OF this] show ?thesis by (intro exI [of _ ?v] conjI v) (simp_all add: vec_of_def opt_of_def)
qed

end
