(* ===== verification/Json_Value_Cursor.thy ===== *)
theory Json_Value_Cursor
  imports Json_Value_Spec
begin

text \<open>
  What \<open>formats::json::Value\<close> promises, without pointers (\<open>src/piconaut/formats/json/value.cc\<close>): one level of
  members under their keys, or a single value that is no object, and a cursor that is at the whole or
  at one key. Every operation of the class implements one equation on this state. In particular \<open>[]\<close>
  always selects a member of the whole: \<open>value["a"]["b"]\<close> is a member beside \<open>a\<close>, not inside it.
\<close>

section \<open>The abstract state\<close>

datatype 'v content = Members "string \<Rightarrow> 'v option" | Single 'v

record 'v cursor =
  content :: "'v content"
  at_key :: "string option"
  fresh :: bool

definition content_of :: "'v rapidjson \<Rightarrow> 'v \<Rightarrow> 'v content" where
  "content_of R d =
     (if is_object R d then Members (\<lambda>k. if rj_has_member R d k then Some (rj_member R d k) else None) else Single d)"

definition cursor_of :: "'v rapidjson \<Rightarrow> 'v Value \<Rightarrow> 'v cursor" where
  "cursor_of R v = \<lparr>content = content_of R (v_document v),
     at_key = (case v_current v of Some (k # ks) \<Rightarrow> Some k | _ \<Rightarrow> None), fresh = v_empty v\<rparr>"

section \<open>The specification\<close>

definition new_cursor :: "'v cursor" where
  "new_cursor = \<lparr>content = Members Map.empty, at_key = None, fresh = True\<rparr>"

text \<open>The first use of a fresh value makes it an object without members.\<close>

definition begin_use :: "'v cursor \<Rightarrow> 'v cursor" where
  "begin_use s = (if fresh s then s\<lparr>content := Members Map.empty, fresh := False\<rparr> else s)"

definition put_at :: "'v rapidjson \<Rightarrow> 'v \<Rightarrow> 'v cursor \<Rightarrow> 'v cursor" where
  "put_at R x s =
     (case (at_key s, content s) of
        (Some k, Members m) \<Rightarrow> s\<lparr>content := Members (m(k \<mapsto> x))\<rparr>
      | _ \<Rightarrow> s\<lparr>content := content_of R x\<rparr>)"

text \<open>\<open>None\<close>: the assertion of RapidJSON fails, because the whole is a single value.\<close>

definition select_key :: "'v rapidjson \<Rightarrow> string \<Rightarrow> 'v cursor \<Rightarrow> 'v cursor option" where
  "select_key R k s =
     (case content (begin_use s) of
        Single x \<Rightarrow> None
      | Members m \<Rightarrow> Some ((begin_use s)
          \<lparr>content := Members (if m k = None then m(k \<mapsto> rj_null R) else m), at_key := Some k\<rparr>))"

text \<open>The value that an assignment stores.\<close>

primrec stored :: "'v rapidjson \<Rightarrow> 'v value_op \<Rightarrow> 'v option" where
  "stored R (V_index k) = None"
| "stored R (V_string s) = Some (rj_string R (c_str s))"
| "stored R (V_cstr s) = Some (rj_string R (c_str s))"
| "stored R (V_int i) = Some (rj_int R i)"
| "stored R (V_double x) = Some (rj_double R x)"
| "stored R (V_bool t) = Some (rj_bool R t)"
| "stored R (V_opt_string s) = map_option (\<lambda>s. rj_string R (c_str s)) s"
| "stored R (V_opt_int i) = map_option (rj_int R) i"
| "stored R (V_opt_double x) = map_option (rj_double R) x"
| "stored R (V_opt_bool t) = map_option (rj_bool R) t"
| "stored R (V_vec_Value vs) = Some (array_of R v_document vs)"
| "stored R (V_vec_string ss) = Some (array_of R (\<lambda>s. rj_string R (c_str s)) ss)"
| "stored R (V_vec_int is) = Some (array_of R (rj_int R) is)"
| "stored R (V_vec_double xs) = Some (array_of R (rj_double R) xs)"
| "stored R (V_vec_bool ts) = Some (array_of R (rj_bool R) ts)"
| "stored R V_assign_self = None"
| "stored R (V_assign other) = None"
| "stored R V_copy = None"

text \<open>Everything else: the selection of a key, copies, and the empty optionals, which store null at the
  cursor and leave a fresh value fresh.\<close>

definition cursor_op :: "'v rapidjson \<Rightarrow> 'v value_op \<Rightarrow> 'v cursor \<Rightarrow> 'v cursor option" where
  "cursor_op R op s =
     (case stored R op of
        Some x \<Rightarrow> Some (put_at R x (begin_use s))
      | None \<Rightarrow>
          (case op of
             V_index k \<Rightarrow> select_key R (c_str k) s
           | V_assign_self \<Rightarrow> Some s
           | V_assign other \<Rightarrow> Some \<lparr>content = content_of R (v_document other), at_key = None, fresh = v_empty other\<rparr>
           | V_copy \<Rightarrow> Some (s\<lparr>at_key := None\<rparr>)
           | _ \<Rightarrow> Some (put_at R (rj_null R) s)))"

primrec cursor_ops :: "'v rapidjson \<Rightarrow> 'v value_op list \<Rightarrow> 'v cursor \<Rightarrow> 'v cursor option" where
  "cursor_ops R [] s = Some s"
| "cursor_ops R (op # ops) s = Option.bind (cursor_op R op s) (cursor_ops R ops)"

section \<open>The implementation\<close>

text \<open>The pointer is at the document or at one of its members.\<close>

definition one_level :: "'v rapidjson \<Rightarrow> 'v Value \<Rightarrow> bool" where
  "one_level R v =
     (v_current v = Some [] \<or>
      (\<exists>k. v_current v = Some [k] \<and> is_object R (v_document v) \<and> rj_has_member R (v_document v) k \<and> \<not> v_empty v))"

text \<open>A result of the code and a result of the specification.\<close>

definition implements :: "'v rapidjson \<Rightarrow> 'v Value result \<Rightarrow> 'v cursor option \<Rightarrow> bool" where
  "implements R res spec =
     (case res of
        Inr w \<Rightarrow> one_level R w \<and> spec = Some (cursor_of R w)
      | Inl e \<Rightarrow> e = Rapidjson_assert ''IsObject()'' \<and> spec = None)"

lemma implements_simps [simp]:
  "implements R (Inr w) spec \<longleftrightarrow> one_level R w \<and> spec = Some (cursor_of R w)"
  "implements R (Inl e) spec \<longleftrightarrow> e = Rapidjson_assert ''IsObject()'' \<and> spec = None"
  by (simp_all add: implements_def)

lemma one_level_make: "one_level R (make_Value R)"
  by (simp add: one_level_def make_Value_def)

context rapidjson_laws
begin

lemma content_of_object: "content_of R (rj_object R) = Members Map.empty"
  by (auto simp: content_of_def is_object_def type_object has_object)

lemma cursor_of_make: "cursor_of R (make_Value R) = new_cursor"
  by (simp add: cursor_of_def make_Value_def new_cursor_def content_of_object)

lemma ensure_begins: "one_level R v \<Longrightarrow> cursor_of R (v_ensure R v) = begin_use (cursor_of R v)"
  by (simp add: cursor_of_def v_ensure_def begin_use_def content_of_object)

lemma one_level_ensure: "one_level R v \<Longrightarrow> one_level R (v_ensure R v)"
  by (auto simp: one_level_def v_ensure_def)

lemma content_of_put:
  "is_object R d \<Longrightarrow> rj_has_member R d k \<Longrightarrow>
     content_of R (rj_put_member R k x d) = (case content_of R d of Members m \<Rightarrow> Members (m(k \<mapsto> x)) | Single y \<Rightarrow> Single y)"
  by (auto simp: content_of_def is_object_def type_put has_put member_put fun_eq_iff)

lemma content_of_add:
  "is_object R d \<Longrightarrow> \<not> rj_has_member R d k \<Longrightarrow>
     content_of R (rj_add_member R k x d) = (case content_of R d of Members m \<Rightarrow> Members (m(k \<mapsto> x)) | Single y \<Rightarrow> Single y)"
  by (auto simp: content_of_def is_object_def type_add has_add member_add fun_eq_iff)

lemma put_refines:
  assumes "one_level R v"
  shows "\<exists>w. put_current R x v = Inr w \<and> put_if_current R x v = Inr w \<and> one_level R w \<and>
    cursor_of R w = put_at R x (cursor_of R v)"
proof (cases "v_current v = Some []")
  case True
  then show ?thesis
    by (auto simp: put_current_def put_if_current_def one_level_def cursor_of_def put_at_def split: content.split)
next
  case False
  with assms obtain k where k: "v_current v = Some [k]" "is_object R (v_document v)"
    "rj_has_member R (v_document v) k" "\<not> v_empty v" by (auto simp: one_level_def)
  let ?w = "v\<lparr>v_document := rj_put_member R k x (v_document v)\<rparr>"
  have "put_current R x v = Inr ?w" "put_if_current R x v = Inr ?w"
    using k by (simp_all add: put_current_def put_if_current_def)
  moreover have "one_level R ?w"
    using k by (simp add: one_level_def is_object_def type_put has_put)
  moreover have "cursor_of R ?w = put_at R x (cursor_of R v)"
    using k by (simp add: cursor_of_def put_at_def content_of_put) (simp add: content_of_def)
  ultimately show ?thesis by blast
qed

lemma index_refines:
  assumes "one_level R v"
  shows "implements R (index_Value R k v) (select_key R (c_str k) (cursor_of R v))"
proof -
  let ?d = "v_document (v_ensure R v)"
  note beg = ensure_begins [OF assms, symmetric]
  show ?thesis
  proof (cases "is_object R ?d")
    case False
    then show ?thesis
      unfolding select_key_def beg
      by (simp add: index_Value_def Let_def has_member_def cursor_of_def content_of_def)
  next
    case True
    then show ?thesis
      unfolding select_key_def beg
      by (cases "rj_has_member R ?d (c_str k)")
        (simp_all add: index_Value_def Let_def has_member_def cursor_of_def content_of_add one_level_def
          is_object_def type_add has_add, simp_all add: cursor_of_def content_of_def is_object_def)
  qed
qed

lemma value_op_refines:
  assumes "one_level R v"
  shows "implements R (run_value_op R op v) (cursor_op R op (cursor_of R v))"
proof -
  have put: "implements R (put_if_current R x (v_ensure R v)) (Some (put_at R x (begin_use (cursor_of R v))))" for x
    using put_refines [OF one_level_ensure [OF assms], of x] ensure_begins [OF assms] by auto
  have null: "implements R (put_current R x v) (Some (put_at R x (cursor_of R v)))" for x
    using put_refines [OF assms, of x] by auto
  note [simp] = set_string_def set_cstr_def set_int_def set_double_def set_bool_def set_opt_string_def
    set_opt_int_def set_opt_double_def set_opt_bool_def set_vec_Value_def set_vec_string_def set_vec_int_def
    set_vec_double_def set_vec_bool_def cursor_op_def put null
  show ?thesis
  proof (cases op)
    case (V_opt_string s) then show ?thesis by (cases s) simp_all
  next
    case (V_opt_int i) then show ?thesis by (cases i) simp_all
  next
    case (V_opt_double x) then show ?thesis by (cases x) simp_all
  next
    case (V_opt_bool t) then show ?thesis by (cases t) simp_all
  next
    case (V_index k) then show ?thesis using index_refines [OF assms] by simp
  next
    case V_assign_self then show ?thesis using assms by (simp add: assign_Value_def)
  next
    case (V_assign other) then show ?thesis by (simp add: assign_Value_def one_level_def cursor_of_def)
  next
    case V_copy then show ?thesis by (simp add: copy_Value_def one_level_def cursor_of_def)
  qed simp_all
qed

lemma value_ops_refine:
  "one_level R v \<Longrightarrow> implements R (run_value R ops v) (cursor_ops R ops (cursor_of R v))"
proof (induction ops arbitrary: v)
  case (Cons op ops)
  from value_op_refines [OF Cons.prems, of op] Cons.IH show ?case
    by (cases "run_value_op R op v") (simp_all add: run_value_def)
qed (simp add: run_value_def)

lemma one_level_reads:
  assumes "one_level R v"
  shows "case (at_key (cursor_of R v), content (cursor_of R v)) of
      (Some k, Members m) \<Rightarrow> \<exists>x. m k = Some x \<and> current R v = Inr x
    | (Some k, Single x) \<Rightarrow> False
    | _ \<Rightarrow> current R v = Inr (v_document v)"
  using assms by (auto simp: one_level_def cursor_of_def content_of_def current_def split: content.split)

lemma fresh_value_refines: "implements R (run_value R ops (make_Value R)) (cursor_ops R ops new_cursor)"
  using value_ops_refine [OF one_level_make] by (simp add: cursor_of_make)

end

section \<open>Properties\<close>

text \<open>C21. A \<open>Value\<close> implements the cursor: any sequence of its operations on a fresh value fails exactly when
  the specification selects a key of a single value, and otherwise what it leaves, its members and
  their contents, the member selected and whether it counts as fresh, is what the specification
  computes; and what \<open>As\<close> reads at a key is the content of the specification there.\<close>

theorem value_refines_cursor:
  assumes "rapidjson_laws R"
  shows "case run_value R ops (make_Value R) of
      Inr v \<Rightarrow> cursor_ops R ops new_cursor = Some (cursor_of R v) \<and>
        (case (at_key (cursor_of R v), content (cursor_of R v)) of
           (Some k, Members m) \<Rightarrow> \<exists>x. m k = Some x \<and> current R v = Inr x
         | (Some k, Single x) \<Rightarrow> False
         | _ \<Rightarrow> current R v = Inr (v_document v))
    | Inl e \<Rightarrow> e = Rapidjson_assert ''IsObject()'' \<and> cursor_ops R ops new_cursor = None"
  using rapidjson_laws.fresh_value_refines [OF assms, of ops] rapidjson_laws.one_level_reads [OF assms]
  by (cases "run_value R ops (make_Value R)") auto

theorem value_refines_cursor_witness:
  "case run_value plain_json [V_index ''a'', V_opt_int None, V_index ''b'', V_vec_int [1, 2]] (make_Value plain_json) of
      Inr v \<Rightarrow> cursor_ops plain_json [V_index ''a'', V_opt_int None, V_index ''b'', V_vec_int [1, 2]] new_cursor =
          Some (cursor_of plain_json v) \<and>
        (case (at_key (cursor_of plain_json v), content (cursor_of plain_json v)) of
           (Some k, Members m) \<Rightarrow> \<exists>x. m k = Some x \<and> current plain_json v = Inr x
         | (Some k, Single x) \<Rightarrow> False
         | _ \<Rightarrow> current plain_json v = Inr (v_document v))
    | Inl e \<Rightarrow> e = Rapidjson_assert ''IsObject()'' \<and>
        cursor_ops plain_json [V_index ''a'', V_opt_int None, V_index ''b'', V_vec_int [1, 2]] new_cursor = None"
  by (rule value_refines_cursor) (rule plain_json_laws)

text \<open>So a second \<open>[]\<close> does not descend: \<open>value["a"]["b"] = i\<close> on a fresh value makes \<open>a\<close> null and puts the
  number beside it.\<close>

theorem second_index_is_beside:
  assumes "rapidjson_laws R" and "run_value R [V_index a, V_index b, V_int i] (make_Value R) = Inr v"
    and "c_str a \<noteq> c_str b"
  shows "content_of R (v_document v) = Members [c_str a \<mapsto> rj_null R, c_str b \<mapsto> rj_int R i]"
proof -
  have "implements R (Inr v) (cursor_ops R [V_index a, V_index b, V_int i] new_cursor)"
    using rapidjson_laws.fresh_value_refines [OF assms(1), of "[V_index a, V_index b, V_int i]"] assms(2) by simp
  with assms(3) show ?thesis
    by (auto simp: cursor_op_def select_key_def begin_use_def new_cursor_def put_at_def cursor_of_def)
qed

theorem second_index_is_beside_witness:
  "\<exists>v. run_value plain_json [V_index ''a'', V_index ''b'', V_int 1] (make_Value plain_json) = Inr v \<and>
     content_of plain_json (v_document v) = Members [''a'' \<mapsto> rj_null plain_json, ''b'' \<mapsto> rj_int plain_json 1]"
proof -
  have "\<exists>v. run_value plain_json [V_index ''a'', V_index ''b'', V_int 1] (make_Value plain_json) = Inr v"
    by (simp add: run_value_def index_Value_def make_Value_def v_ensure_def plain_json_sel Let_def set_int_def
        put_if_current_def c_str_def)
  then obtain v where v: "run_value plain_json [V_index ''a'', V_index ''b'', V_int 1] (make_Value plain_json) = Inr v"
    by blast
  from second_index_is_beside [OF plain_json_laws v] v show ?thesis by (simp add: c_str_def)
qed

end
