(* ===== verification/Json_Statements.thy ===== *)
theory Json_Statements
  imports Json_Builder_Spec
begin

text \<open>
  Sequences of the statements \<open>json[k1]...[kn] = v\<close> and \<open>json[k1]...[kn].CreateJsonObject()\<close> on a
  \<open>ValueBuilder\<close>: what they write one after the other, and that no sequence of them changes the type of
  a member that exists.
\<close>

section \<open>Members written one after the other\<close>

lemma diverges_sym: "diverges p q \<Longrightarrow> diverges q p"
  by (induction p q rule: diverges.induct) auto

lemma diverges_not_Nil [simp]: "\<not> diverges p []" "\<not> diverges [] p"
  by (cases p; simp)+

lemma diverges_butlast:
  "diverges p q \<Longrightarrow> diverges p (butlast q) \<or> (\<exists>r. r \<noteq> [] \<and> p = butlast q @ r)"
proof (induction p q rule: diverges.induct)
  case (1 a p b q)
  show ?case
  proof (cases "q = []")
    case False
    with 1 show ?thesis by (cases "a = b") auto
  qed simp
qed auto

text \<open>An object stands at position \<open>p\<close>.\<close>

definition object_at :: "'v rapidjson \<Rightarrow> 'v \<Rightarrow> path \<Rightarrow> bool" where
  "object_at R d p = (\<exists>nv. deref R p d = Inr nv \<and> is_object R nv)"

text \<open>A builder between two statements.\<close>

definition ready :: "'v rapidjson \<Rightarrow> 'v ValueBuilder \<Rightarrow> bool" where
  "ready R b = (builder_ok R b \<and> value_nodes b = [])"

text \<open>\<open>p\<close> is a free place: its parent is an object that has no such member.\<close>

definition free_place :: "'v rapidjson \<Rightarrow> 'v \<Rightarrow> path \<Rightarrow> bool" where
  "free_place R d p = (p \<noteq> [] \<and> map c_str p = p \<and> object_at R d (butlast p) \<and> \<not> live R d p)"

text \<open>\<open>d'\<close> is \<open>d\<close> with \<open>x\<close> at \<open>p\<close>.\<close>

definition written :: "'v rapidjson \<Rightarrow> path \<Rightarrow> 'v \<Rightarrow> 'v \<Rightarrow> 'v \<Rightarrow> bool" where
  "written R p x d d' = (deref R p d' = Inr x \<and> (\<forall>q. diverges p q \<longrightarrow> deref R q d' = deref R q d))"

lemma object_above: "live R d (p @ r) \<Longrightarrow> r \<noteq> [] \<Longrightarrow> object_at R d p"
  by (cases r) (auto simp: live_append object_at_def)

lemma written_free:
  assumes "written R p x d d'" and "free_place R d q" and "diverges p q"
  shows "free_place R d' q"
proof -
  have lv: "live R d' p" using assms(1) by (simp add: written_def live_def)
  from diverges_butlast [OF assms(3)] have "object_at R d' (butlast q)"
  proof
    assume "diverges p (butlast q)"
    with assms(1,2) show ?thesis by (simp add: written_def free_place_def object_at_def)
  next
    assume "\<exists>r. r \<noteq> [] \<and> p = butlast q @ r"
    then obtain r where "r \<noteq> []" "p = butlast q @ r" by blast
    with lv show ?thesis by (auto intro: object_above)
  qed
  moreover have "\<not> live R d' q"
    using assms by (simp add: written_def free_place_def live_def)
  ultimately show ?thesis using assms(2) by (simp add: free_place_def)
qed

lemma free_assignable:
  "free_place R d (P @ [k]) \<Longrightarrow> assignable R (map c_str P) (c_str k) T d"
  by (auto simp: free_place_def object_at_def assignable_def live_append)

context rapidjson_laws
begin

lemma assign_free:
  assumes "ready R b" and "free_place R (document b) p"
  shows "\<exists>b'. assign_at R p v b = Inr b' \<and> ready R b' \<and> cerr b' = cerr b \<and>
    written R p (scalar_value R v) (document b) (document b')"
proof -
  from assms(2) obtain P k where p: "p = P @ [k]" by (metis free_place_def append_butlast_last_id)
  from assms(2) have c: "map c_str p = p" by (simp add: free_place_def)
  have asg: "assignable R (map c_str P) (c_str k) (scalar_types v) (document b)"
    using assms(2) unfolding p by (rule free_assignable)
  from assign_at_writes [of b P k v] assms(1) asg show ?thesis
    unfolding p [symmetric] c by (auto simp: ready_def written_def)
qed

lemma create_free:
  assumes "ready R b" and "free_place R (document b) p"
  shows "\<exists>b'. create_at R p b = Inr b' \<and> ready R b' \<and> cerr b' = cerr b \<and>
    written R p (rj_object R) (document b) (document b')"
proof -
  from assms(2) obtain P k where p: "p = P @ [k]" by (metis free_place_def append_butlast_last_id)
  from assms(2) have c: "map c_str p = p" by (simp add: free_place_def)
  have asg: "assignable R (map c_str P) (c_str k) {} (document b)"
    using assms(2) unfolding p by (rule free_assignable)
  from create_at_writes [of b P k] assms(1) asg show ?thesis
    unfolding p [symmetric] c by (auto simp: ready_def written_def)
qed


text \<open>Statements on places that are free at the beginning and part from each other.\<close>

lemma assign_members:
  assumes "ready R b" and "\<forall>m \<in> set ms. free_place R (document b) (fst m)"
    and "sorted_wrt (\<lambda>m n. diverges (fst m) (fst n)) ms"
  shows "\<exists>b'. for_result (\<lambda>(ks, v). assign_at R ks v) ms b = Inr b' \<and> ready R b' \<and> cerr b' = cerr b \<and>
    (\<forall>m \<in> set ms. deref R (fst m) (document b') = Inr (scalar_value R (snd m))) \<and>
    (\<forall>q. (\<forall>m \<in> set ms. diverges (fst m) q) \<longrightarrow> deref R q (document b') = deref R q (document b))"
  using assms
proof (induction ms arbitrary: b)
  case Nil
  then show ?case by simp
next
  case (Cons m ms)
  obtain ks v where m: "m = (ks, v)" by (cases m)
  from Cons.prems m have "free_place R (document b) ks" by simp
  from assign_free [OF Cons.prems(1) this, of v] obtain b1
    where b1: "assign_at R ks v b = Inr b1" "ready R b1" "cerr b1 = cerr b"
      "written R ks (scalar_value R v) (document b) (document b1)" by blast
  have div: "\<forall>n \<in> set ms. diverges ks (fst n)" using Cons.prems(3) m by simp
  have "\<forall>n \<in> set ms. free_place R (document b1) (fst n)"
    using written_free [OF b1(4)] div Cons.prems(2) by simp
  from Cons.IH [OF b1(2) this] Cons.prems(3) obtain b'
    where b': "for_result (\<lambda>(ks, v). assign_at R ks v) ms b1 = Inr b'" "ready R b'" "cerr b' = cerr b1"
      "\<forall>m \<in> set ms. deref R (fst m) (document b') = Inr (scalar_value R (snd m))"
      "\<forall>q. (\<forall>m \<in> set ms. diverges (fst m) q) \<longrightarrow> deref R q (document b') = deref R q (document b1)"
    by auto
  have "deref R ks (document b') = Inr (scalar_value R v)"
    using b'(5) b1(4) div diverges_sym unfolding written_def by metis
  moreover have "deref R q (document b') = deref R q (document b)"
    if "\<forall>n \<in> set (m # ms). diverges (fst n) q" for q
    using that b'(5) b1(4) m by (simp add: written_def)
  ultimately show ?case using b1 b' m by auto
qed

end

section \<open>The type of a member\<close>

text \<open>The two boolean types count as one.\<close>

definition json_kind :: "'v rapidjson \<Rightarrow> 'v \<Rightarrow> int" where
  "json_kind R v = (if rj_type R v = 2 then 1 else rj_type R v)"

definition kind_at :: "'v rapidjson \<Rightarrow> 'v \<Rightarrow> path \<Rightarrow> int option" where
  "kind_at R d p = (case deref R p d of Inl e \<Rightarrow> None | Inr v \<Rightarrow> Some (json_kind R v))"

text \<open>A statement on a non-empty chain; \<open>None\<close> stands for \<open>CreateJsonObject\<close>.\<close>

definition statement :: "'v rapidjson \<Rightarrow> string list \<times> scalar option \<Rightarrow> 'v ValueBuilder \<Rightarrow> 'v ValueBuilder result" where
  "statement R st b = (case st of (ks, None) \<Rightarrow> create_at R ks b | (ks, Some v) \<Rightarrow> assign_at R ks v b)"

lemma diverges_cases:
  obtains "diverges p q" | r where "q = p @ r" | r where "r \<noteq> []" and "p = q @ r"
proof -
  have "diverges p q \<or> (\<exists>r. q = p @ r) \<or> (\<exists>r. r \<noteq> [] \<and> p = q @ r)"
    by (induction p q rule: diverges.induct) auto
  then show thesis using that by blast
qed

lemma kind_at_object: "object_at R d p \<Longrightarrow> kind_at R d p = Some 3"
  by (auto simp: object_at_def kind_at_def json_kind_def is_object_def)

lemma kind_at_below: "deref R p d = Inr v \<Longrightarrow> \<not> is_object R v \<Longrightarrow> r \<noteq> [] \<Longrightarrow> kind_at R d (p @ r) = None"
  by (cases r) (auto simp: kind_at_def deref_append)

lemma kind_at_absent: "\<not> live R d p \<Longrightarrow> kind_at R d (p @ r) = None"
  by (cases "deref R p d") (auto simp: kind_at_def live_def deref_append)

lemma scalar_kind:
  "json_value_type (rj_type R x) \<in> scalar_types v \<Longrightarrow> json_value_type (rj_type R y) \<in> scalar_types v \<Longrightarrow>
     json_kind R x = json_kind R y"
  by (cases v) (auto simp: json_kind_def json_value_type_def split: if_splits)

lemma scalar_no_object: "json_value_type (rj_type R x) \<in> scalar_types v \<Longrightarrow> \<not> is_object R x"
  by (cases v) (auto simp: is_object_def json_value_type_def)

context rapidjson_laws
begin

text \<open>A chain that returns has walked along objects that exist.\<close>

lemma index_all_walked:
  assumes "builder_ok R b" and "index_all R (ks @ [k]) b = Inr b1"
  shows "object_at R (document b) (GetNodeValue b @ map c_str ks)"
  using assms
proof (induction ks arbitrary: b)
  case Nil
  from Nil.prems(1) show ?case
  proof (cases rule: index_builder_cases [where key = k])
    case 1
    with Nil.prems(2) show ?thesis by (simp add: index_all_def)
  next
    case 2
    then show ?thesis by (auto simp: object_at_def)
  qed
next
  case (Cons j ks)
  note ok = Cons.prems(1)
  from Cons.prems(2) obtain b2 where b2: "index_builder R j b = Inr b2" "index_all R (ks @ [k]) b2 = Inr b1"
    by (auto simp: index_all_def result_simps)
  have walked: "object_at R (document b2) (GetNodeValue b @ c_str j # map c_str ks)"
    using Cons.IH [OF index_builder_ok [OF ok b2(1)] b2(2)] GetNodeValue_index [OF ok b2(1)] by simp
  from builder_ok_node_live [OF ok] obtain nv where nv: "deref R (GetNodeValue b) (document b) = Inr nv"
    by (auto simp: live_def)
  have obj: "is_object R nv"
    using index_builder_reject [OF ok nv, of j] b2(1) by fastforce
  show ?case
  proof (cases "rj_has_member R nv (c_str j)")
    case True
    from index_builder_hit [OF ok nv obj True] b2(1) walked show ?thesis
      by (auto simp: ensure_object_document [OF ok])
  next
    case False
    let ?o = "rj_add_member R (c_str j) (rj_null R) nv"
    from store_live [OF builder_ok_node_live [OF ok]]
    obtain d where d: "store R ?o (GetNodeValue b) (document b) = Inr d" by blast
    from index_builder_new [OF ok nv obj False d] b2(1) have "document b2 = d" by auto
    moreover have "deref R (GetNodeValue b @ c_str j # map c_str ks) d = deref R (c_str j # map c_str ks) ?o"
      by (rule deref_store_below [OF d])
    moreover have "\<dots> = deref R (map c_str ks) (rj_null R)"
      using obj False by (simp add: is_object_def type_add has_add member_add)
    ultimately have "object_at R (rj_null R) (map c_str ks)" using walked by (simp add: object_at_def)
    then show ?thesis by (cases ks) (auto simp: object_at_def is_object_def type_null)
  qed
qed

lemma index_all_ok: "builder_ok R b \<Longrightarrow> index_all R ks b = Inr b1 \<Longrightarrow> builder_ok R b1"
  unfolding index_all_def
  by (erule for_result_invariant [where P = "builder_ok R"]) (auto intro: index_builder_ok)

lemma assign_at_ready:
  "ready R b \<Longrightarrow> assign_at R ks v b = Inr b' \<Longrightarrow> ready R b'"
proof -
  assume r: "ready R b" and eq: "assign_at R ks v b = Inr b'"
  then obtain b1 where b1: "index_all R ks b = Inr b1" "assign R v b1 = Inr b'"
    by (auto simp: assign_at_def result_simps)
  have ok1: "builder_ok R b1"
    using b1(1) r index_all_ok by (auto simp: ready_def)
  then obtain p where cur: "current_value b1 = Some p" by (auto simp: builder_ok_def)
  obtain rt where rt: "assign R v = assign_scalar R (insert kUnknown (scalar_types v)) rt (scalar_value R v)"
    by (rule assign_eq_scalar)
  have "value_nodes b' = []"
    using assign_scalar_eq [OF ok1 cur, of "insert kUnknown (scalar_types v)" "scalar_value R v" rt] b1(2)
    unfolding rt by auto
  with assign_ok [OF ok1, of v] b1(2) show "ready R b'" by (auto simp: ready_def)
qed

text \<open>A write at a place that is free or holds a value of the same kind changes no kind.\<close>

lemma written_kinds:
  assumes "written R (P @ [k]) x d d'" and "object_at R d P"
    and "live R d (P @ [k]) \<Longrightarrow> \<exists>v. deref R (P @ [k]) d = Inr v \<and> \<not> is_object R v \<and> json_kind R v = json_kind R x"
    and "kind_at R d q = Some n"
  shows "kind_at R d' q = Some n"
proof (cases rule: diverges_cases [of "P @ [k]" q])
  case 1
  with assms(1,4) show ?thesis by (simp add: written_def kind_at_def)
next
  case (2 r)
  with assms(4) kind_at_absent have lv: "live R d (P @ [k])" by fastforce
  from assms(3) [OF lv] obtain v where v: "deref R (P @ [k]) d = Inr v" "\<not> is_object R v" "json_kind R v = json_kind R x"
    by blast
  then have "r = []" using kind_at_below [OF v(1,2)] assms(4) 2 by fastforce
  with 2 v assms(1,4) show ?thesis by (simp add: written_def kind_at_def)
next
  case (3 r)
  then obtain r' where P: "P = q @ r'" by (cases r rule: rev_cases) auto
  have "live R d (q @ r')" using assms(2) P by (auto simp: object_at_def live_def)
  then have "object_at R d q"
    using assms(2) P by (cases "r' = []") (auto intro: object_above)
  moreover have "object_at R d' q"
    using assms(1) 3 by (intro object_above [of R d' q r]) (auto simp: written_def live_def)
  ultimately show ?thesis using assms(4) by (simp add: kind_at_object)
qed

lemma statement_kinds:
  assumes r: "ready R b" and st: "statement R (ks @ [k], v) b = Inr b'"
  shows "ready R b' \<and> (\<forall>q n. kind_at R (document b) q = Some n \<longrightarrow> kind_at R (document b') q = Some n)"
proof -
  let ?P = "map c_str ks"
  from r have ok: "builder_ok R b" "value_nodes b = []" by (simp_all add: ready_def)
  from st obtain b1 where b1: "index_all R (ks @ [k]) b = Inr b1"
    by (auto simp: statement_def create_at_def assign_at_def result_simps split: option.splits)
  from index_all_walked [OF ok(1) b1] ok(2) have obj: "object_at R (document b) ?P"
    by (simp add: GetNodeValue_def)
  then obtain nv where nv: "deref R ?P (document b) = Inr nv" "is_object R nv" by (auto simp: object_at_def)
  have lv: "live R (document b) (?P @ [c_str k]) \<longleftrightarrow> rj_has_member R nv (c_str k)"
    using nv by (simp add: live_append)
  show ?thesis
  proof (cases v)
    case None
    with st have eq: "create_at R (ks @ [k]) b = Inr b'" by (simp add: statement_def)
    show ?thesis
    proof (cases "rj_has_member R nv (c_str k)")
      case True
      with create_at_keeps [OF ok nv True] eq have same: "document b' = document b" "value_nodes b' = []" by auto
      moreover have "builder_ok R b'"
        using eq b1 CreateJsonObject_ok [OF index_all_ok [OF ok(1) b1]] by (auto simp: create_at_def)
      ultimately show ?thesis by (simp add: ready_def)
    next
      case False
      with nv have "assignable R ?P (c_str k) {} (document b)" by (simp add: assignable_def)
      from create_at_writes [OF ok this] eq have "ready R b'"
        and w: "written R (?P @ [c_str k]) (rj_object R) (document b) (document b')"
        by (auto simp: ready_def written_def)
      with written_kinds [OF w obj] lv False show ?thesis by blast
    qed
  next
    case (Some x)
    with st have eq: "assign_at R (ks @ [k]) x b = Inr b'" by (simp add: statement_def)
    note ready' = assign_at_ready [OF r eq]
    show ?thesis
    proof (cases "assignable R ?P (c_str k) (scalar_types x) (document b)")
      case True
      from assign_at_writes [OF ok True] eq
      have w: "written R (?P @ [c_str k]) (scalar_value R x) (document b) (document b')"
        by (auto simp: written_def)
      have "\<exists>u. deref R (?P @ [c_str k]) (document b) = Inr u \<and> \<not> is_object R u \<and>
          json_kind R u = json_kind R (scalar_value R x)" if "live R (document b) (?P @ [c_str k])"
      proof -
        from that lv True nv have ty: "json_value_type (rj_type R (rj_member R nv (c_str k))) \<in> scalar_types x"
          and has: "rj_has_member R nv (c_str k)" by (auto simp: assignable_def)
        from scalar_no_object [OF ty] scalar_kind [OF ty json_value_type_scalar [OF rapidjson_laws_axioms]] nv has
        show ?thesis by (simp add: deref_append)
      qed
      from written_kinds [OF w obj this] ready' show ?thesis by blast
    next
      case False
      with nv have "rj_has_member R nv (c_str k)"
        "json_value_type (rj_type R (rj_member R nv (c_str k))) \<notin> scalar_types x"
        by (auto simp: assignable_def)
      from assign_at_rejects [OF ok nv this] eq ready' show ?thesis by auto
    qed
  qed
qed

end

section \<open>Properties\<close>

text \<open>C12. The types of a document are stable: whatever statements \<open>json[k1]...[kn] = v\<close> and
  \<open>CreateJsonObject\<close> are executed one after the other, every position that exists keeps its type, null
  included, as long as no statement fails.\<close>

theorem statements_keep_types:
  assumes "rapidjson_laws R" and "ready R b" and "\<forall>st \<in> set sts. fst st \<noteq> []"
    and "for_result (statement R) sts b = Inr b'" and "kind_at R (document b) p = Some n"
  shows "kind_at R (document b') p = Some n"
proof -
  have step: "ready R t \<and> kind_at R (document t) p = Some n"
    if "st \<in> set sts" "ready R s \<and> kind_at R (document s) p = Some n" "statement R st s = Inr t" for st s t
  proof -
    obtain ks v where st: "st = (ks, v)" by (cases st)
    with assms(3) that(1) obtain js k where "ks = js @ [k]" by (cases ks rule: rev_cases) force+
    with rapidjson_laws.statement_kinds [OF assms(1), of s js k v t] that st show ?thesis by simp
  qed
  have "ready R b' \<and> kind_at R (document b') p = Some n"
    by (rule for_result_invariant [OF assms(4), where P = "\<lambda>b. ready R b \<and> kind_at R (document b) p = Some n"])
      (use assms(2,5) step in blast)+
  then show ?thesis ..
qed

theorem statements_keep_types_witness:
  "\<exists>b. for_result (statement plain_json) [([''n''], Some (S_cstr ''x'')), ([''o''], None), ([''o'', ''m''], Some (S_bool True))]
       ((make_ValueBuilder plain_json)\<lparr>document := DObject [(''n'', DInt 1)], is_empty := False\<rparr>) = Inr b \<and>
     kind_at plain_json (document b) [''n''] = Some 6"
proof -
  let ?b = "(make_ValueBuilder plain_json)\<lparr>document := DObject [(''n'', DInt 1)], is_empty := False\<rparr>"
  let ?sts = "[([''n''], Some (S_cstr ''x'')), ([''o''], None), ([''o'', ''m''], Some (S_bool True))]"
  have "\<exists>b. for_result (statement plain_json) ?sts ?b = Inr b"
    by (simp add: statement_def statement_eval)
  then obtain b where b: "for_result (statement plain_json) ?sts ?b = Inr b" by blast
  have "kind_at plain_json (document b) [''n''] = Some 6"
  proof (rule statements_keep_types [OF plain_json_laws _ _ b])
    show "ready plain_json ?b" by (simp add: ready_def builder_ok_def make_ValueBuilder_def)
  qed (simp_all add: kind_at_def json_kind_def plain_json_sel)
  with b show ?thesis by blast
qed

text \<open>The guarantee is one of whole statements: a reference that is kept can change the type of its
  member. After a \<open>bool\<close> or a \<open>const char*\<close> the operators do not note the type, after a number they do.\<close>

theorem kept_reference_changes_type:
  "map_sum id document (run_ops plain_json [Op_index ''x'', Op_assign (S_bool True), Op_assign (S_int 5)]
       (make_ValueBuilder plain_json)) = Inr (DObject [(''x'', DInt 5)]) \<and>
   map_sum id document (run_ops plain_json [Op_index ''x'', Op_assign (S_int 5), Op_assign (S_bool True)]
       (make_ValueBuilder plain_json)) = Inr (DObject [(''x'', DInt 5)])"
  by (simp add: run_ops_def statement_eval)

end
