(* ===== verification/Json_Map.thy ===== *)
theory Json_Map
  imports Json_Statements
begin

text \<open>
  What a \<open>ValueBuilder\<close> promises to its users, without pointers, types of current members and chains: a
  finite map from positions to objects and leaves, and one equation for each statement
  \<open>json[k1]...[kn] = v\<close> and \<open>json[k1]...[kn].CreateJsonObject()\<close>. The definitions of \<open>Json_Builder\<close>
  (\<open>src/piconaut/formats/json/value_builder.cc\<close>) implement it.
\<close>

section \<open>The abstract document\<close>

datatype 'v entry = Obj | Leaf 'v

definition entry_of :: "'v rapidjson \<Rightarrow> 'v \<Rightarrow> 'v entry" where
  "entry_of R x = (if is_object R x then Obj else Leaf x)"

text \<open>The abstraction: the entry at every position, and what has been reported.\<close>

definition json_map :: "'v rapidjson \<Rightarrow> 'v \<Rightarrow> path \<Rightarrow> 'v entry option" where
  "json_map R d p = (case deref R p d of Inl e \<Rightarrow> None | Inr x \<Rightarrow> Some (entry_of R x))"

type_synonym 'v doc_state = "(path \<Rightarrow> 'v entry option) \<times> string list"

definition doc_of :: "'v rapidjson \<Rightarrow> 'v ValueBuilder \<Rightarrow> 'v doc_state" where
  "doc_of R b = (json_map R (document b), cerr b)"

section \<open>The specification of a statement\<close>

text \<open>A place takes a value when it is free, or when it has a leaf of the type of the scalar.\<close>

definition takes :: "'v rapidjson \<Rightarrow> scalar option \<Rightarrow> 'v entry option \<Rightarrow> bool" where
  "takes R v e =
     (case e of
        None \<Rightarrow> True
      | Some Obj \<Rightarrow> False
      | Some (Leaf x) \<Rightarrow>
          (case v of None \<Rightarrow> False | Some s \<Rightarrow> json_value_type (rj_type R x) \<in> scalar_types s))"

definition new_entry :: "'v rapidjson \<Rightarrow> scalar option \<Rightarrow> 'v entry" where
  "new_entry R v = (case v of None \<Rightarrow> Obj | Some s \<Rightarrow> Leaf (scalar_value R s))"

text \<open>\<open>None\<close>: the parent is no object, and the assertion fails.\<close>

definition doc_statement ::
  "'v rapidjson \<Rightarrow> string list \<times> scalar option \<Rightarrow> 'v doc_state \<Rightarrow> 'v doc_state option" where
  "doc_statement R st s =
     (let p = map c_str (fst st); m = fst s
      in if m (butlast p) \<noteq> Some Obj then None
         else if takes R (snd st) (m p) then Some (m(p \<mapsto> new_entry R (snd st)), snd s)
         else Some (m, snd s @ [type_message]))"

primrec doc_statements ::
  "'v rapidjson \<Rightarrow> (string list \<times> scalar option) list \<Rightarrow> 'v doc_state \<Rightarrow> 'v doc_state option" where
  "doc_statements R [] s = Some s"
| "doc_statements R (st # sts) s = Option.bind (doc_statement R st s) (doc_statements R sts)"

section \<open>The implementation\<close>

lemma diverges_irrefl [simp]: "\<not> diverges p p"
  by (induction p) auto

lemma json_map_object: "object_at R d p \<longleftrightarrow> json_map R d p = Some Obj"
  by (auto simp: object_at_def json_map_def entry_of_def split: sum.splits)

lemma json_map_Leaf: "json_map R d p = Some (Leaf x) \<longleftrightarrow> deref R p d = Inr x \<and> \<not> is_object R x"
  by (auto simp: json_map_def entry_of_def split: sum.splits)

lemma json_map_None: "json_map R d p = None \<longleftrightarrow> \<not> live R d p"
  by (auto simp: json_map_def live_def split: sum.splits)

lemma json_map_below: "json_map R d p = Some (Leaf x) \<Longrightarrow> r \<noteq> [] \<Longrightarrow> json_map R d (p @ r) = None"
  by (cases r) (auto simp: json_map_Leaf json_map_None live_append)

lemma json_map_absent: "json_map R d p = None \<Longrightarrow> json_map R d (p @ r) = None"
  using live_prefix [of R d p r] by (auto simp: json_map_None)

context rapidjson_laws
begin

text \<open>A write at a position that holds no object changes the map there and nowhere else.\<close>

lemma written_map:
  assumes "written R (P @ [k]) x d d'" and "object_at R d P" and "\<not> object_at R d (P @ [k])"
    and "\<And>j. is_object R x \<Longrightarrow> \<not> rj_has_member R x j"
  shows "json_map R d' = (json_map R d)(P @ [k] \<mapsto> entry_of R x)"
proof
  fix q
  show "json_map R d' q = ((json_map R d)(P @ [k] \<mapsto> entry_of R x)) q"
  proof (cases rule: diverges_cases [of "P @ [k]" q])
    case 1
    then have "q \<noteq> P @ [k]" by auto
    with 1 assms(1) show ?thesis by (simp add: written_def json_map_def)
  next
    case (2 r)
    show ?thesis
    proof (cases r)
      case Nil
      with 2 assms(1) show ?thesis by (simp add: written_def json_map_def)
    next
      case (Cons j r')
      have "json_map R d' q = None"
        using assms(1,4) live_append [of R d' "P @ [k]" r]
        unfolding json_map_None 2 Cons by (auto simp: written_def simp del: append_assoc)
      moreover have "json_map R d q = None"
      proof (cases "json_map R d (P @ [k])")
        case None
        then show ?thesis using json_map_absent [of R d "P @ [k]" r] 2 by simp
      next
        case (Some e)
        with assms(3) obtain y where "json_map R d (P @ [k]) = Some (Leaf y)"
          by (cases e) (auto simp: json_map_object)
        then show ?thesis using json_map_below [of R d "P @ [k]" y r] 2 Cons by simp
      qed
      ultimately show ?thesis using 2 Cons by simp
    qed
  next
    case (3 r)
    then obtain r' where P: "P = q @ r'" by (cases r rule: rev_cases) auto
    have "live R d (q @ r')" using assms(2) P by (auto simp: object_at_def live_def)
    then have "object_at R d q" using assms(2) P by (cases "r' = []") (auto intro: object_above)
    moreover have "object_at R d' q"
      using assms(1) 3 by (intro object_above [of R d' q r]) (auto simp: written_def live_def)
    moreover have "q \<noteq> P @ [k]" using 3 by auto
    ultimately show ?thesis by (simp add: json_map_object)
  qed
qed

lemma index_all_fails:
  "builder_ok R b \<Longrightarrow> index_all R ks b = Inl e \<Longrightarrow> e = Rapidjson_assert ''IsObject()''"
proof (induction ks arbitrary: b)
  case (Cons k ks)
  from Cons.prems(1) show ?case
  proof (cases rule: index_builder_cases [where key = k])
    case (2 nv d t)
    from index_builder_ok [OF Cons.prems(1) 2(3)] Cons.IH Cons.prems(2) 2(3) show ?thesis
      by (simp add: index_all_def)
  qed (use Cons.prems(2) in \<open>simp add: index_all_def\<close>)
qed (simp add: index_all_def)

text \<open>The chain of \<open>[]\<close> fails exactly when the parent is no object, and the operator after it never.\<close>

lemma index_all_iff:
  assumes "ready R b"
  shows "(\<exists>b1. index_all R (ks @ [k]) b = Inr b1) \<longleftrightarrow> object_at R (document b) (map c_str ks)"
proof
  assume "\<exists>b1. index_all R (ks @ [k]) b = Inr b1"
  with index_all_walked [of b ks k] assms show "object_at R (document b) (map c_str ks)"
    by (auto simp: ready_def GetNodeValue_def)
next
  assume "object_at R (document b) (map c_str ks)"
  then have "assignable R (map c_str ks) (c_str k) UNIV (document b)" by (simp add: assignable_def object_at_def)
  with index_all_leaf [of b ks k UNIV] assms show "\<exists>b1. index_all R (ks @ [k]) b = Inr b1"
    by (auto simp: ready_def)
qed

lemma statement_fails:
  assumes "ready R b" and "\<not> object_at R (document b) (map c_str ks)"
  shows "statement R (ks @ [k], v) b = Inl (Rapidjson_assert ''IsObject()'')"
proof -
  from index_all_iff [OF assms(1), of ks k] assms(2) obtain e where e: "index_all R (ks @ [k]) b = Inl e"
    by (cases "index_all R (ks @ [k]) b") auto
  with index_all_fails [of b] assms(1) have "e = Rapidjson_assert ''IsObject()''" by (simp add: ready_def)
  with e show ?thesis by (simp add: statement_def assign_at_def create_at_def split: option.split)
qed

lemma statement_returns:
  assumes "ready R b" and "object_at R (document b) (map c_str ks)"
  shows "\<exists>b'. statement R (ks @ [k], v) b = Inr b' \<and> ready R b' \<and>
    doc_statement R (ks @ [k], v) (doc_of R b) = Some (doc_of R b')"
proof -
  let ?P = "map c_str ks"
  from assms(1) have ok: "builder_ok R b" "value_nodes b = []" by (simp_all add: ready_def)
  from assms(2) obtain nv where nv: "deref R ?P (document b) = Inr nv" "is_object R nv" by (auto simp: object_at_def)
  from index_all_iff [OF assms(1)] assms(2) obtain b1 where b1: "index_all R (ks @ [k]) b = Inr b1" by blast
  have ok1: "builder_ok R b1" by (rule index_all_ok [OF ok(1) b1])
  obtain b' where b': "statement R (ks @ [k], v) b = Inr b'"
    using assign_ok [OF ok1] CreateJsonObject_ok [OF ok1] b1
    by (cases v) (auto simp: statement_def assign_at_def create_at_def)
  have rdy: "ready R b'" using statement_kinds [OF assms(1) b'] by simp
  have top: "json_map R (document b) ?P = Some Obj" using assms(2) by (simp add: json_map_object)
  have "doc_statement R (ks @ [k], v) (doc_of R b) = Some (doc_of R b')"
  proof (cases "rj_has_member R nv (c_str k)")
    case False
    then have "\<not> live R (document b) (?P @ [c_str k])" using nv by (simp add: live_append)
    then have free: "json_map R (document b) (?P @ [c_str k]) = None" by (simp add: json_map_None)
    have asg: "assignable R ?P (c_str k) T (document b)" for T using nv False by (simp add: assignable_def)
    have w: "written R (?P @ [c_str k]) (case v of None \<Rightarrow> rj_object R | Some s \<Rightarrow> scalar_value R s) (document b) (document b')
        \<and> cerr b' = cerr b"
    proof (cases v)
      case None
      with b' have "create_at R (ks @ [k]) b = Inr b'" by (simp add: statement_def)
      with create_at_writes [OF ok asg] None show ?thesis by (auto simp: written_def)
    next
      case (Some s)
      with b' have "assign_at R (ks @ [k]) s b = Inr b'" by (simp add: statement_def)
      with assign_at_writes [OF ok asg, of s] Some show ?thesis by (auto simp: written_def)
    qed
    have e: "entry_of R (case v of None \<Rightarrow> rj_object R | Some s \<Rightarrow> scalar_value R s) = new_entry R v"
      using scalar_no_object [OF json_value_type_scalar [OF rapidjson_laws_axioms]]
      by (auto simp: new_entry_def entry_of_def is_object_def type_object split: option.split)
    have "\<not> object_at R (document b) (?P @ [c_str k])" using free by (simp add: json_map_object)
    moreover have "\<not> rj_has_member R (case v of None \<Rightarrow> rj_object R | Some s \<Rightarrow> scalar_value R s) j"
      if "is_object R (case v of None \<Rightarrow> rj_object R | Some s \<Rightarrow> scalar_value R s)" for j
      using that scalar_no_object [OF json_value_type_scalar [OF rapidjson_laws_axioms]]
      by (cases v) (auto simp: has_object)
    ultimately have "json_map R (document b') = (json_map R (document b))(?P @ [c_str k] \<mapsto> new_entry R v)"
      using written_map [OF conjunct1 [OF w] assms(2)] e by metis
    with w top free show ?thesis by (simp add: doc_statement_def doc_of_def takes_def Let_def butlast_append)
  next
    case True
    let ?x = "rj_member R nv (c_str k)"
    have x: "deref R (?P @ [c_str k]) (document b) = Inr ?x" using nv True by (simp add: deref_append)
    then have here: "json_map R (document b) (?P @ [c_str k]) = Some (entry_of R ?x)" by (simp add: json_map_def)
    show ?thesis
    proof (cases "\<exists>s. v = Some s \<and> json_value_type (rj_type R ?x) \<in> scalar_types s")
      case ty: True
      then obtain s where s: "v = Some s" "json_value_type (rj_type R ?x) \<in> scalar_types s" by blast
      from scalar_no_object [OF s(2)] have leaf: "entry_of R ?x = Leaf ?x" by (simp add: entry_of_def)
      have "assignable R ?P (c_str k) (scalar_types s) (document b)" using nv s by (simp add: assignable_def)
      from assign_at_writes [OF ok this] b' s(1)
      have w: "written R (?P @ [c_str k]) (scalar_value R s) (document b) (document b')" "cerr b' = cerr b"
        by (auto simp: statement_def written_def)
      have no: "\<not> is_object R (scalar_value R s)"
        by (rule scalar_no_object [OF json_value_type_scalar [OF rapidjson_laws_axioms]])
      have "\<not> object_at R (document b) (?P @ [c_str k])" using here leaf by (simp add: json_map_object)
      then have "json_map R (document b') = (json_map R (document b))(?P @ [c_str k] \<mapsto> new_entry R v)"
        using written_map [OF w(1) assms(2)] no s(1) by (simp add: new_entry_def entry_of_def)
      with w(2) top here leaf s show ?thesis
        by (simp add: doc_statement_def doc_of_def takes_def Let_def butlast_append)
    next
      case False
      then have "document b' = document b \<and> cerr b' = cerr b @ [type_message]"
      proof (cases v)
        case None
        with b' create_at_keeps [OF ok nv True] show ?thesis by (auto simp: statement_def)
      next
        case (Some s)
        with b' assign_at_rejects [OF ok nv True, of s] False show ?thesis by (auto simp: statement_def)
      qed
      with False top here show ?thesis
        by (auto simp: doc_statement_def doc_of_def takes_def Let_def butlast_append entry_of_def split: option.split)
    qed
  qed
  with b' rdy show ?thesis by blast
qed

lemma statements_doc:
  assumes "ready R b" and "\<forall>st \<in> set sts. fst st \<noteq> []"
  shows "case for_result (statement R) sts b of
      Inr b' \<Rightarrow> ready R b' \<and> doc_statements R sts (doc_of R b) = Some (doc_of R b')
    | Inl e \<Rightarrow> e = Rapidjson_assert ''IsObject()'' \<and> doc_statements R sts (doc_of R b) = None"
  using assms
proof (induction sts arbitrary: b)
  case (Cons st sts)
  obtain ks k v where st: "st = (ks @ [k], v)"
    using Cons.prems(2) by (cases st) (metis append_butlast_last_id fst_conv list.set_intros(1))
  show ?case
  proof (cases "object_at R (document b) (map c_str ks)")
    case True
    from statement_returns [OF Cons.prems(1) True] obtain b' where b': "statement R st b = Inr b'" "ready R b'"
      "doc_statement R st (doc_of R b) = Some (doc_of R b')" unfolding st by blast
    with Cons.IH [OF b'(2)] Cons.prems(2) show ?thesis by (simp split: sum.splits)
  next
    case False
    then have "doc_statement R st (doc_of R b) = None"
      by (simp add: st doc_statement_def doc_of_def Let_def json_map_object butlast_append)
    with statement_fails [OF Cons.prems(1) False] show ?thesis by (simp add: st)
  qed
qed simp

end

lemma ready_make: "ready R (make_ValueBuilder R)"
  using builder_ok_make [of R] by (simp add: ready_def make_ValueBuilder_def)

section \<open>Properties\<close>

text \<open>C6. A builder implements a map of positions: a sequence of statements, of any length and on any chains of
  keys, fails exactly when the specification has a statement below something that is no object, and
  otherwise the document it leaves, seen as a map, and the reports it has made are those of the
  specification, in which each accepted statement sets one position and a refused one none.\<close>

theorem statements_refine_map:
  assumes "rapidjson_laws R" and "ready R b" and "\<forall>st \<in> set sts. fst st \<noteq> []"
  shows "case for_result (statement R) sts b of
      Inr b' \<Rightarrow> doc_statements R sts (doc_of R b) = Some (doc_of R b')
    | Inl e \<Rightarrow> e = Rapidjson_assert ''IsObject()'' \<and> doc_statements R sts (doc_of R b) = None"
  using rapidjson_laws.statements_doc [OF assms] by (auto split: sum.splits)

theorem statements_refine_map_witness:
  "case for_result (statement plain_json) [([''o''], None), ([''o'', ''n''], Some (S_int 1)), ([''o'', ''n''], Some (S_bool True))]
      (make_ValueBuilder plain_json) of
      Inr b' \<Rightarrow> doc_statements plain_json [([''o''], None), ([''o'', ''n''], Some (S_int 1)), ([''o'', ''n''], Some (S_bool True))]
        (doc_of plain_json (make_ValueBuilder plain_json)) = Some (doc_of plain_json b')
    | Inl e \<Rightarrow> e = Rapidjson_assert ''IsObject()'' \<and> doc_statements plain_json
        [([''o''], None), ([''o'', ''n''], Some (S_int 1)), ([''o'', ''n''], Some (S_bool True))]
        (doc_of plain_json (make_ValueBuilder plain_json)) = None"
  by (rule statements_refine_map [OF plain_json_laws])
    (simp_all add: ready_make)

end
