(* ===== verification/Query_Reference.thy ===== *)
theory Query_Reference
  imports Http_Message
begin

text \<open>
  What \<open>Request::GetQueryString\<close> computes (\<open>src/piconaut/http/request.cc\<close>), written without offsets:
  a reference over the text of the query and the readable bytes behind it, and the proof that the code is
  this reference for every query and every name.
\<close>

section \<open>The reference\<close>

text \<open>The text behind the first occurrence of the name, wherever that is.\<close>

fun behind :: "string \<Rightarrow> string \<Rightarrow> string option" where
  "behind name [] = (if name = [] then Some [] else None)"
| "behind name (c # q) =
     (if take (length name) (c # q) = name then Some (drop (length name) (c # q)) else behind name q)"

definition upto_amp :: "string \<Rightarrow> string" where
  "upto_amp = takeWhile (\<lambda>c. c \<noteq> CHR ''&'')"

text \<open>
  A query that ends with the name is continued in the bytes behind it: \<open>*found\<close> is the first of them, and
  with a \<open>=\<close> there the length given to \<open>memchr\<close> wraps around, so that it searches until the next \<open>&\<close>.
\<close>

definition query_value :: "string \<Rightarrow> string \<Rightarrow> string \<Rightarrow> string result" where
  "query_value name q beyond =
     (case behind name q of
        None \<Rightarrow> Inr []
      | Some (c # v) \<Rightarrow> Inr (if c = CHR ''='' then upto_amp v else [])
      | Some [] \<Rightarrow>
          (case beyond of
             [] \<Rightarrow> Inl (Undefined_read ''*found'')
           | c # bytes \<Rightarrow>
               if c \<noteq> CHR ''='' then Inr []
               else if CHR ''&'' \<in> set bytes then Inr (upto_amp bytes)
               else Inl (Undefined_read ''memchr'')))"

section \<open>Lemmas\<close>

lemma behind_Some:
  "behind name q = Some rest \<Longrightarrow> \<exists>as. q = as @ name @ rest \<and> (\<forall>j < length as. \<not> occurs_at q name j)"
proof (induction q)
  case Nil
  then show ?case by (auto split: if_splits)
next
  case (Cons c q)
  show ?case
  proof (cases "take (length name) (c # q) = name")
    case True
    with Cons.prems have "c # q = [] @ name @ rest" by (metis append_Nil append_take_drop_id behind.simps(2) option.inject)
    then show ?thesis by (intro exI [of _ "[]"]) simp
  next
    case False
    with Cons.prems have "behind name q = Some rest" by simp
    from Cons.IH [OF this] obtain as where as: "q = as @ name @ rest" "\<forall>j < length as. \<not> occurs_at q name j" by blast
    have "\<not> occurs_at (c # q) name j" if "j < length (c # as)" for j
      using that as(2) False by (cases j) (auto simp: occurs_at_0 occurs_at_Suc)
    with as(1) show ?thesis by (intro exI [of _ "c # as"]) simp
  qed
qed

lemma behind_None: "behind name q = None \<Longrightarrow> \<not> occurs_at q name i"
proof (induction q arbitrary: i)
  case (Cons c q)
  then show ?case by (cases i) (auto simp: occurs_at_0 occurs_at_Suc split: if_splits)
qed (auto simp: occurs_at_def split: if_splits)

lemma search_behind:
  assumes "substring_search search" and "length q < SIZE_MAX"
  shows "case behind name q of
      None \<Rightarrow> search q name = SIZE_MAX
    | Some rest \<Rightarrow> search q name \<noteq> SIZE_MAX \<and> q = take (search q name) q @ name @ rest \<and> search q name \<le> length q"
proof (cases "behind name q")
  case None
  with behind_None [OF None] substring_search.search_found [OF assms(1), of q name] show ?thesis by auto
next
  case (Some rest)
  then obtain as where as: "q = as @ name @ rest" "\<forall>j < length as. \<not> occurs_at q name j"
    using behind_Some by blast
  have "occurs_at q name (length as)" unfolding as(1) by (simp add: occurs_at_def)
  from substring_search.search_first [OF assms(1) this] as(2) assms(2) have "search q name = length as" by blast
  moreover have "take (length as) q = as" "length as \<le> length q" unfolding as(1) by simp_all
  ultimately show ?thesis using Some as(1) assms(2) by simp
qed

lemma upto_amp_split: "\<exists>rest. v = upto_amp v @ rest \<and> (rest = [] \<or> hd rest = CHR ''&'')"
  unfolding upto_amp_def
  by (intro exI [of _ "dropWhile (\<lambda>c. c \<noteq> CHR ''&'') v"]) (use hd_dropWhile [of "\<lambda>c. c \<noteq> CHR ''&''" v] in auto)

lemma amp_upto_amp: "CHR ''&'' \<notin> set (upto_amp v)"
  unfolding upto_amp_def by (auto dest: set_takeWhileD)

text \<open>The search from behind \<open>=\<close> inside the query, and in the bytes behind a query that ended before it.\<close>

lemma value_inside:
  assumes "length (as @ v @ beyond) < 2 ^ 63" and "n = length as + length v"
  shows "bind_result (memchr (as @ v @ beyond) (length as) (CHR ''&'') (length v))
      (\<lambda>e. string_of_mem (as @ v @ beyond) (length as)
         (size_sub (case e of None \<Rightarrow> n | Some p \<Rightarrow> p) (length as))) = Inr (upto_amp v)"
proof -
  obtain u rest where u: "upto_amp v = u" "v = u @ rest" "CHR ''&'' \<notin> set u" "rest = [] \<or> hd rest = CHR ''&''"
    using upto_amp_split [of v] amp_upto_amp [of v] by blast
  have "memchr (as @ v @ beyond) (length as) (CHR ''&'') (length v) =
      Inr (if rest = [] then None else Some (length as + length u))"
    using memchr_value [OF u(3,4), of as beyond] by (simp add: u(2))
  moreover have "string_of_mem (as @ v @ beyond) (length as) (length u) = Inr u"
    using assms by (simp add: string_of_mem_def u(2))
  ultimately show ?thesis unfolding u(1) by (cases "rest = []") (simp_all add: size_sub_def u(2) assms(2))
qed

lemma length_upto_amp: "CHR ''&'' \<in> set v \<Longrightarrow> length (upto_amp v) < length v"
  unfolding upto_amp_def by (induction v) auto

lemma value_outside:
  assumes "length (as @ bytes) < 2 ^ 63"
  shows "bind_result (memchr (as @ bytes) (length as) (CHR ''&'') SIZE_MAX)
      (\<lambda>e. string_of_mem (as @ bytes) (length as) (size_sub (case e of None \<Rightarrow> n | Some p \<Rightarrow> p) (length as))) =
    (if CHR ''&'' \<in> set bytes then Inr (upto_amp bytes) else Inl (Undefined_read ''memchr''))"
proof -
  have all: "take SIZE_MAX bytes = bytes" using assms by (simp add: SIZE_MAX_def)
  show ?thesis
  proof (cases "CHR ''&'' \<in> set bytes")
    case True
    let ?n = "length (upto_amp bytes)"
    have n: "?n < length bytes" by (rule length_upto_amp [OF True])
    then have "memchr (as @ bytes) (length as) (CHR ''&'') SIZE_MAX = Inr (Some (length as + ?n))"
      by (simp add: memchr_def Let_def all upto_amp_def)
    moreover have "string_of_mem (as @ bytes) (length as) ?n = Inr (upto_amp bytes)"
    proof -
      have "take ?n bytes = upto_amp bytes" by (metis upto_amp_def takeWhile_eq_take)
      with n assms show ?thesis by (simp add: string_of_mem_def)
    qed
    ultimately show ?thesis using True by (simp add: size_sub_def)
  next
    case False
    then have "takeWhile (\<lambda>c. c \<noteq> CHR ''&'') bytes = bytes" by (auto simp: takeWhile_eq_all_conv)
    then have "length (takeWhile (\<lambda>c. c \<noteq> CHR ''&'') bytes) = length bytes" by (rule arg_cong)
    with False assms show ?thesis by (simp add: memchr_def Let_def all) (simp add: SIZE_MAX_def)
  qed
qed

section \<open>Properties\<close>

text \<open>C33. \<open>GetQueryString\<close> is the reference: the text between the \<open>=\<close> behind the first occurrence of the name
  and the next \<open>&\<close>, and the empty string when the name does not occur or no \<open>=\<close> follows. Only when the
  query ends with the name the bytes behind the query decide: the value is then taken from them, or the
  read is undefined.\<close>

theorem GetQueryString_is_reference:
  assumes "substring_search (h2o_strstr api)" and "has_query req pre q beyond"
  shows "GetQueryString api req name = query_value name q beyond"
proof -
  note sizes = has_query_sizes [OF assms(2)]
  let ?at = "h2o_strstr api q name"
  show ?thesis
  proof (cases "behind name q")
    case None
    with search_behind [OF assms(1) sizes(4), of name] show ?thesis
      unfolding GetQueryString_def Let_def sizes(2,3) by (simp add: query_value_def)
  next
    case (Some rest)
    with search_behind [OF assms(1) sizes(4), of name]
    have at: "?at \<noteq> SIZE_MAX" "q = take ?at q @ name @ rest" "?at \<le> length q" by simp_all
    define as where "as = take ?at q @ name"
    have q: "q = as @ rest" using at(2) by (simp add: as_def)
    have len: "?at + length name = length as" using at(3) by (simp add: as_def)
    have code: "GetQueryString api req name =
        (if length (q @ beyond) \<le> length as then Inl (Undefined_read ''*found'')
         else if (q @ beyond) ! length as \<noteq> CHR ''='' then Inr []
         else bind_result (memchr (q @ beyond) (length as + 1) (CHR ''&'') (size_sub (length q) (length as + 1)))
           (\<lambda>e. string_of_mem (q @ beyond) (length as + 1)
              (size_sub (case e of None \<Rightarrow> length q | Some p \<Rightarrow> p) (length as + 1))))"
      unfolding GetQueryString_def Let_def sizes(2,3) using sizes(1) at(1) len by simp
    show ?thesis
    proof (cases rest)
      case (Cons c v)
      have "size_sub (length q) (length as + 1) = length v" unfolding q Cons by (simp add: size_sub_def)
      with value_inside [of "as @ [c]" v beyond "length (as @ c # v)"] sizes(5) show ?thesis
        unfolding code query_value_def Some unfolding q Cons by (cases "c = CHR ''=''") simp_all
    next
      case Nil
      show ?thesis
      proof (cases beyond)
        case (Cons c bytes)
        have "size_sub (length q) (length as + 1) = SIZE_MAX" unfolding q Nil by (simp add: size_sub_def SIZE_MAX_def)
        with value_outside [of "as @ [c]" bytes "length q"] sizes(5) show ?thesis
          unfolding code query_value_def Some unfolding q Nil Cons by (cases "c = CHR ''=''") simp_all
      qed (unfold code query_value_def Some, simp add: q Nil)
    qed
  qed
qed

theorem GetQueryString_is_reference_witness:
  "GetQueryString list_api ((plain_request ''GET'' ''/a'' [])
     \<lparr>path_mem := ''/a?x=3&id=5&y HTTP'', path_len := 13, query_at := 2\<rparr>) ''id'' = query_value ''id'' ''x=3&id=5&y'' '' HTTP'' \<and>
   GetQueryString list_api ((plain_request ''GET'' ''/a'' [])
     \<lparr>path_mem := ''/a?x=3&id=5&y HTTP'', path_len := 13, query_at := 2\<rparr>) ''id'' = Inr ''5''"
proof -
  have "GetQueryString list_api ((plain_request ''GET'' ''/a'' [])
     \<lparr>path_mem := ''/a?x=3&id=5&y HTTP'', path_len := 13, query_at := 2\<rparr>) ''id'' = query_value ''id'' ''x=3&id=5&y'' '' HTTP''"
    by (rule GetQueryString_is_reference [where pre = "''/a''"])
      (simp_all add: list_api_def scan.substring_search_axioms has_query_def plain_request_def)
  moreover have "query_value ''id'' ''x=3&id=5&y'' '' HTTP'' = Inr ''5''"
    by (simp add: query_value_def upto_amp_def)
  ultimately show ?thesis by simp
qed

text \<open>So a value can be taken from the bytes behind the query.\<close>

lemma query_value_leaks: "query_value ''id'' ''x=1&id'' ''=secret&'' = Inr ''secret''"
  by (simp add: query_value_def upto_amp_def)

end
