(* ===== verification/Net_Calls.thy ===== *)
theory Net_Calls
  imports Pico_Base
begin

text \<open>
  What the servers ask of the operating system and of h2o's event loop. The results are the
  environment \<open>net_env\<close>, a parameter; the calls are recorded in order. The part of \<open>Start\<close> that
  opens the listening socket is written the same way in both servers and defined once here.
\<close>

section \<open>Pointers and addresses\<close>

text \<open>A raw pointer member: not initialised yet, null, or some object.\<close>

datatype pointer = Indeterminate | Null | Ptr nat

definition is_null_ptr :: "pointer \<Rightarrow> bool result" where
  "is_null_ptr p = (case p of Indeterminate \<Rightarrow> Inl (Undefined_read ''uninitialised pointer'')
     | Null \<Rightarrow> Inr True | Ptr _ \<Rightarrow> Inr False)"

text \<open>\<open>htons\<close> on a little-endian host: the two bytes change places.\<close>

definition htons :: "uint16 \<Rightarrow> uint16" where
  "htons x = or (push_bit 8 x) (drop_bit 8 x)"

record sockaddr_in =
  sin_port :: uint16
  sin_addr :: "uint32 option"

text \<open>
  The environment: descriptors and return codes of the socket calls, the address \<open>inet_pton\<close>
  parses (if it does: its result is not looked at, and \<open>sin_addr\<close> stays unset, \<open>None\<close>), the
  pointers h2o returns for the n-th loop and the n-th socket, and whether h2o could register the
  host and create a handler.
\<close>

record net_env =
  socket_fd :: int
  bind_rc :: int
  listen_rc :: int
  inet_pton :: "string \<Rightarrow> uint32 option"
  evloop_create :: "nat \<Rightarrow> pointer"
  socket_create :: "nat \<Rightarrow> pointer"
  register_host :: pointer
  create_handler :: pointer

datatype net_call =
    C_config_init
  | C_register_host string int
  | C_socket int
  | C_bind int sockaddr_in int
  | C_listen int int
  | C_close int
  | C_evloop_create pointer
  | C_context_init nat pointer
  | C_socket_create pointer int
  | C_read_start pointer
  | C_thread_start nat
  | C_thread_join nat
  | C_destroy_queue pointer
  | C_context_dispose_copy nat
  | C_context_dispose
  | C_config_dispose
  | C_socket_close pointer
  | C_accept "pointer option" pointer
  | C_register_path string
  | C_create_handler string

text \<open>The conversions of \<open>addr.sin_port = htons(port_)\<close>: an \<open>int\<close> is passed as a 16-bit value.\<close>

definition make_addr :: "net_env \<Rightarrow> string \<Rightarrow> int \<Rightarrow> sockaddr_in" where
  "make_addr env host port = \<lparr>sin_port = htons (word_of_int port), sin_addr = inet_pton env host\<rparr>"

text \<open>\<open>socket\<close>, \<open>bind\<close>, \<open>listen\<close>: the calls made, and the descriptor or the exception.\<close>

definition open_listener :: "net_env \<Rightarrow> string \<Rightarrow> int \<Rightarrow> net_call list \<times> int result" where
  "open_listener env host port =
     (let addr = make_addr env host port; fd = socket_fd env
      in if fd < 0 then ([C_socket fd], Inl (Runtime_error ''Failed to create socket''))
         else if bind_rc env \<noteq> 0 then
           ([C_socket fd, C_bind fd addr (bind_rc env), C_close fd],
            Inl (Runtime_error ''Failed to bind to the specified host and port''))
         else if listen_rc env \<noteq> 0 then
           ([C_socket fd, C_bind fd addr (bind_rc env), C_listen fd (listen_rc env), C_close fd],
            Inl (Runtime_error ''Failed to listen on socket''))
         else ([C_socket fd, C_bind fd addr (bind_rc env), C_listen fd (listen_rc env)], Inr fd))"

section \<open>Descriptors that are open after a sequence of calls\<close>

primrec fd_effect :: "net_call \<Rightarrow> int list \<Rightarrow> int list" where
  "fd_effect C_config_init fds = fds"
| "fd_effect (C_register_host h p) fds = fds"
| "fd_effect (C_socket fd) fds = (if fd < 0 then fds else fd # fds)"
| "fd_effect (C_close fd) fds = remove1 fd fds"
| "fd_effect (C_bind _ _ _) fds = fds"
| "fd_effect (C_listen _ _) fds = fds"
| "fd_effect (C_evloop_create _) fds = fds"
| "fd_effect (C_context_init _ _) fds = fds"
| "fd_effect (C_socket_create _ _) fds = fds"
| "fd_effect (C_read_start _) fds = fds"
| "fd_effect (C_thread_start _) fds = fds"
| "fd_effect (C_thread_join _) fds = fds"
| "fd_effect (C_destroy_queue _) fds = fds"
| "fd_effect (C_context_dispose_copy _) fds = fds"
| "fd_effect C_context_dispose fds = fds"
| "fd_effect C_config_dispose fds = fds"
| "fd_effect (C_socket_close _) fds = fds"
| "fd_effect (C_accept _ _) fds = fds"
| "fd_effect (C_register_path _) fds = fds"
| "fd_effect (C_create_handler _) fds = fds"

definition open_fds :: "net_call list \<Rightarrow> int list" where
  "open_fds cs = fold fd_effect cs []"

lemma open_listener_fds:
  "open_fds (fst (open_listener env host port)) =
     (case snd (open_listener env host port) of Inl e \<Rightarrow> [] | Inr fd \<Rightarrow> [fd])"
  by (simp add: open_listener_def open_fds_def Let_def)

lemma open_fds_append: "open_fds (cs @ ds) = fold fd_effect ds (open_fds cs)"
  by (simp add: open_fds_def)

section \<open>Ports\<close>

lemma htons_involution: "htons (htons x) = x"
  unfolding htons_def by (rule bit_word_eqI) (auto simp: bit_simps)

lemma make_addr_port: "uint (htons (sin_port (make_addr env host port))) = port mod 65536"
  by (simp add: make_addr_def htons_involution unsigned_of_int take_bit_eq_mod)

section \<open>The event loop\<close>

text \<open>
  \<open>while (h2o_evloop_run(loop, INT32_MAX) == 0) ;\<close>: \<open>run\<close> is one turn of the loop on the state of
  the process and returns its code. A loop that never ends has no result (\<open>None\<close>).
\<close>

partial_function (option) RunEventLoop :: "('w \<Rightarrow> int \<times> 'w) \<Rightarrow> 'w \<Rightarrow> 'w option" where
  "RunEventLoop run w =
     (if fst (run w) = 0 then RunEventLoop run (snd (run w)) else Some (snd (run w)))"

text \<open>The state after \<open>n\<close> turns.\<close>

primrec turns :: "('w \<Rightarrow> int \<times> 'w) \<Rightarrow> nat \<Rightarrow> 'w \<Rightarrow> 'w" where
  "turns run 0 w = w"
| "turns run (Suc n) w = turns run n (snd (run w))"

lemma turns_snd: "turns run n (snd (run w)) = snd (run (turns run n w))"
  by (induction n arbitrary: w) auto

lemma RunEventLoop_returns:
  "(\<forall>i < n. fst (run (turns run i w)) = 0) \<Longrightarrow> fst (run (turns run n w)) \<noteq> 0 \<Longrightarrow>
     RunEventLoop run w = Some (turns run (Suc n) w)"
proof (induction n arbitrary: w)
  case 0
  then show ?case by (simp add: RunEventLoop.simps [of run w])
next
  case (Suc n)
  from Suc.prems(1) have "fst (run w) = 0" by force
  moreover have "\<forall>i < n. fst (run (turns run i (snd (run w)))) = 0"
    using Suc.prems(1) by (metis Suc_less_eq turns.simps(2))
  moreover have "fst (run (turns run n (snd (run w)))) \<noteq> 0" using Suc.prems(2) by simp
  ultimately show ?case using Suc.IH by (simp add: RunEventLoop.simps [of run w])
qed

lemma RunEventLoop_some:
  assumes "RunEventLoop run w = Some w'"
  shows "\<exists>n. (\<forall>i < n. fst (run (turns run i w)) = 0) \<and> fst (run (turns run n w)) \<noteq> 0 \<and>
    w' = turns run (Suc n) w"
proof (rule RunEventLoop.raw_induct [where P = "\<lambda>run w w'. \<exists>n. (\<forall>i < n. fst (run (turns run i w)) = 0) \<and>
      fst (run (turns run n w)) \<noteq> 0 \<and> w' = turns run (Suc n) w", OF _ assms])
  fix loop :: "('w \<Rightarrow> int \<times> 'w) \<Rightarrow> 'w \<Rightarrow> 'w option" and run :: "'w \<Rightarrow> int \<times> 'w" and w w' :: 'w
  assume IH: "\<And>run w w'. loop run w = Some w' \<Longrightarrow> \<exists>n. (\<forall>i < n. fst (run (turns run i w)) = 0) \<and>
      fst (run (turns run n w)) \<noteq> 0 \<and> w' = turns run (Suc n) w"
    and eq: "(if fst (run w) = 0 then loop run (snd (run w)) else Some (snd (run w))) = Some w'"
  show "\<exists>n. (\<forall>i < n. fst (run (turns run i w)) = 0) \<and> fst (run (turns run n w)) \<noteq> 0 \<and>
      w' = turns run (Suc n) w"
  proof (cases "fst (run w) = 0")
    case True
    with eq IH [of run "snd (run w)" w'] obtain n where n:
      "\<forall>i < n. fst (run (turns run i (snd (run w)))) = 0" "fst (run (turns run n (snd (run w)))) \<noteq> 0"
      "w' = turns run (Suc n) (snd (run w))" by auto
    have "fst (run (turns run i w)) = 0" if "i < Suc n" for i
      using that True n(1) by (cases i) auto
    with n show ?thesis by (intro exI [of _ "Suc n"]) auto
  next
    case False
    with eq show ?thesis by (intro exI [of _ 0]) auto
  qed
qed

lemma RunEventLoop_Some:
  "RunEventLoop run w = Some w' \<longleftrightarrow>
     (\<exists>n. (\<forall>i < n. fst (run (turns run i w)) = 0) \<and> fst (run (turns run n w)) \<noteq> 0 \<and> w' = turns run (Suc n) w)"
  using RunEventLoop_some RunEventLoop_returns by metis

lemma RunEventLoop_None: "RunEventLoop run w = None \<longleftrightarrow> (\<forall>n. fst (run (turns run n w)) = 0)"
proof
  assume none: "RunEventLoop run w = None"
  show "\<forall>n. fst (run (turns run n w)) = 0"
  proof
    fix n show "fst (run (turns run n w)) = 0"
    proof (induction n rule: less_induct)
      case (less n)
      then show ?case using none RunEventLoop_returns [of n run w] by auto
    qed
  qed
next
  assume "\<forall>n. fst (run (turns run n w)) = 0"
  then show "RunEventLoop run w = None" using RunEventLoop_Some by (metis not_None_eq)
qed

section \<open>Properties\<close>

text \<open>C38. The event loop returns exactly when some turn gives a code other than zero: it then has made
  every turn before it and that one, and the state is the one after it. When all turns give zero it
  never returns.\<close>

theorem event_loop_returns_iff:
  "(RunEventLoop run w = Some w' \<longleftrightarrow>
     (\<exists>n. (\<forall>i < n. fst (run (turns run i w)) = 0) \<and> fst (run (turns run n w)) \<noteq> 0 \<and> w' = turns run (Suc n) w)) \<and>
   (RunEventLoop run w = None \<longleftrightarrow> (\<forall>n. fst (run (turns run n w)) = 0))"
  by (rule conjI) (rule RunEventLoop_Some, rule RunEventLoop_None)

text \<open>A loop whose fourth turn gives 1.\<close>

definition four_turns :: "nat \<Rightarrow> int \<times> nat" where
  "four_turns n = (if n = 3 then 1 else 0, Suc n)"

theorem event_loop_returns_iff_witness:
  "(RunEventLoop four_turns 0 = Some 4 \<longleftrightarrow>
     (\<exists>n. (\<forall>i < n. fst (four_turns (turns four_turns i 0)) = 0) \<and>
        fst (four_turns (turns four_turns n 0)) \<noteq> 0 \<and> 4 = turns four_turns (Suc n) 0)) \<and>
   (RunEventLoop four_turns 0 = None \<longleftrightarrow> (\<forall>n. fst (four_turns (turns four_turns n 0)) = 0))"
  by (rule event_loop_returns_iff)

text \<open>A port outside 0..65535 is accepted and taken modulo 65536.\<close>

theorem port_taken_modulo: "uint (htons (sin_port (make_addr env host port))) = port mod 65536"
  by (rule make_addr_port)

end
