(* ===== verification/Multi_Server.thy ===== *)
theory Multi_Server
  imports Net_Calls
begin

text \<open>
  \<open>http::MultiThreadedH2OServer\<close> (\<open>src/piconaut/http/http_server.{h,cc}\<close>): registration of
  handlers, \<open>Start\<close> with one context per thread, the accept callback, \<open>Wait\<close>, \<open>Stop\<close> and the
  destructor. A context is the pointer to the loop it was initialised with.
\<close>

section \<open>State and construction\<close>

record MultiServer =
  m_host :: string
  m_port :: int
  num_threads :: int
  contexts :: "pointer list"
  loop :: pointer
  queues :: pointer
  listener :: pointer
  threads :: "bool list"
  m_handlers :: "string list"
  listener_context :: "pointer option"
  m_calls :: "net_call list"

definition m_do :: "net_call list \<Rightarrow> MultiServer \<Rightarrow> MultiServer" where
  "m_do cs s = s\<lparr>m_calls := m_calls s @ cs\<rparr>"

text \<open>\<open>loop_\<close>, \<open>queues_\<close> and \<open>listener_\<close> have no initialiser. \<open>threads\<close> says who is joinable.\<close>

definition make_MultiServer :: "net_env \<Rightarrow> string \<Rightarrow> int \<Rightarrow> int \<Rightarrow> MultiServer result" where
  "make_MultiServer env h p n =
     bind_result (is_null_ptr (register_host env)) (\<lambda>null.
       if null then Inl (Runtime_error ''Failed to register host configuration'')
       else Inr \<lparr>m_host = h, m_port = p, num_threads = n, contexts = [], loop = Indeterminate,
         queues = Indeterminate, listener = Indeterminate, threads = [], m_handlers = [],
         listener_context = None, m_calls = [C_config_init, C_register_host h p]\<rparr>)"

definition m_RegisterHandler :: "net_env \<Rightarrow> string \<Rightarrow> MultiServer \<Rightarrow> MultiServer result" where
  "m_RegisterHandler env path s =
     (case create_handler env of
        Ptr p \<Rightarrow> Inr ((m_do [C_register_path path, C_create_handler path] s)
                   \<lparr>m_handlers := m_handlers s @ [path]\<rparr>)
      | _ \<Rightarrow> Inl (Undefined_read ''pico_handler''))"

section \<open>Start\<close>

text \<open>\<open>num_threads_\<close> where the code compares it with a \<open>size_t\<close> or passes it as one.\<close>

definition thread_count :: "int \<Rightarrow> nat" where
  "thread_count n = nat (n mod 2 ^ 64)"

text \<open>
  The first loop: a loop is created for every thread, and the context is initialised with the
  member \<open>loop_\<close>.
\<close>

definition init_context :: "net_env \<Rightarrow> nat \<Rightarrow> MultiServer \<Rightarrow> MultiServer" where
  "init_context env i s =
     (let local_loop = evloop_create env (Suc i)
      in (m_do [C_evloop_create local_loop, C_context_init i (loop s)] s)
           \<lparr>contexts := (contexts s)[i := loop s]\<rparr>)"

definition open_accept :: "net_env \<Rightarrow> int \<Rightarrow> nat \<Rightarrow> MultiServer \<Rightarrow> MultiServer" where
  "open_accept env fd i s =
     (let sock = socket_create env i
      in m_do [C_socket_create (contexts s ! i) fd, C_read_start sock] s)"

definition start_thread :: "nat \<Rightarrow> MultiServer \<Rightarrow> MultiServer" where
  "start_thread i s = (m_do [C_thread_start i] s)\<lparr>threads := threads s @ [True]\<rparr>"

definition m_Start :: "net_env \<Rightarrow> MultiServer \<Rightarrow> MultiServer \<times> unit result" where
  "m_Start env s =
     (let opened = open_listener env (m_host s) (m_port s); s1 = m_do (fst opened) s
      in case snd opened of
           Inl e \<Rightarrow> (s1, Inl e)
         | Inr fd \<Rightarrow>
             (let n = thread_count (num_threads s)
              in if n \<ge> 2 ^ 63 then (s1, Inl Length_error)
                 else let
                   s2 = s1\<lparr>contexts := take n (contexts s) @ replicate (n - length (contexts s)) Null\<rparr>;
                   l = evloop_create env 0;
                   s3 = (m_do [C_evloop_create l] s2)\<lparr>loop := l\<rparr>;
                   s4 = fold (init_context env) [0..<n] s3;
                   s5 = fold (open_accept env fd) [0..<n] s4;
                   s6 = fold start_thread [0..<n] s5
                 in (s6, Inr ())))"

text \<open>The loop a thread runs: that of the context with its index.\<close>

definition thread_loop :: "MultiServer \<Rightarrow> nat \<Rightarrow> pointer" where
  "thread_loop s i = contexts s ! i"

section \<open>Accept, wait, stop\<close>

text \<open>Nobody sets \<open>listener->data\<close>, which is what \<open>listener_context\<close> holds.\<close>

definition m_AcceptConnection :: "bool \<Rightarrow> bool \<Rightarrow> pointer \<Rightarrow> MultiServer \<Rightarrow> MultiServer result" where
  "m_AcceptConnection null_listener err sock s =
     (if null_listener then Inl (Runtime_error ''Null socket on_accept'')
      else if err then Inr s
      else if sock = Null then Inr s
      else Inr (m_do [C_accept (listener_context s) sock] s))"

text \<open>\<open>Wait\<close> joins every joinable thread, in order.\<close>

definition Wait :: "MultiServer \<Rightarrow> MultiServer" where
  "Wait s = (m_do (map C_thread_join (filter (\<lambda>i. threads s ! i) [0..<length (threads s)])) s)
     \<lparr>threads := replicate (length (threads s)) False\<rparr>"

text \<open>\<open>for (auto c : contexts_)\<close> disposes of copies of the contexts.\<close>

definition m_Stop :: "MultiServer \<Rightarrow> MultiServer result" where
  "m_Stop s =
     bind_result (is_null_ptr (queues s)) (\<lambda>noqueue.
       let s1 = (if noqueue then s else m_do [C_destroy_queue (queues s)] s);
           s2 = m_do (map C_context_dispose_copy [0..<length (contexts s1)]) s1
       in bind_result (is_null_ptr (listener s2)) (\<lambda>nolistener.
            Inr (if nolistener then s2 else m_do [C_socket_close (listener s2)] s2)))"

text \<open>The destructor: \<open>Stop\<close>, then the members; a joinable \<open>std::thread\<close> ends the program.\<close>

definition destroy_MultiServer :: "MultiServer \<Rightarrow> MultiServer result" where
  "destroy_MultiServer s =
     bind_result (m_Stop s) (\<lambda>s1. if True \<in> set (threads s1) then Inl Terminate_called else Inr s1)"

section \<open>Lemmas\<close>

lemma m_do_sel [simp]:
  "contexts (m_do cs s) = contexts s" "loop (m_do cs s) = loop s" "queues (m_do cs s) = queues s"
  "listener (m_do cs s) = listener s" "threads (m_do cs s) = threads s"
  "m_calls (m_do cs s) = m_calls s @ cs" "num_threads (m_do cs s) = num_threads s"
  "listener_context (m_do cs s) = listener_context s"
  by (simp_all add: m_do_def)

lemma init_contexts:
  "n \<le> length (contexts s) \<Longrightarrow>
     let t = fold (init_context env) [0..<n] s
     in loop t = loop s \<and> length (contexts t) = length (contexts s) \<and>
        (\<forall>i < n. contexts t ! i = loop s) \<and> queues t = queues s \<and> listener t = listener s \<and>
        threads t = threads s \<and> listener_context t = listener_context s"
proof (induction n)
  case (Suc n)
  then show ?case by (auto simp: Let_def init_context_def nth_list_update less_Suc_eq)
qed simp

lemma open_accepts:
  "let t = fold (open_accept env fd) is s
   in contexts t = contexts s \<and> loop t = loop s \<and> queues t = queues s \<and> listener t = listener s \<and>
      threads t = threads s \<and> listener_context t = listener_context s"
  by (induction "is" arbitrary: s) (auto simp: Let_def open_accept_def)

lemma start_threads:
  "let t = fold start_thread is s
   in contexts t = contexts s \<and> loop t = loop s \<and> queues t = queues s \<and> listener t = listener s \<and>
      threads t = threads s @ replicate (length is) True \<and> listener_context t = listener_context s"
  by (induction "is" arbitrary: s) (auto simp: Let_def start_thread_def)

lemma m_Start_state:
  assumes "m_Start env s = (s', Inr u)"
  shows "length (contexts s') = thread_count (num_threads s) \<and>
    (\<forall>i < thread_count (num_threads s). contexts s' ! i = evloop_create env 0) \<and>
    queues s' = queues s \<and> listener s' = listener s \<and> listener_context s' = listener_context s \<and>
    threads s' = threads s @ replicate (thread_count (num_threads s)) True"
proof -
  let ?n = "thread_count (num_threads s)"
  from assms obtain fd where fd: "snd (open_listener env (m_host s) (m_port s)) = Inr fd"
    by (auto simp: m_Start_def Let_def split: sum.splits)
  define s3 where "s3 = (m_do [C_evloop_create (evloop_create env 0)]
    ((m_do (fst (open_listener env (m_host s) (m_port s))) s)
       \<lparr>contexts := take ?n (contexts s) @ replicate (?n - length (contexts s)) Null\<rparr>))
    \<lparr>loop := evloop_create env 0\<rparr>"
  from assms fd have s': "s' = fold start_thread [0..<?n]
      (fold (open_accept env fd) [0..<?n] (fold (init_context env) [0..<?n] s3))"
    by (auto simp: m_Start_def Let_def s3_def split: if_splits)
  have len: "length (contexts s3) = ?n" by (simp add: s3_def)
  have "loop s3 = evloop_create env 0" "queues s3 = queues s" "listener s3 = listener s"
    "threads s3 = threads s" "listener_context s3 = listener_context s"
    by (simp_all add: s3_def)
  with len show ?thesis
    using init_contexts [of ?n s3 env] open_accepts [of env fd "[0..<?n]"] start_threads [of "[0..<?n]"]
    by (simp add: s' Let_def)
qed

section \<open>Properties\<close>

text \<open>The threads of the multi-threaded server are not independent: after \<open>Start\<close> every one of the
  \<open>num_threads_\<close> threads runs the same event loop, the member \<open>loop_\<close>, and accepts without a context,
  because nobody has set the listener's data; \<open>Wait\<close> joins each thread once, in order; and \<open>Stop\<close>,
  which the destructor calls, reads members that were never initialised.\<close>

theorem threads_share_one_loop:
  assumes "make_MultiServer env h p n = Inr s" and "m_Start env s = (s', Inr u)" and "sock \<noteq> Null"
  shows "length (contexts s') = thread_count n \<and> (\<forall>i < thread_count n. thread_loop s' i = evloop_create env 0) \<and>
    m_AcceptConnection False False sock s' = Inr (m_do [C_accept None sock] s') \<and>
    m_calls (Wait s') = m_calls s' @ map C_thread_join [0..<thread_count n] \<and> True \<notin> set (threads (Wait s')) \<and>
    destroy_MultiServer s' = Inl (Undefined_read ''uninitialised pointer'')"
proof -
  have s: "num_threads s = n" "queues s = Indeterminate" "listener_context s = None" "threads s = []"
    using assms(1) by (auto simp: make_MultiServer_def result_simps split: if_splits)
  note st = m_Start_state [OF assms(2), unfolded s]
  have t: "threads s' = replicate (thread_count n) True" using st by simp
  have "filter (\<lambda>i. threads s' ! i) [0..<length (threads s')] = [0..<thread_count n]"
    by (simp add: t filter_id_conv)
  then have "m_calls (Wait s') = m_calls s' @ map C_thread_join [0..<thread_count n] \<and> True \<notin> set (threads (Wait s'))"
    by (simp add: Wait_def)
  with st assms(3) show ?thesis
    by (simp add: thread_loop_def m_AcceptConnection_def destroy_MultiServer_def m_Stop_def is_null_ptr_def)
qed

text \<open>An environment in which everything succeeds, and the server of two threads in it.\<close>

definition ample_env :: net_env where
  "ample_env = \<lparr>socket_fd = 3, bind_rc = 0, listen_rc = 0, inet_pton = (\<lambda>h. Some 0), evloop_create = (\<lambda>i. Ptr i),
     socket_create = (\<lambda>i. Ptr (10 + i)), register_host = Ptr 4, create_handler = Ptr 5\<rparr>"

theorem threads_share_one_loop_witness:
  "\<exists>s s'. make_MultiServer ample_env ''h'' 80 2 = Inr s \<and> m_Start ample_env s = (s', Inr ()) \<and>
    length (contexts s') = thread_count 2 \<and> (\<forall>i < thread_count 2. thread_loop s' i = evloop_create ample_env 0) \<and>
    m_AcceptConnection False False (Ptr 9) s' = Inr (m_do [C_accept None (Ptr 9)] s') \<and>
    m_calls (Wait s') = m_calls s' @ map C_thread_join [0..<thread_count 2] \<and> True \<notin> set (threads (Wait s')) \<and>
    destroy_MultiServer s' = Inl (Undefined_read ''uninitialised pointer'')"
proof -
  obtain s where s: "make_MultiServer ample_env ''h'' 80 2 = Inr s"
    by (simp add: make_MultiServer_def ample_env_def is_null_ptr_def)
  then have "num_threads s = 2" by (auto simp: make_MultiServer_def ample_env_def is_null_ptr_def)
  then have "snd (m_Start ample_env s) = Inr ()"
    by (simp add: m_Start_def open_listener_def ample_env_def thread_count_def Let_def)
  then obtain s' where s': "m_Start ample_env s = (s', Inr ())" by (metis prod.collapse)
  from s s' threads_share_one_loop [OF s s', of "Ptr 9"] show ?thesis by blast
qed

end
