(* ===== verification/Server_Config.thy ===== *)
theory Server_Config
  imports Pico_Base
begin

text \<open>
  \<open>http::Config\<close> (\<open>src/piconaut/http/config.{h,cc}\<close>, \<open>declare.h\<close>) and the configuration part of
  \<open>H2OServerImpl\<close> (\<open>src/piconaut/http/impl/h2o_impl.h\<close>), which carries it into the fields of
  \<open>h2o_globalconf_t\<close> and into registrations with h2o, recorded here in call order.
\<close>

section \<open>Config\<close>

datatype HttpVersionMode = HTTP1_1 | HTTP2 | HTTP2_AUTO_FALLBACK

datatype CompressionType = NONE | GZIP | BROTLI

record Config =
  http_version :: HttpVersionMode
  compression :: CompressionType
  xss_protection :: bool
  csrf_protection :: bool
  rate_limit :: int
  connection_limit :: int
  cert_file :: string
  key_file :: string
  cors :: string
  http1_request_timeout :: uint64
  http2_idle_timeout :: uint64
  http2_graceful_shutdown_timeout :: uint64
  http2_max_concurrent_requests_per_connection :: size_t
  http2_max_streams_for_priority :: size_t

definition make_Config :: Config where
  "make_Config = \<lparr>http_version = HTTP2_AUTO_FALLBACK, compression = NONE, xss_protection = True,
     csrf_protection = False, rate_limit = 0, connection_limit = 0, cert_file = [], key_file = [],
     cors = [], http1_request_timeout = 30, http2_idle_timeout = 0,
     http2_graceful_shutdown_timeout = 0, http2_max_concurrent_requests_per_connection = 0,
     http2_max_streams_for_priority = 0\<rparr>"

text \<open>The setters.\<close>

definition set_HttpVersion :: "HttpVersionMode \<Rightarrow> Config \<Rightarrow> Config" where
  "set_HttpVersion version c = c\<lparr>http_version := version\<rparr>"

definition set_Compression :: "CompressionType \<Rightarrow> Config \<Rightarrow> Config" where
  "set_Compression type c = c\<lparr>compression := type\<rparr>"

definition set_XssProtection :: "bool \<Rightarrow> Config \<Rightarrow> Config" where
  "set_XssProtection enable c = c\<lparr>xss_protection := enable\<rparr>"

definition set_CsrfProtection :: "bool \<Rightarrow> Config \<Rightarrow> Config" where
  "set_CsrfProtection enable c = c\<lparr>csrf_protection := enable\<rparr>"

definition DosProtection :: "int \<Rightarrow> int \<Rightarrow> Config \<Rightarrow> Config" where
  "DosProtection rate conn c = c\<lparr>rate_limit := rate, connection_limit := conn\<rparr>"

definition Https :: "string \<Rightarrow> string \<Rightarrow> Config \<Rightarrow> Config" where
  "Https cert k c = c\<lparr>cert_file := cert, key_file := k\<rparr>"

definition set_Cors :: "string \<Rightarrow> Config \<Rightarrow> Config" where
  "set_Cors allowed_origins c = c\<lparr>cors := allowed_origins\<rparr>"

definition set_Http1RequestTimeout :: "uint64 \<Rightarrow> Config \<Rightarrow> Config" where
  "set_Http1RequestTimeout t c = c\<lparr>http1_request_timeout := t\<rparr>"

definition set_Http2IdleTimeout :: "uint64 \<Rightarrow> Config \<Rightarrow> Config" where
  "set_Http2IdleTimeout t c = c\<lparr>http2_idle_timeout := t\<rparr>"

definition set_Http2GracefulShutdownTimeout :: "uint64 \<Rightarrow> Config \<Rightarrow> Config" where
  "set_Http2GracefulShutdownTimeout t c = c\<lparr>http2_graceful_shutdown_timeout := t\<rparr>"

definition set_Http2MaxConcurrentRequestsPerConnection :: "size_t \<Rightarrow> Config \<Rightarrow> Config" where
  "set_Http2MaxConcurrentRequestsPerConnection n c =
     c\<lparr>http2_max_concurrent_requests_per_connection := n\<rparr>"

definition set_Http2MaxStreamsForPriority :: "size_t \<Rightarrow> Config \<Rightarrow> Config" where
  "set_Http2MaxStreamsForPriority n c = c\<lparr>http2_max_streams_for_priority := n\<rparr>"

lemmas setter_defs = set_HttpVersion_def set_Compression_def set_XssProtection_def
  set_CsrfProtection_def DosProtection_def Https_def set_Cors_def set_Http1RequestTimeout_def
  set_Http2IdleTimeout_def set_Http2GracefulShutdownTimeout_def
  set_Http2MaxConcurrentRequestsPerConnection_def set_Http2MaxStreamsForPriority_def

text \<open>The getters.\<close>

definition HttpVersion :: "Config \<Rightarrow> HttpVersionMode" where
  "HttpVersion c = http_version c"

definition Compression :: "Config \<Rightarrow> CompressionType" where
  "Compression c = compression c"

definition XssProtection :: "Config \<Rightarrow> bool" where
  "XssProtection c = xss_protection c"

definition CsrfProtection :: "Config \<Rightarrow> bool" where
  "CsrfProtection c = csrf_protection c"

definition RateLimit :: "Config \<Rightarrow> int" where
  "RateLimit c = rate_limit c"

definition ConnectionLimit :: "Config \<Rightarrow> int" where
  "ConnectionLimit c = connection_limit c"

definition CertFile :: "Config \<Rightarrow> string" where
  "CertFile c = cert_file c"

definition KeyFile :: "Config \<Rightarrow> string" where
  "KeyFile c = key_file c"

definition Cors :: "Config \<Rightarrow> string" where
  "Cors c = cors c"

definition Http1RequestTimeout :: "Config \<Rightarrow> uint64" where
  "Http1RequestTimeout c = http1_request_timeout c"

definition Http2IdleTimeout :: "Config \<Rightarrow> uint64" where
  "Http2IdleTimeout c = http2_idle_timeout c"

definition Http2GracefulShutdownTimeout :: "Config \<Rightarrow> uint64" where
  "Http2GracefulShutdownTimeout c = http2_graceful_shutdown_timeout c"

definition Http2MaxConcurrentRequestsPerConnection :: "Config \<Rightarrow> size_t" where
  "Http2MaxConcurrentRequestsPerConnection c = http2_max_concurrent_requests_per_connection c"

definition Http2MaxStreamsForPriority :: "Config \<Rightarrow> size_t" where
  "Http2MaxStreamsForPriority c = http2_max_streams_for_priority c"

lemmas getter_defs = HttpVersion_def Compression_def XssProtection_def CsrfProtection_def
  RateLimit_def ConnectionLimit_def CertFile_def KeyFile_def
  Cors_def Http1RequestTimeout_def Http2IdleTimeout_def Http2GracefulShutdownTimeout_def
  Http2MaxConcurrentRequestsPerConnection_def Http2MaxStreamsForPriority_def

text \<open>
  An option of the configuration: what is set is read back, the last setting counts, and setting what
  is there changes nothing.
\<close>

locale config_option =
  fixes get_option :: "Config \<Rightarrow> 'a" and put_option :: "'a \<Rightarrow> Config \<Rightarrow> Config"
  assumes read_write: "get_option (put_option x c) = x"
    and write_write: "put_option x (put_option y c) = put_option x c"
    and write_read: "put_option (get_option c) c = c"
begin

lemma write_eq_iff: "put_option x c = put_option y c \<longleftrightarrow> x = y"
  by (metis read_write)

lemma unchanged_iff: "put_option x c = c \<longleftrightarrow> x = get_option c"
  by (metis read_write write_read)

text \<open>After any sequence of settings of the option, it is the last of them.\<close>

lemma read_fold: "get_option (fold put_option xs c) = (if xs = [] then get_option c else last xs)"
  by (induction xs arbitrary: c) (auto simp: read_write)

end

interpretation version: config_option HttpVersion set_HttpVersion
  by unfold_locales (auto simp: getter_defs setter_defs)

interpretation compr: config_option Compression set_Compression
  by unfold_locales (auto simp: getter_defs setter_defs)

interpretation xss: config_option XssProtection set_XssProtection
  by unfold_locales (auto simp: getter_defs setter_defs)

interpretation csrf: config_option CsrfProtection set_CsrfProtection
  by unfold_locales (auto simp: getter_defs setter_defs)

interpretation origins: config_option Cors set_Cors
  by unfold_locales (auto simp: getter_defs setter_defs)

interpretation http1: config_option Http1RequestTimeout set_Http1RequestTimeout
  by unfold_locales (auto simp: getter_defs setter_defs)

interpretation idle: config_option Http2IdleTimeout set_Http2IdleTimeout
  by unfold_locales (auto simp: getter_defs setter_defs)

interpretation graceful: config_option Http2GracefulShutdownTimeout set_Http2GracefulShutdownTimeout
  by unfold_locales (auto simp: getter_defs setter_defs)

interpretation concurrent: config_option Http2MaxConcurrentRequestsPerConnection set_Http2MaxConcurrentRequestsPerConnection
  by unfold_locales (auto simp: getter_defs setter_defs)

interpretation streams: config_option Http2MaxStreamsForPriority set_Http2MaxStreamsForPriority
  by unfold_locales (auto simp: getter_defs setter_defs)

interpretation limits: config_option "\<lambda>c. (RateLimit c, ConnectionLimit c)" "\<lambda>(rate, conn). DosProtection rate conn"
  by unfold_locales (auto simp: getter_defs setter_defs)

interpretation files: config_option "\<lambda>c. (CertFile c, KeyFile c)" "\<lambda>(cert, k). Https cert k"
  by unfold_locales (auto simp: getter_defs setter_defs)

text \<open>A call of a setter as data, and the option it sets.\<close>

datatype setting = Set_version HttpVersionMode | Set_compression CompressionType | Set_xss bool | Set_csrf bool
  | Set_dos int int | Set_https string string | Set_cors string | Set_http1_timeout uint64 | Set_idle uint64
  | Set_graceful uint64 | Set_concurrent size_t | Set_streams size_t

primrec apply_setting :: "setting \<Rightarrow> Config \<Rightarrow> Config" where
  "apply_setting (Set_version v) = set_HttpVersion v"
| "apply_setting (Set_compression t) = set_Compression t"
| "apply_setting (Set_xss b) = set_XssProtection b"
| "apply_setting (Set_csrf b) = set_CsrfProtection b"
| "apply_setting (Set_dos r n) = DosProtection r n"
| "apply_setting (Set_https a k) = Https a k"
| "apply_setting (Set_cors o') = set_Cors o'"
| "apply_setting (Set_http1_timeout t) = set_Http1RequestTimeout t"
| "apply_setting (Set_idle t) = set_Http2IdleTimeout t"
| "apply_setting (Set_graceful t) = set_Http2GracefulShutdownTimeout t"
| "apply_setting (Set_concurrent n) = set_Http2MaxConcurrentRequestsPerConnection n"
| "apply_setting (Set_streams n) = set_Http2MaxStreamsForPriority n"

primrec option_of :: "setting \<Rightarrow> nat" where
  "option_of (Set_version v) = 0" | "option_of (Set_compression t) = 1" | "option_of (Set_xss b) = 2"
| "option_of (Set_csrf b) = 3" | "option_of (Set_dos r n) = 4" | "option_of (Set_https a k) = 5"
| "option_of (Set_cors o') = 6" | "option_of (Set_http1_timeout t) = 7" | "option_of (Set_idle t) = 8"
| "option_of (Set_graceful t) = 9" | "option_of (Set_concurrent n) = 10" | "option_of (Set_streams n) = 11"

lemma settings_commute:
  "option_of a \<noteq> option_of b \<Longrightarrow> apply_setting a (apply_setting b c) = apply_setting b (apply_setting a c)"
  by (cases a; cases b) (simp_all add: setter_defs)

lemma setting_overrides: "option_of a = option_of b \<Longrightarrow> apply_setting a (apply_setting b c) = apply_setting a c"
  by (cases a; cases b) (simp_all add: setter_defs)

lemma settings_absorb: "option_of a \<in> option_of ` set xs \<Longrightarrow> fold apply_setting xs (apply_setting a c) = fold apply_setting xs c"
proof (induction xs arbitrary: c)
  case (Cons x xs)
  show ?case
  proof (cases "option_of x = option_of a")
    case True
    then show ?thesis by (simp add: setting_overrides)
  next
    case False
    with Cons have "fold apply_setting xs (apply_setting a (apply_setting x c)) = fold apply_setting xs (apply_setting x c)"
      by auto
    then show ?thesis by (simp add: settings_commute [OF False])
  qed
qed simp

text \<open>The last call for each option, in the order of the calls.\<close>

fun effective :: "setting list \<Rightarrow> setting list" where
  "effective [] = []"
| "effective (a # xs) = (if option_of a \<in> option_of ` set xs then effective xs else a # effective xs)"

text \<open>
  What a sequence of calls makes of one option: \<open>f\<close> is the argument of the calls that set it, and the
  last of them counts.
\<close>

definition chosen :: "('a \<Rightarrow> 'b option) \<Rightarrow> 'b \<Rightarrow> 'a list \<Rightarrow> 'b" where
  "chosen f d xs = (case List.map_filter f xs of [] \<Rightarrow> d | vs \<Rightarrow> last vs)"

lemma chosen_simps [simp]:
  "chosen f d [] = d"
  "chosen f d (x # xs) = chosen f (case f x of None \<Rightarrow> d | Some v \<Rightarrow> v) xs"
  by (auto simp: chosen_def map_filter_simps split: option.split list.split)

lemma chosen_fold:
  assumes "\<And>a c. get (apply_setting a c) = (case f a of None \<Rightarrow> get c | Some v \<Rightarrow> v)"
  shows "get (fold apply_setting xs c) = chosen f (get c) xs"
  by (induction xs arbitrary: c) (simp_all add: assms)

definition sets_version where "sets_version a = (case a of Set_version v \<Rightarrow> Some v | _ \<Rightarrow> None)"
definition sets_compression where "sets_compression a = (case a of Set_compression t \<Rightarrow> Some t | _ \<Rightarrow> None)"
definition sets_xss where "sets_xss a = (case a of Set_xss b \<Rightarrow> Some b | _ \<Rightarrow> None)"
definition sets_cors where "sets_cors a = (case a of Set_cors o' \<Rightarrow> Some o' | _ \<Rightarrow> None)"
definition sets_http1_timeout where "sets_http1_timeout a = (case a of Set_http1_timeout t \<Rightarrow> Some t | _ \<Rightarrow> None)"
definition sets_idle where "sets_idle a = (case a of Set_idle t \<Rightarrow> Some t | _ \<Rightarrow> None)"
definition sets_graceful where "sets_graceful a = (case a of Set_graceful t \<Rightarrow> Some t | _ \<Rightarrow> None)"
definition sets_concurrent where "sets_concurrent a = (case a of Set_concurrent n \<Rightarrow> Some n | _ \<Rightarrow> None)"
definition sets_streams where "sets_streams a = (case a of Set_streams n \<Rightarrow> Some n | _ \<Rightarrow> None)"

lemmas sets_defs = sets_version_def sets_compression_def sets_xss_def sets_cors_def sets_http1_timeout_def
  sets_idle_def sets_graceful_def sets_concurrent_def sets_streams_def

lemma settings_read:
  "http_version (fold apply_setting xs c) = chosen sets_version (http_version c) xs"
  "compression (fold apply_setting xs c) = chosen sets_compression (compression c) xs"
  "xss_protection (fold apply_setting xs c) = chosen sets_xss (xss_protection c) xs"
  "cors (fold apply_setting xs c) = chosen sets_cors (cors c) xs"
  "http1_request_timeout (fold apply_setting xs c) = chosen sets_http1_timeout (http1_request_timeout c) xs"
  "http2_idle_timeout (fold apply_setting xs c) = chosen sets_idle (http2_idle_timeout c) xs"
  "http2_graceful_shutdown_timeout (fold apply_setting xs c) = chosen sets_graceful (http2_graceful_shutdown_timeout c) xs"
  "http2_max_concurrent_requests_per_connection (fold apply_setting xs c) =
     chosen sets_concurrent (http2_max_concurrent_requests_per_connection c) xs"
  "http2_max_streams_for_priority (fold apply_setting xs c) = chosen sets_streams (http2_max_streams_for_priority c) xs"
  by (rule chosen_fold; case_tac a; simp add: sets_defs setter_defs)+

section \<open>What is configured in h2o\<close>

text \<open>
  A \<open>h2o_iovec_t\<close> at the time of the registration: the bytes it points to, or a pointer into a
  string object that no longer exists, of which only the length is known.
\<close>

datatype h2o_iovec = Bytes string | Dangling nat

text \<open>Registrations on the host's fallback path: header commands and compression arguments.\<close>

record compress_args =
  gzip_quality :: int
  brotli_quality :: int

datatype h2o_registration =
    Headers_register "(string \<times> h2o_iovec) list"
  | Compress_register compress_args

record h2o_globalconf =
  http1_req_timeout :: uint64
  http1_upgrade_to_http2 :: int
  http2_idle :: uint64
  http2_graceful_shutdown :: uint64
  http2_max_concurrent :: size_t
  http2_max_streams :: size_t

record ServerConf =
  h2o_config :: h2o_globalconf
  h2o_compress_args :: compress_args
  registrations :: "h2o_registration list"
  server_config :: "Config option"

definition register :: "h2o_registration \<Rightarrow> ServerConf \<Rightarrow> ServerConf" where
  "register r s = s\<lparr>registrations := registrations s @ [r]\<rparr>"

text \<open>
  \<open>config.Cors()\<close> returns a string by value: the temporary whose \<open>c_str()\<close> goes into the command
  array is destroyed at the end of that declaration, before \<open>h2o_headers_register\<close> is called.
\<close>

definition ConfigureCors :: "Config \<Rightarrow> ServerConf \<Rightarrow> ServerConf" where
  "ConfigureCors config s =
     (if cors config \<noteq> [] then
        register (Headers_register
          [(''access-control-allow-origin'', Dangling (length (cors config))),
           (''access-control-allow-methods'', Bytes ''GET, POST, OPTIONS''),
           (''access-control-allow-headers'', Bytes ''Content-Type'')]) s
      else s)"

definition ConfigureCompression :: "Config \<Rightarrow> ServerConf \<Rightarrow> ServerConf" where
  "ConfigureCompression config s =
     (let s1 = s\<lparr>h2o_compress_args := \<lparr>gzip_quality = 0, brotli_quality = 0\<rparr>\<rparr>
      in if compression config = GZIP then
           (let s2 = s1\<lparr>h2o_compress_args := (h2o_compress_args s1)\<lparr>gzip_quality := 1\<rparr>\<rparr>
            in register (Compress_register (h2o_compress_args s2)) s2)
         else if compression config = BROTLI then
           (let s2 = s1\<lparr>h2o_compress_args := (h2o_compress_args s1)\<lparr>brotli_quality := 1\<rparr>\<rparr>
            in register (Compress_register (h2o_compress_args s2)) s2)
         else s1)"

definition http2_fields :: "Config \<Rightarrow> h2o_globalconf \<Rightarrow> h2o_globalconf" where
  "http2_fields config g = g
     \<lparr>http2_idle := http2_idle_timeout config,
      http2_graceful_shutdown := http2_graceful_shutdown_timeout config,
      http2_max_concurrent := http2_max_concurrent_requests_per_connection config,
      http2_max_streams := http2_max_streams_for_priority config\<rparr>"

definition ConfigureHttpOptions :: "Config \<Rightarrow> ServerConf \<Rightarrow> ServerConf" where
  "ConfigureHttpOptions config s =
     (let g = h2o_config s
      in if http_version config = HTTP1_1 then
           s\<lparr>h2o_config := g\<lparr>http1_req_timeout := http1_request_timeout config,
                             http1_upgrade_to_http2 := 0\<rparr>\<rparr>
         else if http_version config = HTTP2 then
           s\<lparr>h2o_config := http2_fields config (g\<lparr>http1_upgrade_to_http2 := 0\<rparr>)\<rparr>
         else if http_version config = HTTP2_AUTO_FALLBACK then
           s\<lparr>h2o_config := (http2_fields config g)\<lparr>http1_upgrade_to_http2 := 1\<rparr>\<rparr>
         else s)"

definition ConfigureXssSecurity :: "Config \<Rightarrow> ServerConf \<Rightarrow> ServerConf" where
  "ConfigureXssSecurity config s =
     (if xss_protection config
      then register (Headers_register [(''x-xss-protection'', Bytes ''1; mode=block'')]) s else s)"

text \<open>The body of the \<open>if\<close> is a comment in the source.\<close>

definition ConfigureCsrfSecurity :: "Config \<Rightarrow> ServerConf \<Rightarrow> ServerConf" where
  "ConfigureCsrfSecurity config s = (if csrf_protection config then s else s)"

definition Configure :: "Config \<Rightarrow> ServerConf \<Rightarrow> ServerConf" where
  "Configure config s =
     (let s0 = s\<lparr>server_config := Some config\<rparr>
      in ConfigureCsrfSecurity config (ConfigureXssSecurity config (ConfigureCors config
           (ConfigureCompression config (ConfigureHttpOptions config s0)))))"

lemmas configure_defs = ConfigureCsrfSecurity_def ConfigureXssSecurity_def ConfigureCors_def
  ConfigureCompression_def ConfigureHttpOptions_def http2_fields_def register_def Let_def

lemma Configure_registrations:
  "registrations (Configure config s) = registrations s @
     (if compression config = GZIP then [Compress_register \<lparr>gzip_quality = 1, brotli_quality = 0\<rparr>]
      else if compression config = BROTLI then [Compress_register \<lparr>gzip_quality = 0, brotli_quality = 1\<rparr>]
      else []) @
     (if cors config = [] then []
      else [Headers_register [(''access-control-allow-origin'', Dangling (length (cors config))),
        (''access-control-allow-methods'', Bytes ''GET, POST, OPTIONS''),
        (''access-control-allow-headers'', Bytes ''Content-Type'')]]) @
     (if xss_protection config then [Headers_register [(''x-xss-protection'', Bytes ''1; mode=block'')]] else [])"
  by (cases "http_version config"; cases "compression config"; cases "cors config = []";
      cases "xss_protection config") (simp_all add: Configure_def configure_defs)

lemma Configure_h2o:
  "h2o_config (Configure config s) =
     (case http_version config of
        HTTP1_1 \<Rightarrow> (h2o_config s)\<lparr>http1_req_timeout := http1_request_timeout config,
          http1_upgrade_to_http2 := 0\<rparr>
      | HTTP2 \<Rightarrow> (http2_fields config (h2o_config s))\<lparr>http1_upgrade_to_http2 := 0\<rparr>
      | HTTP2_AUTO_FALLBACK \<Rightarrow> (http2_fields config (h2o_config s))\<lparr>http1_upgrade_to_http2 := 1\<rparr>)"
  by (cases "http_version config") (simp_all add: Configure_def configure_defs)

lemma default_config:
  "http_version make_Config = HTTP2_AUTO_FALLBACK" "compression make_Config = NONE" "xss_protection make_Config"
  "cors make_Config = []" "http1_request_timeout make_Config = 30" "http2_idle_timeout make_Config = 0"
  "http2_graceful_shutdown_timeout make_Config = 0" "http2_max_concurrent_requests_per_connection make_Config = 0"
  "http2_max_streams_for_priority make_Config = 0"
  by (simp_all add: make_Config_def)

lemma globalconf_fields:
  "(g :: h2o_globalconf) = \<lparr>http1_req_timeout = http1_req_timeout g, http1_upgrade_to_http2 = http1_upgrade_to_http2 g,
     http2_idle = http2_idle g, http2_graceful_shutdown = http2_graceful_shutdown g,
     http2_max_concurrent = http2_max_concurrent g, http2_max_streams = http2_max_streams g\<rparr>"
  by simp

lemma configured_fields:
  "h2o_config (Configure (fold apply_setting xs make_Config) s) =
     (if chosen sets_version HTTP2_AUTO_FALLBACK xs = HTTP1_1
      then \<lparr>http1_req_timeout = chosen sets_http1_timeout 30 xs,
        http1_upgrade_to_http2 = 0,
        http2_idle = http2_idle (h2o_config s),
        http2_graceful_shutdown = http2_graceful_shutdown (h2o_config s),
        http2_max_concurrent = http2_max_concurrent (h2o_config s),
        http2_max_streams = http2_max_streams (h2o_config s)\<rparr>
      else \<lparr>http1_req_timeout = http1_req_timeout (h2o_config s),
        http1_upgrade_to_http2 = (if chosen sets_version HTTP2_AUTO_FALLBACK xs = HTTP2 then 0 else 1),
        http2_idle = chosen sets_idle 0 xs,
        http2_graceful_shutdown = chosen sets_graceful 0 xs,
        http2_max_concurrent = chosen sets_concurrent 0 xs,
        http2_max_streams = chosen sets_streams 0 xs\<rparr>)"
  by (cases "h2o_config s", unfold Configure_h2o http2_fields_def settings_read default_config)
    (simp split: HttpVersionMode.split)

lemma configured_registrations:
  "registrations (Configure (fold apply_setting xs make_Config) s) = registrations s @
     (case chosen sets_compression NONE xs of
        NONE \<Rightarrow> []
      | GZIP \<Rightarrow> [Compress_register \<lparr>gzip_quality = 1, brotli_quality = 0\<rparr>]
      | BROTLI \<Rightarrow> [Compress_register \<lparr>gzip_quality = 0, brotli_quality = 1\<rparr>]) @
     (if chosen sets_cors [] xs = [] then []
      else [Headers_register [(''access-control-allow-origin'', Dangling (length (chosen sets_cors [] xs))),
        (''access-control-allow-methods'', Bytes ''GET, POST, OPTIONS''),
        (''access-control-allow-headers'', Bytes ''Content-Type'')]]) @
     (if chosen sets_xss True xs then [Headers_register [(''x-xss-protection'', Bytes ''1; mode=block'')]] else [])"
  unfolding Configure_registrations settings_read by (simp add: default_config split: CompressionType.split)

lemma chosen_filter: "(\<And>a. \<not> P a \<Longrightarrow> f a = None) \<Longrightarrow> chosen f d (filter P xs) = chosen f d xs"
  by (induction xs arbitrary: d) auto

lemma ignored_settings:
  assumes "\<not> option_of a \<notin> {3, 4, 5}"
  shows "sets_version a = None" "sets_compression a = None" "sets_xss a = None" "sets_cors a = None"
    "sets_http1_timeout a = None" "sets_idle a = None" "sets_graceful a = None" "sets_concurrent a = None"
    "sets_streams a = None"
  using assms by (cases a; simp add: sets_defs)+

section \<open>Properties\<close>

text \<open>C40. From the calls of the setters to h2o, for every sequence of calls on a fresh configuration: each
  field of h2o that belongs to the chosen HTTP mode has the value of the last call for its option, or the
  default of the option, and each other field keeps its value (so that the HTTP/1 timeout is not used in
  the default mode); compression, CORS and XSS headers are registered in this order, each exactly when
  the last call asked for it, the allowed origin as a pointer to a string that is gone. The calls for
  CSRF, rate and connection limits and certificates have no effect: what h2o gets without them is the
  same.\<close>

theorem Configure_effect:
  "h2o_config (Configure (fold apply_setting xs make_Config) s) =
     (if chosen sets_version HTTP2_AUTO_FALLBACK xs = HTTP1_1
      then \<lparr>http1_req_timeout = chosen sets_http1_timeout 30 xs,
        http1_upgrade_to_http2 = 0,
        http2_idle = http2_idle (h2o_config s),
        http2_graceful_shutdown = http2_graceful_shutdown (h2o_config s),
        http2_max_concurrent = http2_max_concurrent (h2o_config s),
        http2_max_streams = http2_max_streams (h2o_config s)\<rparr>
      else \<lparr>http1_req_timeout = http1_req_timeout (h2o_config s),
        http1_upgrade_to_http2 = (if chosen sets_version HTTP2_AUTO_FALLBACK xs = HTTP2 then 0 else 1),
        http2_idle = chosen sets_idle 0 xs,
        http2_graceful_shutdown = chosen sets_graceful 0 xs,
        http2_max_concurrent = chosen sets_concurrent 0 xs,
        http2_max_streams = chosen sets_streams 0 xs\<rparr>) \<and>
   registrations (Configure (fold apply_setting xs make_Config) s) = registrations s @
     (case chosen sets_compression NONE xs of
        NONE \<Rightarrow> []
      | GZIP \<Rightarrow> [Compress_register \<lparr>gzip_quality = 1, brotli_quality = 0\<rparr>]
      | BROTLI \<Rightarrow> [Compress_register \<lparr>gzip_quality = 0, brotli_quality = 1\<rparr>]) @
     (if chosen sets_cors [] xs = [] then []
      else [Headers_register [(''access-control-allow-origin'', Dangling (length (chosen sets_cors [] xs))),
        (''access-control-allow-methods'', Bytes ''GET, POST, OPTIONS''),
        (''access-control-allow-headers'', Bytes ''Content-Type'')]]) @
     (if chosen sets_xss True xs then [Headers_register [(''x-xss-protection'', Bytes ''1; mode=block'')]] else []) \<and>
   h2o_config (Configure (fold apply_setting (filter (\<lambda>a. option_of a \<notin> {3, 4, 5}) xs) make_Config) s) =
     h2o_config (Configure (fold apply_setting xs make_Config) s) \<and>
   registrations (Configure (fold apply_setting (filter (\<lambda>a. option_of a \<notin> {3, 4, 5}) xs) make_Config) s) =
     registrations (Configure (fold apply_setting xs make_Config) s)"
  unfolding configured_fields configured_registrations by (simp only: chosen_filter ignored_settings simp_thms)

text \<open>Only the last call of each setter counts, whatever calls lie between: a configuration is
  determined by them, and each option keeps its default until its setter is called.\<close>

theorem last_settings_count:
  "fold apply_setting xs c = fold apply_setting (effective xs) c \<and> distinct (map option_of (effective xs)) \<and>
   set (map option_of (effective xs)) = option_of ` set xs"
proof (induction xs arbitrary: c)
  case (Cons a xs)
  then show ?case by (auto simp: settings_absorb insert_absorb)
qed simp

end
