(* ===== verification/Impl_Server.thy ===== *)
theory Impl_Server
  imports Server_Config Net_Calls
begin

text \<open>
  \<open>http::impl::H2OServerImpl\<close> (\<open>src/piconaut/http/impl/h2o_impl.h\<close>) without its configuration,
  which is in \<open>Server_Config\<close>: routes, \<open>Start\<close> with its worker threads and the one accept context
  they share, the accept callback, and \<open>Stop\<close>. Contexts are numbered by their index.
\<close>

text \<open>
  \<open>I_socket\<close> has the descriptor that was returned; \<open>I_accept\<close> the context field of the accept context and
  the worker whose socket is passed on, \<open>I_read_callback\<close> the socket on which the inner callback of
  \<open>OnAccept\<close> is set.
\<close>

datatype impl_call =
    I_config_init
  | I_register_host string int
  | I_register_path string
  | I_create_handler
  | I_evloop_create nat
  | I_context_init nat
  | I_thread_create nat
  | I_socket int
  | I_bind int uint16
  | I_listen int
  | I_socket_create nat
  | I_read_start nat
  | I_join nat
  | I_read_callback nat
  | I_mem_alloc
  | I_accept "nat option" nat
  | I_close_socket nat
  | I_context_dispose nat
  | I_config_dispose

text \<open>
  \<open>accept_ctx\<close> is the \<open>ctx\<close> field of the member \<open>h2o_accept_context_\<close>; \<open>hosts\<close> is set beside it, every
  time to the same value.
\<close>

record H2OServerImpl =
  i_host :: string
  i_port :: int
  worker_number :: uint16
  is_ssl :: bool
  running :: bool
  i_contexts :: nat
  accept_ctx :: "nat option"
  i_handlers :: "string list"
  conf :: ServerConf
  i_calls :: "impl_call list"

definition i_do :: "impl_call list \<Rightarrow> H2OServerImpl \<Rightarrow> H2OServerImpl" where
  "i_do cs s = s\<lparr>i_calls := i_calls s @ cs\<rparr>"

text \<open>\<open>c\<close> is the configuration as \<open>h2o_config_init\<close> leaves it.\<close>

definition make_H2OServerImpl :: "string \<Rightarrow> int \<Rightarrow> bool \<Rightarrow> uint16 \<Rightarrow> ServerConf \<Rightarrow> H2OServerImpl" where
  "make_H2OServerImpl h p ssl workers c =
     \<lparr>i_host = h, i_port = p, worker_number = workers, is_ssl = ssl, running = False, i_contexts = 0,
      accept_ctx = None, i_handlers = [], conf = c, i_calls = [I_config_init, I_register_host h p]\<rparr>"

definition impl_Configure :: "Config \<Rightarrow> H2OServerImpl \<Rightarrow> H2OServerImpl" where
  "impl_Configure config s = s\<lparr>conf := Configure config (conf s)\<rparr>"

text \<open>The handler that \<open>AddRoute\<close> installs answers 0 and does nothing; the one given is only kept.\<close>

definition impl_on_req :: int where
  "impl_on_req = 0"

definition impl_AddRoute :: "string \<Rightarrow> H2OServerImpl \<Rightarrow> H2OServerImpl" where
  "impl_AddRoute path s =
     (i_do [I_register_path path, I_create_handler] s)\<lparr>i_handlers := i_handlers s @ [path]\<rparr>"

text \<open>The body of the first loop of \<open>Start\<close>, and of the loop that opens the sockets.\<close>

definition start_worker :: "nat \<Rightarrow> H2OServerImpl \<Rightarrow> H2OServerImpl" where
  "start_worker i s =
     i_do [I_thread_create i]
       ((i_do [I_evloop_create i, I_context_init i] s)\<lparr>accept_ctx := Some i\<rparr>)"

definition accept_on :: "nat \<Rightarrow> H2OServerImpl \<Rightarrow> H2OServerImpl" where
  "accept_on i s = i_do [I_socket_create i, I_read_start i] s"

text \<open>The return codes of \<open>socket\<close>, \<open>bind\<close> and \<open>listen\<close> are not looked at; \<open>fd\<close> is the first.\<close>

definition impl_Start :: "int \<Rightarrow> H2OServerImpl \<Rightarrow> H2OServerImpl" where
  "impl_Start fd s =
     (let n = unat (worker_number s);
          s1 = s\<lparr>running := True, i_contexts := n\<rparr>;
          s2 = fold start_worker [0..<n] s1;
          s3 = i_do [I_socket fd, I_bind fd (htons (word_of_int (i_port s))), I_listen fd] s2;
          s4 = fold accept_on [0..<n] s3
      in i_do (map I_join [0..<n]) s4)"

text \<open>
  The callbacks on the socket of worker \<open>i\<close>: \<open>OnAccept\<close> closes it on an error and otherwise sets the inner
  callback on the same socket; that one closes it on an error and otherwise hands it to h2o, with the
  context that the shared accept context holds at that moment, whatever loop the socket belongs to.
\<close>

definition OnAccept :: "bool \<Rightarrow> nat \<Rightarrow> H2OServerImpl \<Rightarrow> H2OServerImpl" where
  "OnAccept err i s = (if err then i_do [I_close_socket i] s else i_do [I_read_callback i] s)"

definition read_callback :: "bool \<Rightarrow> nat \<Rightarrow> H2OServerImpl \<Rightarrow> H2OServerImpl" where
  "read_callback err i s =
     (if err then i_do [I_close_socket i] s else i_do [I_mem_alloc, I_accept (accept_ctx s) i] s)"

text \<open>
  What a worker thread executes: the event loop of its context. \<open>Start\<close> ends by joining the threads
  one after the other, so it returns when each of them has returned: \<open>worlds\<close> are the states the loops
  of the workers run on.
\<close>

definition RunLoop :: "('w \<Rightarrow> int \<times> 'w) \<Rightarrow> 'w \<Rightarrow> 'w option" where
  "RunLoop run w = RunEventLoop run w"

fun join_workers :: "('w \<Rightarrow> int \<times> 'w) \<Rightarrow> 'w list \<Rightarrow> 'w list option" where
  "join_workers run [] = Some []"
| "join_workers run (w # ws) =
     Option.bind (RunLoop run w) (\<lambda>w'. map_option ((#) w') (join_workers run ws))"

definition impl_Stop :: "H2OServerImpl \<Rightarrow> H2OServerImpl" where
  "impl_Stop s = s\<lparr>running := False\<rparr>"

text \<open>The destructor disposes of every context, in order, and of the configuration.\<close>

definition destroy_H2OServerImpl :: "H2OServerImpl \<Rightarrow> H2OServerImpl" where
  "destroy_H2OServerImpl s =
     i_do [I_config_dispose] (fold (\<lambda>i. i_do [I_context_dispose i]) [0..<i_contexts s] s)"

section \<open>Lemmas\<close>

lemma start_workers:
  "accept_ctx (fold start_worker [0..<n] s) = (if n = 0 then accept_ctx s else Some (n - 1)) \<and>
   running (fold start_worker [0..<n] s) = running s"
  by (induction n) (auto simp: start_worker_def i_do_def)

lemma accept_ons:
  "accept_ctx (fold accept_on is s) = accept_ctx s \<and> running (fold accept_on is s) = running s"
  by (induction "is" arbitrary: s) (auto simp: accept_on_def i_do_def)

lemma impl_Start_accept_ctx:
  "accept_ctx (impl_Start fd s) =
     (if worker_number s = 0 then accept_ctx s else Some (unat (worker_number s) - 1))"
  by (simp add: impl_Start_def Let_def accept_ons start_workers i_do_def unat_eq_0)

lemma join_workers_Some: "join_workers run ws = Some ws' \<longleftrightarrow> list_all2 (\<lambda>w w'. RunLoop run w = Some w') ws ws'"
  by (induction ws arbitrary: ws') (auto simp: bind_eq_Some_conv list_all2_Cons1)

lemma join_workers_None: "join_workers run ws = None \<longleftrightarrow> (\<exists>w \<in> set ws. RunLoop run w = None)"
  by (induction ws) (auto simp: bind_eq_None_conv)

lemma i_do_sel [simp]:
  "i_calls (i_do cs s) = i_calls s @ cs" "accept_ctx (i_do cs s) = accept_ctx s" "running (i_do cs s) = running s"
  "worker_number (i_do cs s) = worker_number s" "i_contexts (i_do cs s) = i_contexts s" "i_port (i_do cs s) = i_port s"
  by (simp_all add: i_do_def)

section \<open>Properties\<close>

text \<open>\<open>H2OServerImpl\<close> has one accept context for all workers, and every worker overwrites it: after
  \<open>Start\<close> each socket that is ready, of whichever worker, is given to the last worker's context;
  every worker gets a loop, a context, a thread and a socket, and each thread is joined.\<close>

theorem last_worker_takes_all:
  assumes "worker_number s \<noteq> 0"
  shows "i_calls (read_callback False i (impl_Start fd s)) = i_calls s @
    concat (map (\<lambda>i. [I_evloop_create i, I_context_init i, I_thread_create i]) [0..<unat (worker_number s)]) @
    [I_socket fd, I_bind fd (htons (word_of_int (i_port s))), I_listen fd] @
    concat (map (\<lambda>i. [I_socket_create i, I_read_start i]) [0..<unat (worker_number s)]) @
    map I_join [0..<unat (worker_number s)] @ [I_mem_alloc, I_accept (Some (unat (worker_number s) - 1)) i]"
proof -
  have w: "i_calls (fold start_worker [0..<n] t) = i_calls t @
      concat (map (\<lambda>i. [I_evloop_create i, I_context_init i, I_thread_create i]) [0..<n])" for n t
    by (induction n) (auto simp: start_worker_def i_do_def)
  have a: "i_calls (fold accept_on is t) = i_calls t @ concat (map (\<lambda>i. [I_socket_create i, I_read_start i]) is)" for "is" t
    by (induction "is" arbitrary: t) (auto simp: accept_on_def i_do_def)
  have "accept_ctx (impl_Start fd s) = Some (unat (worker_number s) - 1)"
    using impl_Start_accept_ctx [of fd s] assms by simp
  then show ?thesis by (simp add: read_callback_def) (simp add: impl_Start_def Let_def w a)
qed

text \<open>A server of two workers over an empty configuration.\<close>

definition two_workers :: H2OServerImpl where
  "two_workers = make_H2OServerImpl [] 80 False 2
     \<lparr>h2o_config = \<lparr>http1_req_timeout = 0, http1_upgrade_to_http2 = 0, http2_idle = 0, http2_graceful_shutdown = 0,
        http2_max_concurrent = 0, http2_max_streams = 0\<rparr>,
      h2o_compress_args = \<lparr>gzip_quality = 0, brotli_quality = 0\<rparr>, registrations = [], server_config = None\<rparr>"

lemma two_workers_sel [simp]: "worker_number two_workers = 2" "i_port two_workers = 80"
  "i_calls two_workers = [I_config_init, I_register_host [] 80]" "accept_ctx two_workers = None"
  by (simp_all add: two_workers_def make_H2OServerImpl_def)

theorem last_worker_takes_all_witness:
  "i_calls (read_callback False 0 (impl_Start 3 two_workers)) = i_calls two_workers @
    concat (map (\<lambda>i. [I_evloop_create i, I_context_init i, I_thread_create i]) [0..<unat (worker_number two_workers)]) @
    [I_socket 3, I_bind 3 (htons (word_of_int (i_port two_workers))), I_listen 3] @
    concat (map (\<lambda>i. [I_socket_create i, I_read_start i]) [0..<unat (worker_number two_workers)]) @
    map I_join [0..<unat (worker_number two_workers)] @
    [I_mem_alloc, I_accept (Some (unat (worker_number two_workers) - 1)) 0]"
  by (rule last_worker_takes_all) simp

text \<open>\<open>Start\<close> of \<open>H2OServerImpl\<close> returns exactly when every worker's loop sees a turn with a code other
  than zero: one worker whose turns all succeed keeps it, and the flag that \<open>Stop\<close> clears is read by no
  loop.\<close>

theorem workers_join_iff:
  "(\<exists>ws'. join_workers run ws = Some ws') \<longleftrightarrow> (\<forall>w \<in> set ws. \<exists>n. fst (run (turns run n w)) \<noteq> 0)"
proof -
  have none: "RunLoop run w = None \<longleftrightarrow> (\<forall>n. fst (run (turns run n w)) = 0)" for w
    by (simp add: RunLoop_def RunEventLoop_None)
  have "(\<exists>ws'. join_workers run ws = Some ws') \<longleftrightarrow> join_workers run ws \<noteq> None" by auto
  also have "\<dots> \<longleftrightarrow> (\<forall>w \<in> set ws. RunLoop run w \<noteq> None)" by (simp add: join_workers_None)
  finally show ?thesis by (simp only: none) blast
qed

end
