(* ===== verification/Impl_Threads.thy ===== *)
theory Impl_Threads
  imports Impl_Server
begin

text \<open>
  \<open>H2OServerImpl::Start\<close> together with the threads it creates, the callbacks their event loops run and
  calls of \<open>Stop\<close> from elsewhere (\<open>src/piconaut/http/impl/h2o_impl.h\<close>). \<open>Start\<close> is the list of its
  statements, executed one at a time; between any two of them a worker's loop may run a callback on its
  socket or return, and somebody may call \<open>Stop\<close>.
\<close>

section \<open>The statements of Start\<close>

datatype start_stmt =
    Create_loop nat
  | Init_context nat
  | Set_accept_ctx nat
  | Create_thread nat
  | Make_fd int
  | Bind_fd int
  | Listen_fd int
  | Make_socket nat
  | Start_read nat
  | Join nat

primrec run_stmt :: "start_stmt \<Rightarrow> H2OServerImpl \<Rightarrow> H2OServerImpl" where
  "run_stmt (Create_loop i) s = i_do [I_evloop_create i] s"
| "run_stmt (Init_context i) s = i_do [I_context_init i] s"
| "run_stmt (Set_accept_ctx i) s = s\<lparr>accept_ctx := Some i\<rparr>"
| "run_stmt (Create_thread i) s = i_do [I_thread_create i] s"
| "run_stmt (Make_fd fd) s = i_do [I_socket fd] s"
| "run_stmt (Bind_fd fd) s = i_do [I_bind fd (htons (word_of_int (i_port s)))] s"
| "run_stmt (Listen_fd fd) s = i_do [I_listen fd] s"
| "run_stmt (Make_socket i) s = i_do [I_socket_create i] s"
| "run_stmt (Start_read i) s = i_do [I_read_start i] s"
| "run_stmt (Join i) s = i_do [I_join i] s"

definition worker_stmts :: "nat \<Rightarrow> start_stmt list" where
  "worker_stmts i = [Create_loop i, Init_context i, Set_accept_ctx i, Create_thread i]"

definition socket_stmts :: "nat \<Rightarrow> start_stmt list" where
  "socket_stmts i = [Make_socket i, Start_read i]"

definition start_program :: "int \<Rightarrow> nat \<Rightarrow> start_stmt list" where
  "start_program fd n = concat (map worker_stmts [0..<n]) @ [Make_fd fd, Bind_fd fd, Listen_fd fd] @
     concat (map socket_stmts [0..<n]) @ map Join [0..<n]"

text \<open>What \<open>Start\<close> does before its first loop.\<close>

definition begin_Start :: "H2OServerImpl \<Rightarrow> H2OServerImpl" where
  "begin_Start s = s\<lparr>running := True, i_contexts := unat (worker_number s)\<rparr>"

lemma impl_Start_program:
  "impl_Start fd s = fold run_stmt (start_program fd (unat (worker_number s))) (begin_Start s)"
proof -
  have w: "fold run_stmt (concat (map worker_stmts is)) t = fold start_worker is t" for "is" t
    by (induction "is" arbitrary: t) (simp_all add: worker_stmts_def start_worker_def i_do_def)
  have a: "fold run_stmt (concat (map socket_stmts is)) t = fold accept_on is t" for "is" t
    by (induction "is" arbitrary: t) (simp_all add: socket_stmts_def accept_on_def i_do_def)
  have j: "fold run_stmt (map Join is) t = i_do (map I_join is) t" for "is" t
    by (induction "is" arbitrary: t) (simp_all add: i_do_def)
  have port: "i_port (fold start_worker is t) = i_port t" for "is" t
    by (induction "is" arbitrary: t) (simp_all add: start_worker_def i_do_def)
  show ?thesis
    by (simp add: impl_Start_def start_program_def begin_Start_def Let_def w a j port)
      (simp add: i_do_def port)
qed

section \<open>The process\<close>

datatype worker = Absent | Looping | Returned

text \<open>The callback that is set on a socket.\<close>

datatype socket_state = No_socket | Created | Listening | Reading | Closed

record impl_process =
  srv :: H2OServerImpl
  todo :: "start_stmt list"
  workers :: "worker list"
  sockets :: "socket_state list"

text \<open>\<open>pthread_join\<close> waits.\<close>

definition may_run :: "start_stmt \<Rightarrow> impl_process \<Rightarrow> bool" where
  "may_run st p = (case st of Join i \<Rightarrow> workers p ! i = Returned | _ \<Rightarrow> True)"

definition start_move :: "start_stmt \<Rightarrow> impl_process \<Rightarrow> impl_process" where
  "start_move st p = p\<lparr>srv := run_stmt st (srv p), todo := tl (todo p),
     workers := (case st of Create_thread i \<Rightarrow> (workers p)[i := Looping] | _ \<Rightarrow> workers p),
     sockets := (case st of Make_socket i \<Rightarrow> (sockets p)[i := Created] | Start_read i \<Rightarrow> (sockets p)[i := Listening]
       | _ \<Rightarrow> sockets p)\<rparr>"

text \<open>
  The loop of a worker runs the callbacks of the socket that was created on it. What h2o does to a
  socket it was handed is its own: here the inner callback may be called again.
\<close>

inductive impl_step :: "impl_process \<Rightarrow> impl_process \<Rightarrow> bool" where
  start_turn: "todo p = st # rest \<Longrightarrow> may_run st p \<Longrightarrow> impl_step p (start_move st p)"
| loop_returns: "i < length (workers p) \<Longrightarrow> workers p ! i = Looping \<Longrightarrow>
     impl_step p (p\<lparr>workers := (workers p)[i := Returned]\<rparr>)"
| on_accept: "i < length (workers p) \<Longrightarrow> workers p ! i = Looping \<Longrightarrow> sockets p ! i = Listening \<Longrightarrow>
     impl_step p (p\<lparr>srv := OnAccept err i (srv p), sockets := (sockets p)[i := if err then Closed else Reading]\<rparr>)"
| on_read: "i < length (workers p) \<Longrightarrow> workers p ! i = Looping \<Longrightarrow> sockets p ! i = Reading \<Longrightarrow>
     impl_step p (p\<lparr>srv := read_callback err i (srv p), sockets := (sockets p)[i := if err then Closed else Reading]\<rparr>)"
| stop_called: "impl_step p (p\<lparr>srv := impl_Stop (srv p)\<rparr>)"

definition start_process :: "int \<Rightarrow> H2OServerImpl \<Rightarrow> impl_process" where
  "start_process fd s = \<lparr>srv = begin_Start s, todo = start_program fd (unat (worker_number s)),
     workers = replicate (unat (worker_number s)) Absent, sockets = replicate (unat (worker_number s)) No_socket\<rparr>"

section \<open>The order of the statements\<close>

lemma in_front_part:
  assumes "done @ rest = A @ B" and "x \<in> set done" and "x \<notin> set A"
  shows "\<exists>C. done = A @ C \<and> B = C @ rest"
proof -
  from assms(1) obtain us where "done = A @ us \<and> us @ rest = B \<or> done @ us = A \<and> rest = us @ B"
    by (auto simp: append_eq_append_conv2)
  with assms(2,3) show ?thesis by auto
qed

lemma worker_stmts_set: "x \<in> set (concat (map worker_stmts is)) \<longleftrightarrow>
    (\<exists>i \<in> set is. x = Create_loop i \<or> x = Init_context i \<or> x = Set_accept_ctx i \<or> x = Create_thread i)"
  by (auto simp: worker_stmts_def)

lemma socket_stmts_set: "x \<in> set (concat (map socket_stmts is)) \<longleftrightarrow> (\<exists>i \<in> set is. x = Make_socket i \<or> x = Start_read i)"
  by (auto simp: socket_stmts_def)

lemmas stmts_set = worker_stmts_set socket_stmts_set

lemma distinct_program: "distinct (start_program fd n)"
proof -
  have "distinct (concat (map worker_stmts [0..<n]))" "distinct (concat (map socket_stmts [0..<n]))"
    by (induction n) (auto simp: worker_stmts_def socket_stmts_def)
  then show ?thesis unfolding start_program_def distinct_append
    by (auto simp: distinct_map stmts_set inj_on_def simp del: set_concat)
qed

text \<open>The context field after the statements of the workers.\<close>

lemma accept_ctx_workers:
  "accept_ctx (fold run_stmt (concat (map worker_stmts [0..<n])) s) = (if n = 0 then accept_ctx s else Some (n - 1))"
  by (induction n) (simp_all add: worker_stmts_def)

lemma accept_ctx_after:
  "\<forall>st \<in> set sts. \<forall>i. st \<noteq> Set_accept_ctx i \<Longrightarrow> accept_ctx (fold run_stmt sts s) = accept_ctx s"
proof (induction sts arbitrary: s)
  case (Cons st sts)
  then show ?case by (cases st) simp_all
qed simp

text \<open>A socket exists, or a thread is joined, only after all workers have been set up.\<close>

lemma after_workers:
  assumes "start_program fd n = done @ rest" and "x \<in> set done" and "x \<in> {Make_socket i, Start_read i, Join i}"
  shows "i < n" and "\<forall>j < n. Create_thread j \<in> set done" and "accept_ctx (fold run_stmt done s) = Some (n - 1)"
proof -
  have x: "x \<in> set (concat (map socket_stmts [0..<n]) @ map Join [0..<n])"
  proof -
    have "x \<in> set (start_program fd n)" using assms(1,2) by simp
    with assms(3) show ?thesis by (auto simp: start_program_def stmts_set simp del: set_concat)
  qed
  with assms(3) show n: "i < n" by (auto simp: stmts_set simp del: set_concat)
  let ?A = "concat (map worker_stmts [0..<n])"
  have "x \<notin> set ?A" using assms(3) by (auto simp: stmts_set simp del: set_concat)
  from in_front_part [OF assms(1) [symmetric, unfolded start_program_def] assms(2) this] obtain C where C: "done = ?A @ C"
    "[Make_fd fd, Bind_fd fd, Listen_fd fd] @ concat (map socket_stmts [0..<n]) @ map Join [0..<n] = C @ rest" by blast
  from C(1) show "\<forall>j < n. Create_thread j \<in> set done" by (auto simp: stmts_set simp del: set_concat)
  have "set C \<subseteq> set (C @ rest)" by simp
  then have "\<forall>st \<in> set C. \<forall>j. st \<noteq> Set_accept_ctx j"
    unfolding C(2) [symmetric] by (auto simp: stmts_set simp del: set_concat)
  with n show "accept_ctx (fold run_stmt done s) = Some (n - 1)"
    by (simp add: C(1) accept_ctx_after accept_ctx_workers)
qed

lemma next_read:
  assumes "start_program fd n = done @ Start_read i # rest"
  shows "Make_socket i \<in> set done"
proof -
  have "Start_read i \<in> set (start_program fd n)" using assms by simp
  then have "i < n" by (auto simp: start_program_def stmts_set simp del: set_concat)
  then have "[0..<n] = [0..<i] @ i # [Suc i..<n]" 
    using upt_add_eq_append [of 0 i "n - i"] by (simp add: upt_conv_Cons)
  then obtain X Y where "start_program fd n = (X @ [Make_socket i]) @ Start_read i # Y"
    by (simp add: start_program_def socket_stmts_def) (metis append.assoc append_Cons append_Nil)
  with assms distinct_program [of fd n] have "done = X @ [Make_socket i]"
    by (metis append_Cons_eq_iff distinct_append not_distinct_conv_prefix distinct.simps(2))
  then show ?thesis by simp
qed

section \<open>What a socket goes through\<close>

primrec socket_of :: "impl_call \<Rightarrow> nat option" where
  "socket_of I_config_init = None"
| "socket_of (I_register_host h q) = None"
| "socket_of (I_register_path path) = None"
| "socket_of I_create_handler = None"
| "socket_of (I_evloop_create i) = None"
| "socket_of (I_context_init i) = None"
| "socket_of (I_thread_create i) = None"
| "socket_of (I_socket fd) = None"
| "socket_of (I_bind fd q) = None"
| "socket_of (I_listen fd) = None"
| "socket_of (I_socket_create i) = Some i"
| "socket_of (I_read_start i) = Some i"
| "socket_of (I_join i) = None"
| "socket_of (I_read_callback i) = Some i"
| "socket_of I_mem_alloc = None"
| "socket_of (I_accept c i) = Some i"
| "socket_of (I_close_socket i) = Some i"
| "socket_of (I_context_dispose i) = None"
| "socket_of I_config_dispose = None"

text \<open>The calls that are allowed on a socket in each state; in particular none after it is closed.\<close>

fun socket_next :: "impl_call \<Rightarrow> socket_state \<Rightarrow> socket_state option" where
  "socket_next (I_socket_create i) No_socket = Some Created"
| "socket_next (I_read_start i) Created = Some Listening"
| "socket_next (I_read_callback i) Listening = Some Reading"
| "socket_next (I_accept c i) Reading = Some Reading"
| "socket_next (I_close_socket i) Listening = Some Closed"
| "socket_next (I_close_socket i) Reading = Some Closed"
| "socket_next _ _ = None"

definition socket_history :: "nat \<Rightarrow> impl_call list \<Rightarrow> socket_state option" where
  "socket_history i cs =
     fold (\<lambda>c st. Option.bind st (socket_next c)) (filter (\<lambda>c. socket_of c = Some i) cs) (Some No_socket)"

lemma socket_history_append [simp]:
  "socket_history i (cs @ [c]) =
     (if socket_of c = Some i then Option.bind (socket_history i cs) (socket_next c) else socket_history i cs)"
  "socket_history i (cs @ [I_mem_alloc, c]) = socket_history i (cs @ [c])"
  by (simp_all add: socket_history_def)

lemma socket_history_none: "\<forall>c \<in> set cs. socket_of c = None \<Longrightarrow> socket_history i cs = Some No_socket"
  by (simp add: socket_history_def filter_False)

section \<open>What the callbacks and Stop leave\<close>

definition callback_call :: "impl_call \<Rightarrow> bool" where
  "callback_call c = (case c of I_read_callback i \<Rightarrow> True | I_mem_alloc \<Rightarrow> True | I_accept x i \<Rightarrow> True
     | I_close_socket i \<Rightarrow> True | _ \<Rightarrow> False)"

text \<open>The server without the calls of callbacks and without the flag.\<close>

definition erase :: "H2OServerImpl \<Rightarrow> H2OServerImpl" where
  "erase s = s\<lparr>running := True, i_calls := filter (\<lambda>c. \<not> callback_call c) (i_calls s)\<rparr>"

lemma erase_run_stmt: "erase (run_stmt st s) = run_stmt st (erase s)"
  by (cases st) (simp_all add: erase_def i_do_def callback_call_def)

lemma erase_others [simp]:
  "erase (OnAccept err i s) = erase s" "erase (read_callback err i s) = erase s" "erase (impl_Stop s) = erase s"
  by (simp_all add: erase_def OnAccept_def read_callback_def impl_Stop_def i_do_def callback_call_def)

lemma accept_ctx_erase: "erase s = erase t \<Longrightarrow> accept_ctx s = accept_ctx t"
  by (metis (no_types, lifting) H2OServerImpl.ext_inject H2OServerImpl.surjective H2OServerImpl.update_convs(5,10) erase_def)

section \<open>The invariant\<close>

text \<open>The workers and sockets agree with the statements that are done.\<close>

definition stage :: "start_stmt list \<Rightarrow> nat \<Rightarrow> worker \<Rightarrow> socket_state \<Rightarrow> bool" where
  "stage done i w k =
     ((w = Absent) = (Create_thread i \<notin> set done) \<and> (Join i \<in> set done \<longrightarrow> w = Returned) \<and>
      (k = No_socket) = (Make_socket i \<notin> set done) \<and>
      (k \<in> {No_socket, Created}) = (Start_read i \<notin> set done))"

definition impl_ok :: "int \<Rightarrow> H2OServerImpl \<Rightarrow> start_stmt list \<Rightarrow> impl_process \<Rightarrow> bool" where
  "impl_ok fd s done p =
     (let n = unat (worker_number s)
      in start_program fd n = done @ todo p \<and> length (workers p) = n \<and> length (sockets p) = n \<and>
         (\<forall>i < n. stage done i (workers p ! i) (sockets p ! i) \<and>
            socket_history i (i_calls (srv p)) = Some (sockets p ! i)) \<and>
         erase (srv p) = erase (fold run_stmt done (begin_Start s)) \<and>
         (\<forall>c i. I_accept c i \<in> set (i_calls (srv p)) \<longrightarrow> i < n \<and> c = Some (n - 1)))"

lemma impl_ok_start:
  assumes "\<forall>c \<in> set (i_calls s). socket_of c = None"
  shows "impl_ok fd s [] (start_process fd s)"
  using assms socket_history_none [OF assms]
  by (auto simp: impl_ok_def start_process_def Let_def stage_def begin_Start_def)

lemma impl_ok_stop: "impl_ok fd s done p \<Longrightarrow> impl_ok fd s done (p\<lparr>srv := impl_Stop (srv p)\<rparr>)"
  by (simp add: impl_ok_def Let_def) (simp add: impl_Stop_def)

lemma impl_ok_returns:
  "impl_ok fd s done p \<Longrightarrow> i < length (workers p) \<Longrightarrow> workers p ! i = Looping \<Longrightarrow>
     impl_ok fd s done (p\<lparr>workers := (workers p)[i := Returned]\<rparr>)"
  by (auto simp: impl_ok_def Let_def stage_def nth_list_update)

text \<open>A callback: its calls are allowed in the state of its socket, and are not those of \<open>Start\<close>.\<close>

lemma impl_ok_callback:
  assumes "impl_ok fd s done p" and "i < length (workers p)" and "sockets p ! i \<in> {Listening, Reading}"
    and "k \<in> {Reading, Closed}" and "erase t = erase (srv p)"
    and "socket_history i (i_calls t) = Some k"
    and "\<And>j. j \<noteq> i \<Longrightarrow> socket_history j (i_calls t) = socket_history j (i_calls (srv p))"
    and "\<And>c j. I_accept c j \<in> set (i_calls t) \<Longrightarrow>
      I_accept c j \<in> set (i_calls (srv p)) \<or> j = i \<and> c = Some (unat (worker_number s) - 1)"
  shows "impl_ok fd s done (p\<lparr>srv := t, sockets := (sockets p)[i := k]\<rparr>)"
proof -
  have "stage done i w k" if "stage done i w (sockets p ! i)" for w
    using that assms(3,4) by (auto simp: stage_def)
  with assms(1-4,6,7) have "stage done j (workers p ! j) ((sockets p)[i := k] ! j) \<and>
      socket_history j (i_calls t) = Some ((sockets p)[i := k] ! j)" if "j < unat (worker_number s)" for j
    using that by (cases "j = i") (simp_all add: impl_ok_def Let_def)
  moreover have "j < unat (worker_number s) \<and> c = Some (unat (worker_number s) - 1)" if "I_accept c j \<in> set (i_calls t)" for c j
    using assms(8) [OF that] assms(1,2) by (auto simp: impl_ok_def Let_def)
  ultimately show ?thesis using assms(1,5) by (simp add: impl_ok_def Let_def)
qed

lemma ready_context:
  assumes "impl_ok fd s done p" and "i < length (workers p)" and "sockets p ! i \<in> {Listening, Reading}"
  shows "accept_ctx (srv p) = Some (unat (worker_number s) - 1)"
proof -
  let ?n = "unat (worker_number s)"
  from assms have ok: "start_program fd ?n = done @ todo p" "stage done i (workers p ! i) (sockets p ! i)"
    and same: "erase (srv p) = erase (fold run_stmt done (begin_Start s))"
    by (simp_all add: impl_ok_def Let_def)
  have "Start_read i \<in> set done" using ok(2) assms(3) by (auto simp: stage_def)
  from after_workers(3) [OF ok(1) this, of i] accept_ctx_erase [OF same] show ?thesis by simp
qed

lemma impl_ok_start_turn:
  assumes ok: "impl_ok fd s done p" and "todo p = st # rest" and "may_run st p"
  shows "impl_ok fd s (done @ [st]) (start_move st p)"
proof -
  let ?n = "unat (worker_number s)"
  have prog: "start_program fd ?n = done @ st # rest" using ok assms(2) by (simp add: impl_ok_def Let_def)
  have new: "st \<notin> set done" using distinct_program [of fd ?n] prog by auto
  have n: "i < ?n" if "st \<in> {Create_thread i, Make_socket i, Start_read i, Join i}" for i
  proof -
    have "st \<in> set (start_program fd ?n)" using prog by simp
    with that show ?thesis by (auto simp: start_program_def stmts_set simp del: set_concat)
  qed
  have read: "st = Start_read i \<Longrightarrow> Make_socket i \<in> set done" for i using next_read prog by blast
  have stages: "stage (done @ [st]) i (workers (start_move st p) ! i) (sockets (start_move st p) ! i) \<and>
      socket_history i (i_calls (srv (start_move st p))) = Some (sockets (start_move st p) ! i)" if "i < ?n" for i
  proof -
    from ok that have i: "stage done i (workers p ! i) (sockets p ! i)"
      "socket_history i (i_calls (srv p)) = Some (sockets p ! i)" "length (workers p) = ?n" "length (sockets p) = ?n"
      by (auto simp: impl_ok_def Let_def)
    show ?thesis
      using i that new read assms(3) n
      by (cases st) (auto simp: start_move_def stage_def may_run_def nth_list_update)
  qed
  moreover have "I_accept c i \<in> set (i_calls (run_stmt st t)) \<longleftrightarrow> I_accept c i \<in> set (i_calls t)" for c i t
    by (cases st) simp_all
  moreover have "erase (run_stmt st (srv p)) = erase (fold run_stmt (done @ [st]) (begin_Start s))"
    using ok by (simp add: impl_ok_def Let_def erase_run_stmt)
  moreover have "length (workers (start_move st p)) = length (workers p)" "length (sockets (start_move st p)) = length (sockets p)"
    by (cases st; simp add: start_move_def)+
  ultimately show ?thesis
    using ok prog assms(2) by (simp add: impl_ok_def Let_def) (simp add: start_move_def)
qed

lemma impl_step_ok:
  assumes "impl_step p p'" and "impl_ok fd s done p"
  shows "\<exists>done'. impl_ok fd s done' p'"
  using assms
proof cases
  case (start_turn st rest)
  with impl_ok_start_turn [OF assms(2)] show ?thesis by blast
next
  case (loop_returns i)
  with impl_ok_returns [OF assms(2)] show ?thesis by blast
next
  case (on_accept i err)
  have "socket_history i (i_calls (srv p)) = Some Listening"
    using assms(2) on_accept by (auto simp: impl_ok_def Let_def)
  then have "impl_ok fd s done (p\<lparr>srv := OnAccept err i (srv p), sockets := (sockets p)[i := if err then Closed else Reading]\<rparr>)"
    using on_accept(4)
    by (intro impl_ok_callback [OF assms(2) on_accept(2)] erase_others(1)) (auto simp: OnAccept_def split: if_splits)
  with on_accept(1) show ?thesis by blast
next
  case (on_read i err)
  have "socket_history i (i_calls (srv p)) = Some Reading"
    using assms(2) on_read by (auto simp: impl_ok_def Let_def)
  moreover have "accept_ctx (srv p) = Some (unat (worker_number s) - 1)"
    by (rule ready_context [OF assms(2) on_read(2)]) (simp add: on_read)
  ultimately have "impl_ok fd s done (p\<lparr>srv := read_callback err i (srv p), sockets := (sockets p)[i := if err then Closed else Reading]\<rparr>)"
    using on_read(4)
    by (intro impl_ok_callback [OF assms(2) on_read(2)] erase_others(2)) (auto simp: read_callback_def split: if_splits)
  with on_read(1) show ?thesis by blast
next
  case stop_called
  with impl_ok_stop [OF assms(2)] show ?thesis by blast
qed

lemma impl_reachable_ok:
  assumes "impl_step\<^sup>*\<^sup>* (start_process fd s) p" and "\<forall>c \<in> set (i_calls s). socket_of c = None"
  shows "\<exists>done. impl_ok fd s done p"
  using assms(1)
proof (induction rule: rtranclp_induct)
  case base
  from impl_ok_start [OF assms(2)] show ?case by blast
next
  case (step p p')
  then show ?case using impl_step_ok by blast
qed

section \<open>Progress\<close>

lemma start_can_go:
  assumes "impl_ok fd s done p" and "todo p = st # rest"
  shows "may_run st p \<or> (\<exists>i < unat (worker_number s). st = Join i \<and> workers p ! i = Looping)"
proof (cases "\<exists>i. st = Join i")
  case True
  then obtain i where i: "st = Join i" by blast
  let ?n = "unat (worker_number s)"
  have prog: "start_program fd ?n = (done @ [st]) @ rest" using assms by (simp add: impl_ok_def Let_def)
  from after_workers(1,2) [OF this, of st i] i have "i < ?n" "Create_thread i \<in> set done" by auto
  with assms(1) have "workers p ! i \<noteq> Absent" by (auto simp: impl_ok_def Let_def stage_def)
  with i \<open>i < ?n\<close> show ?thesis by (cases "workers p ! i") (simp_all add: may_run_def)
next
  case False
  then show ?thesis by (cases st) (simp_all add: may_run_def)
qed

lemma start_can_finish: "impl_ok fd s done p \<Longrightarrow> \<exists>p'. impl_step\<^sup>*\<^sup>* p p' \<and> todo p' = []"
proof (induction "todo p" arbitrary: p "done")
  case Nil
  then show ?case by (metis rtranclp.rtrancl_refl)
next
  case (Cons st rest)
  have go: "\<exists>p'. impl_step\<^sup>*\<^sup>* q p' \<and> todo p' = []"
    if q: "impl_ok fd s done q" "todo q = st # rest" "may_run st q" for q
  proof -
    have "rest = todo (start_move st q)" using q(2) by (simp add: start_move_def)
    from Cons.hyps(1) [OF this impl_ok_start_turn [OF q]] start_turn [OF q(2,3)] show ?thesis
      by (meson converse_rtranclp_into_rtranclp)
  qed
  from start_can_go [OF Cons.prems Cons.hyps(2) [symmetric]] show ?case
  proof
    assume "may_run st p"
    with go [OF Cons.prems] Cons.hyps(2) show ?thesis by simp
  next
    assume "\<exists>i < unat (worker_number s). st = Join i \<and> workers p ! i = Looping"
    then obtain i where i: "i < length (workers p)" "st = Join i" "workers p ! i = Looping"
      using Cons.prems by (auto simp: impl_ok_def Let_def)
    let ?q = "p\<lparr>workers := (workers p)[i := Returned]\<rparr>"
    have "may_run st ?q" using i by (simp add: may_run_def)
    with go [OF impl_ok_returns [OF Cons.prems i(1,3)]] Cons.hyps(2) loop_returns [OF i(1,3)] show ?thesis
      by (metis converse_rtranclp_into_rtranclp impl_process.select_convs(2) impl_process.surjective impl_process.update_convs(3))
  qed
qed

section \<open>Properties\<close>

text \<open>C19. \<open>Start\<close> beside its threads: whatever callbacks the loops run and however often \<open>Stop\<close> is called
  meanwhile, when \<open>Start\<close> has returned it has done what it does alone, apart from the calls of the
  callbacks and from the flag, and every worker has returned. Before, it is never stuck: it goes on, or
  it waits for a worker whose loop still runs, and once the loops return it gets to its end. So \<open>Stop\<close>
  does not make \<open>Start\<close> return.\<close>

theorem start_among_threads:
  assumes "impl_step\<^sup>*\<^sup>* (start_process fd s) p" and "\<forall>c \<in> set (i_calls s). socket_of c = None"
  shows "(todo p = [] \<longrightarrow> erase (srv p) = erase (impl_Start fd s) \<and> set (workers p) \<subseteq> {Returned}) \<and>
    (\<forall>st rest. todo p = st # rest \<longrightarrow>
       may_run st p \<or> (\<exists>i < unat (worker_number s). st = Join i \<and> workers p ! i = Looping)) \<and>
    (\<exists>p'. impl_step\<^sup>*\<^sup>* p p' \<and> todo p' = [])"
proof -
  from impl_reachable_ok [OF assms] obtain dn where ok: "impl_ok fd s dn p" by blast
  let ?n = "unat (worker_number s)"
  have "erase (srv p) = erase (impl_Start fd s) \<and> set (workers p) \<subseteq> {Returned}" if "todo p = []"
  proof -
    from ok that have dn: "dn = start_program fd ?n" by (simp add: impl_ok_def Let_def)
    then have "\<forall>i < ?n. Join i \<in> set dn" by (simp add: start_program_def)
    with ok have "\<forall>i < length (workers p). workers p ! i = Returned" by (simp add: impl_ok_def Let_def stage_def)
    then have "set (workers p) \<subseteq> {Returned}" by (auto simp: in_set_conv_nth)
    with ok show ?thesis by (simp add: impl_ok_def Let_def dn impl_Start_program)
  qed
  with start_can_go [OF ok] start_can_finish [OF ok] show ?thesis by blast
qed

text \<open>C20. The sockets and the accept context: in every interleaving each socket that h2o is handed is the socket
  of a worker, which comes with the context of the last worker whichever worker it is; on each socket
  the calls come in their order, with none after it is closed; and when a socket is created, all
  worker threads are running their loops already or have left them, the one of the socket included.\<close>

theorem sockets_among_threads:
  assumes "impl_step\<^sup>*\<^sup>* (start_process fd s) p" and "\<forall>c \<in> set (i_calls s). socket_of c = None"
  shows "(\<forall>c i. I_accept c i \<in> set (i_calls (srv p)) \<longrightarrow>
       i < unat (worker_number s) \<and> c = Some (unat (worker_number s) - 1)) \<and>
    (\<forall>i < unat (worker_number s). socket_history i (i_calls (srv p)) = Some (sockets p ! i)) \<and>
    (\<forall>i < unat (worker_number s). sockets p ! i \<noteq> No_socket \<longrightarrow> Absent \<notin> set (workers p))"
proof -
  from impl_reachable_ok [OF assms] obtain dn where ok: "impl_ok fd s dn p" by blast
  let ?n = "unat (worker_number s)"
  have "Absent \<notin> set (workers p)" if "i < ?n" "sockets p ! i \<noteq> No_socket" for i
  proof -
    from ok that have "Make_socket i \<in> set dn" by (simp add: impl_ok_def Let_def stage_def)
    from after_workers(2) [OF _ this, of fd ?n "todo p" i] ok have "\<forall>j < ?n. Create_thread j \<in> set dn"
      by (simp add: impl_ok_def Let_def)
    with ok show ?thesis by (auto simp: impl_ok_def Let_def stage_def in_set_conv_nth)
  qed
  with ok show ?thesis by (auto simp: impl_ok_def Let_def)
qed

text \<open>Two workers, up to the joins; then the socket of the first becomes ready and is handed to h2o.\<close>

lemma start_moves:
  "todo p = sts @ rest \<Longrightarrow> \<forall>st \<in> set sts. \<forall>i. st \<noteq> Join i \<Longrightarrow>
     impl_step\<^sup>*\<^sup>* p (fold start_move sts p)"
proof (induction sts arbitrary: p)
  case (Cons st sts)
  have "may_run st p" using Cons.prems(2) by (cases st) (simp_all add: may_run_def)
  then have "impl_step p (start_move st p)" using Cons.prems(1) by (auto intro: start_turn)
  moreover have "impl_step\<^sup>*\<^sup>* (start_move st p) (fold start_move sts (start_move st p))"
    using Cons.prems by (intro Cons.IH) (simp_all add: start_move_def)
  ultimately show ?case by simp
qed simp

lemma program_2:
  "start_program fd 2 = [Create_loop 0, Init_context 0, Set_accept_ctx 0, Create_thread 0, Create_loop 1, Init_context 1,
     Set_accept_ctx 1, Create_thread 1, Make_fd fd, Bind_fd fd, Listen_fd fd, Make_socket 0, Start_read 0, Make_socket 1,
     Start_read 1, Join 0, Join 1]"
proof -
  have "[0..<2] = [0, 1::nat]" by (simp add: upt_rec)
  then show ?thesis by (simp add: start_program_def worker_stmts_def socket_stmts_def)
qed

definition handed_over :: impl_process where
  "handed_over = \<lparr>srv = read_callback False 0 (OnAccept False 0
       (fold run_stmt (butlast (butlast (start_program 3 2))) (begin_Start two_workers))),
     todo = [Join 0, Join 1], workers = [Looping, Looping], sockets = [Reading, Listening]\<rparr>"

lemma start_process_2: "start_process 3 two_workers = \<lparr>srv = begin_Start two_workers, todo = start_program 3 2,
    workers = [Absent, Absent], sockets = [No_socket, No_socket]\<rparr>"
proof -
  have "replicate 2 Absent = [Absent, Absent]" "replicate 2 No_socket = [No_socket, No_socket]"
    by (simp_all add: numeral_2_eq_2)
  then show ?thesis by (simp add: start_process_def)
qed

lemma handed_over_reachable: "impl_step\<^sup>*\<^sup>* (start_process 3 two_workers) handed_over"
proof -
  let ?sts = "butlast (butlast (start_program 3 2))"
  let ?p = "fold start_move ?sts (start_process 3 two_workers)"
  let ?q = "?p\<lparr>srv := OnAccept False 0 (srv ?p), sockets := (sockets ?p)[0 := if False then Closed else Reading]\<rparr>"
  have p: "?p = \<lparr>srv = fold run_stmt ?sts (begin_Start two_workers), todo = [Join 0, Join 1],
      workers = [Looping, Looping], sockets = [Listening, Listening]\<rparr>"
    by (simp add: start_process_2 start_move_def program_2)
  have "impl_step\<^sup>*\<^sup>* (start_process 3 two_workers) ?p"
    by (rule start_moves [of _ _ "[Join 0, Join 1]"]) (simp_all add: start_process_2 program_2)
  moreover have "impl_step ?p ?q"
    by (rule on_accept) (simp_all add: p)
  moreover have "impl_step ?q handed_over"
    using on_read [of 0 ?q False] by (simp add: p handed_over_def)
  ultimately show ?thesis by (meson rtranclp.rtrancl_into_rtrancl)
qed

theorem start_among_threads_witness:
  "todo handed_over = [Join 0, Join 1] \<and> workers handed_over ! 0 = Looping \<and> \<not> may_run (Join 0) handed_over \<and>
    (\<exists>i < unat (worker_number two_workers). Join 0 = Join i \<and> workers handed_over ! i = Looping) \<and>
    (\<exists>p'. impl_step\<^sup>*\<^sup>* handed_over p' \<and> todo p' = [])"
proof -
  have here: "todo handed_over = [Join 0, Join 1]" "workers handed_over ! 0 = Looping" "\<not> may_run (Join 0) handed_over"
    by (simp_all add: handed_over_def may_run_def)
  have "\<forall>c \<in> set (i_calls two_workers). socket_of c = None" by simp
  from start_among_threads [OF handed_over_reachable this] here show ?thesis by blast
qed

theorem sockets_among_threads_witness:
  "I_accept (Some 1) 0 \<in> set (i_calls (srv handed_over)) \<and> unat (worker_number two_workers) = 2 \<and>
    socket_history 0 (i_calls (srv handed_over)) = Some (sockets handed_over ! 0) \<and>
    sockets handed_over ! 0 = Reading \<and> Absent \<notin> set (workers handed_over)"
proof -
  have accept: "I_accept (Some 1) 0 \<in> set (i_calls (srv handed_over))"
    by (simp add: handed_over_def read_callback_def OnAccept_def program_2 begin_Start_def)
  have here: "unat (worker_number two_workers) = 2" "sockets handed_over ! 0 = Reading" "Reading \<noteq> No_socket"
    by (simp_all add: handed_over_def)
  have "\<forall>c \<in> set (i_calls two_workers). socket_of c = None" by simp
  note general = sockets_among_threads [OF handed_over_reachable this]
  from general accept have "0 < unat (worker_number two_workers)" by blast
  with general accept here show ?thesis by metis
qed

end
