(* ===== verification/Regex_Lang.thy ===== *)
theory Regex_Lang
  imports Pico_Base
begin

text \<open>
  The fragment of \<open>std::regex\<close> (ECMAScript grammar) that the router uses: character classes
  with ranges, concatenation, alternation and repetition, under \<open>std::regex_match\<close>, which
  asks for a match of the whole string. The matcher is executable (derivatives); the
  declarative language is \<open>rx_lang\<close>, and \<open>regex_match_lang\<close> says they agree.
\<close>

section \<open>Expressions and their language\<close>

datatype regex =
    Rx_none
  | Rx_empty
  | Rx_class "(char \<times> char) list"
  | Rx_seq regex regex
  | Rx_alt regex regex
  | Rx_star regex

definition Rx_plus :: "regex \<Rightarrow> regex" where
  "Rx_plus r = Rx_seq r (Rx_star r)"

definition Rx_char :: "char \<Rightarrow> regex" where
  "Rx_char c = Rx_class [(c, c)]"

definition in_range :: "char \<Rightarrow> char \<times> char \<Rightarrow> bool" where
  "in_range c r = ((of_char (fst r) :: nat) \<le> of_char c \<and> (of_char c :: nat) \<le> of_char (snd r))"

definition in_class :: "(char \<times> char) list \<Rightarrow> char \<Rightarrow> bool" where
  "in_class rs c = list_ex (in_range c) rs"

inductive_set star_of :: "string set \<Rightarrow> string set" for L where
  star_empty: "[] \<in> star_of L"
| star_step: "u \<in> L \<Longrightarrow> v \<in> star_of L \<Longrightarrow> u @ v \<in> star_of L"

primrec rx_lang :: "regex \<Rightarrow> string set" where
  "rx_lang Rx_none = {}"
| "rx_lang Rx_empty = {[]}"
| "rx_lang (Rx_class rs) = {[c] | c. in_class rs c}"
| "rx_lang (Rx_seq r s) = {u @ v | u v. u \<in> rx_lang r \<and> v \<in> rx_lang s}"
| "rx_lang (Rx_alt r s) = rx_lang r \<union> rx_lang s"
| "rx_lang (Rx_star r) = star_of (rx_lang r)"

section \<open>The matcher\<close>

primrec nullable :: "regex \<Rightarrow> bool" where
  "nullable Rx_none = False"
| "nullable Rx_empty = True"
| "nullable (Rx_class rs) = False"
| "nullable (Rx_seq r s) = (nullable r \<and> nullable s)"
| "nullable (Rx_alt r s) = (nullable r \<or> nullable s)"
| "nullable (Rx_star r) = True"

text \<open>Sequence and alternative without the parts that contribute nothing.\<close>

definition mk_seq :: "regex \<Rightarrow> regex \<Rightarrow> regex" where
  "mk_seq r s = (if r = Rx_none \<or> s = Rx_none then Rx_none else if r = Rx_empty then s else Rx_seq r s)"

definition mk_alt :: "regex \<Rightarrow> regex \<Rightarrow> regex" where
  "mk_alt r s = (if r = Rx_none \<or> r = s then s else if s = Rx_none then r else Rx_alt r s)"

primrec deriv :: "char \<Rightarrow> regex \<Rightarrow> regex" where
  "deriv c Rx_none = Rx_none"
| "deriv c Rx_empty = Rx_none"
| "deriv c (Rx_class rs) = (if in_class rs c then Rx_empty else Rx_none)"
| "deriv c (Rx_seq r s) =
     (if nullable r then mk_alt (mk_seq (deriv c r) s) (deriv c s) else mk_seq (deriv c r) s)"
| "deriv c (Rx_alt r s) = mk_alt (deriv c r) (deriv c s)"
| "deriv c (Rx_star r) = mk_seq (deriv c r) (Rx_star r)"

definition regex_match :: "string \<Rightarrow> regex \<Rightarrow> bool" where
  "regex_match s r = nullable (fold deriv s r)"

section \<open>The matcher decides the language\<close>

lemma lang_mk_seq [simp]: "rx_lang (mk_seq r s) = rx_lang (Rx_seq r s)"
  by (auto simp: mk_seq_def)

lemma lang_mk_alt [simp]: "rx_lang (mk_alt r s) = rx_lang (Rx_alt r s)"
  by (auto simp: mk_alt_def)

lemma nullable_lang: "nullable r \<longleftrightarrow> [] \<in> rx_lang r"
  by (induction r) (auto intro: star_empty)

lemma star_of_Cons:
  "c # w \<in> star_of L \<longleftrightarrow> (\<exists>u v. w = u @ v \<and> c # u \<in> L \<and> v \<in> star_of L)" (is "?l \<longleftrightarrow> ?r")
proof
  assume ?l
  then show ?r
  proof (induction "c # w" arbitrary: w rule: star_of.induct)
    case (star_step u v)
    then show ?case by (cases u) auto
  qed
next
  assume ?r
  then obtain u v where "w = u @ v" "c # u \<in> L" "v \<in> star_of L" by blast
  with star_step [of "c # u" L v] show ?l by simp
qed

lemma seq_lang_Cons:
  "c # w \<in> rx_lang (Rx_seq r s) \<longleftrightarrow>
     (\<exists>u v. w = u @ v \<and> c # u \<in> rx_lang r \<and> v \<in> rx_lang s) \<or> [] \<in> rx_lang r \<and> c # w \<in> rx_lang s"
proof -
  have "c # w = u @ v \<longleftrightarrow> (u = [] \<and> v = c # w) \<or> (\<exists>u'. u = c # u' \<and> w = u' @ v)" for u v
    by (cases u) auto
  then show ?thesis by auto
qed

lemma deriv_lang: "w \<in> rx_lang (deriv c r) \<longleftrightarrow> c # w \<in> rx_lang r"
proof (induction r arbitrary: w)
  case (Rx_seq r s)
  have "w \<in> rx_lang (deriv c (Rx_seq r s)) \<longleftrightarrow>
      (\<exists>u v. w = u @ v \<and> c # u \<in> rx_lang r \<and> v \<in> rx_lang s) \<or> [] \<in> rx_lang r \<and> c # w \<in> rx_lang s"
    using Rx_seq.IH by (auto simp: nullable_lang)
  then show ?case by (simp only: seq_lang_Cons)
next
  case (Rx_star r)
  then show ?case by (auto simp: star_of_Cons)
qed auto

lemma fold_deriv_lang: "v \<in> rx_lang (fold deriv s r) \<longleftrightarrow> s @ v \<in> rx_lang r"
  by (induction s arbitrary: r) (auto simp: deriv_lang)

lemma regex_match_lang: "regex_match s r \<longleftrightarrow> s \<in> rx_lang r"
  using fold_deriv_lang [of "[]" s r] by (simp add: regex_match_def nullable_lang)

section \<open>Languages of the shapes in use\<close>

lemma star_class: "w \<in> star_of {[c] | c. in_class rs c} \<longleftrightarrow> (\<forall>c \<in> set w. in_class rs c)"
proof (induction w)
  case Nil
  then show ?case by (simp add: star_empty)
next
  case (Cons c w)
  then show ?case by (auto simp: star_of_Cons)
qed

lemma lang_plus_class:
  "w \<in> rx_lang (Rx_plus (Rx_class rs)) \<longleftrightarrow> w \<noteq> [] \<and> (\<forall>c \<in> set w. in_class rs c)"
proof (cases w)
  case (Cons c v)
  have "w \<in> rx_lang (Rx_plus (Rx_class rs)) \<longleftrightarrow> in_class rs c \<and> v \<in> star_of {[c] | c. in_class rs c}"
    unfolding Cons Rx_plus_def seq_lang_Cons by auto
  then show ?thesis by (simp add: star_class Cons)
qed (simp add: Rx_plus_def)

lemma lang_Rx_char [simp]: "rx_lang (Rx_char c) = {[c]}"
proof -
  have "in_class [(c, c)] d \<longleftrightarrow> d = c" for d
    by (auto simp: in_class_def in_range_def)
  then show ?thesis by (simp add: Rx_char_def)
qed

lemma star_of_concat: "w \<in> star_of L \<longleftrightarrow> (\<exists>us. w = concat us \<and> set us \<subseteq> L)"
proof
  assume "w \<in> star_of L"
  then show "\<exists>us. w = concat us \<and> set us \<subseteq> L"
  proof induction
    case star_empty
    then show ?case by (intro exI [of _ "[]"]) simp
  next
    case (star_step u v)
    then obtain us where "v = concat us" "set us \<subseteq> L" by blast
    with star_step show ?case by (intro exI [of _ "u # us"]) simp
  qed
next
  assume "\<exists>us. w = concat us \<and> set us \<subseteq> L"
  then obtain us where "w = concat us" "set us \<subseteq> L" by blast
  then show "w \<in> star_of L"
    by (induction us arbitrary: w) (auto intro: star_empty star_step)
qed

end
