(* ===== verification/String_Utils.thy ===== *)
theory String_Utils
  imports Pico_Base
begin

text \<open>
  \<open>src/piconaut/utils/string_utils.h\<close>: the two \<open>SplitString\<close> overloads, \<open>RemoveSpaces\<close>
  and \<open>RemoveSpacesRef\<close>. The loops keep the source's \<open>start\<close> and \<open>end\<close> positions and
  the \<open>substr\<close> calls that could throw; the lemmas show that they never throw and give the
  reference description of the result.
\<close>

section \<open>The \<open>std::string\<close> operations that are used\<close>

text \<open>\<open>str.find(c, pos)\<close>; \<open>None\<close> is \<open>std::string::npos\<close>.\<close>

fun find_from :: "string \<Rightarrow> char \<Rightarrow> nat \<Rightarrow> nat option" where
  "find_from [] c pos = None"
| "find_from (x # xs) c 0 = (if x = c then Some 0 else map_option Suc (find_from xs c 0))"
| "find_from (x # xs) c (Suc n) = map_option Suc (find_from xs c n)"

text \<open>\<open>str.substr(pos, count)\<close>; \<open>None\<close> as count is a count past the end of the string.\<close>

definition substr :: "string \<Rightarrow> nat \<Rightarrow> nat option \<Rightarrow> string result" where
  "substr str pos count =
     (if pos > length str then Inl Out_of_range
      else Inr (case count of None \<Rightarrow> drop pos str | Some n \<Rightarrow> take n (drop pos str)))"

lemma find_from_bounds: "find_from s c n = Some i \<Longrightarrow> n \<le> i \<and> i < length s"
  by (induction s c n arbitrary: i rule: find_from.induct) (auto split: if_splits)

lemma find_from_shift: "find_from s c n = map_option ((+) n) (find_from (drop n s) c 0)"
proof (induction s c n rule: find_from.induct)
  case (3 x xs c n)
  then show ?case by (cases "find_from (drop n xs) c 0") auto
qed (auto simp: option.map_ident)

lemma find_from_0_None: "find_from s c 0 = None \<longleftrightarrow> c \<notin> set s"
  by (induction s) auto

lemma find_from_0_Some:
  "find_from s c 0 = Some i \<Longrightarrow> s = take i s @ c # drop (Suc i) s \<and> c \<notin> set (take i s)"
  by (induction s arbitrary: i) (auto split: if_splits)

section \<open>SplitString\<close>

text \<open>
  The loop of the overload that returns a vector: \<open>end - start\<close> with \<open>end = npos\<close> is a
  count past the end.
\<close>

function split_loop :: "string \<Rightarrow> char \<Rightarrow> nat \<Rightarrow> nat option \<Rightarrow> string list \<Rightarrow> string list result" where
  "split_loop str delimiter start None tokens =
     bind_result (substr str start None) (\<lambda>t. Inr (tokens @ [t]))"
| "split_loop str delimiter start (Some end) tokens =
     bind_result (substr str start (Some (end - start)))
       (\<lambda>t. split_loop str delimiter (end + 1) (find_from str delimiter (end + 1)) (tokens @ [t]))"
  by pat_completeness auto
termination
  by (relation "measure (\<lambda>(str, d, start, e, ts).
        case e of None \<Rightarrow> 0 | Some i \<Rightarrow> Suc (Suc (length str) - i))")
    (auto split: option.splits dest!: find_from_bounds)

definition SplitString :: "string \<Rightarrow> char \<Rightarrow> string list result" where
  "SplitString str delimiter = split_loop str delimiter 0 (find_from str delimiter 0) []"

text \<open>
  The overload with a callback: the callback's effect on its captured state is a function
  \<open>callback\<close> from the token and the state to the new state.
\<close>

function split_cb_loop ::
  "(string \<Rightarrow> 's \<Rightarrow> 's) \<Rightarrow> string \<Rightarrow> char \<Rightarrow> nat \<Rightarrow> nat option \<Rightarrow> 's \<Rightarrow> 's result" where
  "split_cb_loop callback str delimiter start None s =
     bind_result (substr str start None) (\<lambda>t. Inr (callback t s))"
| "split_cb_loop callback str delimiter start (Some end) s =
     bind_result (substr str start (Some (end - start)))
       (\<lambda>t. split_cb_loop callback str delimiter (end + 1)
              (find_from str delimiter (end + 1)) (callback t s))"
  by pat_completeness auto
termination
  by (relation "measure (\<lambda>(f, str, d, start, e, s).
        case e of None \<Rightarrow> 0 | Some i \<Rightarrow> Suc (Suc (length str) - i))")
    (auto split: option.splits dest!: find_from_bounds)

definition SplitString_cb :: "string \<Rightarrow> char \<Rightarrow> (string \<Rightarrow> 's \<Rightarrow> 's) \<Rightarrow> 's \<Rightarrow> 's result" where
  "SplitString_cb str delimiter callback s =
     split_cb_loop callback str delimiter 0 (find_from str delimiter 0) s"

section \<open>RemoveSpaces\<close>

text \<open>\<open>::isspace\<close> in the C locale.\<close>

definition isspace :: "char \<Rightarrow> bool" where
  "isspace c = (c \<in> set [CHR 0x20, CHR 0x09, CHR 0x0A, CHR 0x0B, CHR 0x0C, CHR 0x0D])"

text \<open>\<open>remove_if\<close> moves the kept characters to the front, in order; \<open>erase\<close> drops the rest.\<close>

definition RemoveSpaces :: "string \<Rightarrow> string" where
  "RemoveSpaces str_to_clean = filter (\<lambda>c. \<not> isspace c) str_to_clean"

definition RemoveSpacesRef :: "string \<Rightarrow> string" where
  "RemoveSpacesRef str = filter (\<lambda>c. \<not> isspace c) str"

lemma RemoveSpacesRef_id: "(\<And>c. c \<in> set s \<Longrightarrow> \<not> isspace c) \<Longrightarrow> RemoveSpacesRef s = s"
  by (simp add: RemoveSpacesRef_def)

section \<open>Reference description of splitting\<close>

fun splits :: "char \<Rightarrow> string \<Rightarrow> string list" where
  "splits d [] = [[]]"
| "splits d (c # cs) =
     (if c = d then [] # splits d cs
      else (case splits d cs of [] \<Rightarrow> [[c]] | t # ts \<Rightarrow> (c # t) # ts))"

fun joined :: "char \<Rightarrow> string list \<Rightarrow> string" where
  "joined d [] = []"
| "joined d [t] = t"
| "joined d (t # ts) = t @ d # joined d ts"

lemma splits_nonempty [simp]: "splits d s \<noteq> []"
  by (induction s) (auto split: list.splits)

lemma splits_no_delimiter: "t \<in> set (splits d s) \<Longrightarrow> d \<notin> set t"
proof (induction s arbitrary: t)
  case Nil
  then show ?case by simp
next
  case (Cons c cs)
  then show ?case by (cases "splits d cs") (auto split: if_splits)
qed

lemma joined_Cons: "ts \<noteq> [] \<Longrightarrow> joined d (t # ts) = t @ d # joined d ts"
  by (cases ts) auto

lemma joined_splits: "joined d (splits d s) = s"
proof (induction s)
  case Nil
  then show ?case by simp
next
  case (Cons c cs)
  show ?case
  proof (cases "splits d cs")
    case (Cons t ts)
    with Cons.IH show ?thesis by (cases ts) (auto simp: joined_Cons)
  qed simp
qed

lemma splits_absent: "d \<notin> set s \<Longrightarrow> splits d s = [s]"
  by (induction s) auto

lemma splits_append: "d \<notin> set t \<Longrightarrow> splits d (t @ d # s) = t # splits d s"
  by (induction t) auto

lemma splits_joined:
  "ts \<noteq> [] \<Longrightarrow> (\<And>t. t \<in> set ts \<Longrightarrow> d \<notin> set t) \<Longrightarrow> splits d (joined d ts) = ts"
proof (induction ts)
  case Nil
  then show ?case by simp
next
  case (Cons t ts)
  then show ?case by (cases "ts = []") (auto simp: joined_Cons splits_absent splits_append)
qed

lemma set_splits: "t \<in> set (splits d s) \<Longrightarrow> set t \<subseteq> set s"
proof (induction s arbitrary: t)
  case Nil
  then show ?case by simp
next
  case (Cons c cs)
  then show ?case by (cases "splits d cs") (fastforce split: if_splits)+
qed

lemma length_splits: "length (splits d s) = Suc (count_list s d)"
proof (induction s)
  case Nil
  then show ?case by simp
next
  case (Cons c cs)
  then show ?case by (cases "splits d cs") auto
qed

section \<open>The loops compute the reference description\<close>

lemma substr_safe [safe_rules]: "pos \<le> length str \<Longrightarrow> \<exists>t. substr str pos n = Inr t"
  by (simp add: substr_def)

lemma splits_drop_step:
  assumes "find_from str d start = Some i"
  shows "splits d (drop start str) = take (i - start) (drop start str) # splits d (drop (Suc i) str)"
proof -
  from assms obtain j where j: "find_from (drop start str) d 0 = Some j" and i: "i = start + j"
    by (subst (asm) find_from_shift) auto
  from find_from_0_Some [OF j] i
  have "drop start str = take (i - start) (drop start str) @ d # drop (Suc i) str"
    and "d \<notin> set (take (i - start) (drop start str))"
    by (simp_all add: add.commute)
  then show ?thesis by (metis splits_append)
qed

lemma splits_drop_stop:
  "find_from str d start = None \<Longrightarrow> splits d (drop start str) = [drop start str]"
  by (subst (asm) find_from_shift) (simp add: find_from_0_None splits_absent)

lemma split_loop_splits:
  assumes "start \<le> length str" and "e = find_from str d start"
  shows "split_loop str d start e tokens = Inr (tokens @ splits d (drop start str))"
  using assms
proof (induction str d start e tokens rule: split_loop.induct)
  case (1 str d start tokens)
  then show ?case by (simp add: substr_def splits_drop_stop)
next
  case (2 str d start i tokens)
  from 2(3) have found: "find_from str d start = Some i" by simp
  then have "start \<le> i" "i < length str" by (auto dest: find_from_bounds)
  with 2 found show ?case by (simp add: substr_def splits_drop_step)
qed

lemma split_cb_loop_splits:
  assumes "start \<le> length str" and "e = find_from str d start"
  shows "split_cb_loop f str d start e s = Inr (fold f (splits d (drop start str)) s)"
  using assms
proof (induction f str d start e s rule: split_cb_loop.induct)
  case (1 f str d start s)
  then show ?case by (simp add: substr_def splits_drop_stop)
next
  case (2 f str d start i s)
  from 2(3) have found: "find_from str d start = Some i" by simp
  then have "start \<le> i" "i < length str" by (auto dest: find_from_bounds)
  with 2 found show ?case by (simp add: substr_def splits_drop_step)
qed

lemma SplitString_splits [safe_rules]: "SplitString str d = Inr (splits d str)"
  by (simp add: SplitString_def split_loop_splits)

lemma SplitString_cb_splits [safe_rules]: "SplitString_cb str d f s = Inr (fold f (splits d str) s)"
  by (simp add: SplitString_cb_def split_cb_loop_splits)

section \<open>Properties\<close>

text \<open>C27. \<open>SplitString\<close> always returns, and its result is the only list of tokens that is not empty,
  has the delimiter in no token, and gives the input back when it is joined with the delimiter.\<close>

theorem SplitString_inverts_join:
  "SplitString str d = Inr ts \<longleftrightarrow> ts \<noteq> [] \<and> (\<forall>t \<in> set ts. d \<notin> set t) \<and> joined d ts = str"
  using splits_joined [of ts d] joined_splits [of d str] splits_no_delimiter [of _ d str]
  by (auto simp: SplitString_splits)

theorem SplitString_inverts_join_witness:
  "SplitString ''/a/b'' (CHR ''/'') = Inr [[], ''a'', ''b''] \<longleftrightarrow>
     [[], ''a'', ''b''] \<noteq> [] \<and> (\<forall>t \<in> set [[], ''a'', ''b'']. CHR ''/'' \<notin> set t) \<and>
     joined (CHR ''/'') [[], ''a'', ''b''] = ''/a/b''"
  by (rule SplitString_inverts_join)

text \<open>The overload with a callback does the same to the callback's state as splitting first and
  calling it on the tokens in order: it returns always, once per token, last token included.\<close>

theorem SplitString_callback:
  "SplitString_cb str d f s = bind_result (SplitString str d) (\<lambda>ts. Inr (fold f ts s)) \<and>
     (\<exists>ts. SplitString str d = Inr ts \<and> length ts = Suc (count_list str d))"
  by (simp add: SplitString_splits SplitString_cb_splits length_splits)

end
