(* ===== verification/Route_Syntax.thy ===== *)
theory Route_Syntax
  imports Regex_Lang String_Utils
begin

text \<open>
  Route pattern syntax, \<open>Router::IsValidRoute\<close> of \<open>src/piconaut/routers/router.cc\<close>: the
  regular expression over the whole pattern, then the scan over the braces. The lemmas give
  the grammar it accepts and the shape of the split pattern.
\<close>

section \<open>The two regular expressions of the router\<close>

definition alnum_ranges :: "(char \<times> char) list" where
  "alnum_ranges = [(CHR ''A'', CHR ''Z''), (CHR ''a'', CHR ''z''), (CHR ''0'', CHR ''9'')]"

text \<open>
  The character class of a segment: letters, digits, and the listed characters; \<open>CHR 0x27\<close> is the
  single quote, \<open>CHR 0x7B\<close> and \<open>CHR 0x7D\<close> are the braces.
\<close>

definition route_class :: "(char \<times> char) list" where
  "route_class = alnum_ranges @
     map (\<lambda>c. (c, c)) (''-._~%!$&'' @ [CHR 0x27] @ ''()*+,;=:@'' @ [CHR 0x7B, CHR 0x7D])"

definition valid_route_regex :: regex where
  "valid_route_regex = Rx_star (Rx_seq (Rx_char (CHR ''/'')) (Rx_plus (Rx_class route_class)))"

text \<open>The class \<open>[a-zA-Z0-9_-]\<close> of a parameter value.\<close>

definition ident_class :: "(char \<times> char) list" where
  "ident_class = [(CHR ''a'', CHR ''z''), (CHR ''A'', CHR ''Z''), (CHR ''0'', CHR ''9''),
     (CHR ''_'', CHR ''_''), (CHR ''-'', CHR ''-'')]"

definition param_value_regex :: regex where
  "param_value_regex = Rx_plus (Rx_class ident_class)"

abbreviation ident_char :: "char \<Rightarrow> bool" where
  "ident_char c \<equiv> in_class ident_class c"

abbreviation route_char :: "char \<Rightarrow> bool" where
  "route_char c \<equiv> in_class route_class c"

section \<open>IsValidRoute\<close>

abbreviation lbrace :: char where "lbrace \<equiv> CHR 0x7B"
abbreviation rbrace :: char where "rbrace \<equiv> CHR 0x7D"

text \<open>
  The \<open>while\<close> loop: the list is the rest of the path from \<open>pos\<close> on, so \<open>path[pos + 1]\<close> is the
  first character after it, when there is one.
\<close>

fun brace_loop :: "string \<Rightarrow> bool \<Rightarrow> bool" where
  "brace_loop [] inside_param = (\<not> inside_param)"
| "brace_loop (c # rest) inside_param =
     (if c = lbrace then (if inside_param then False else brace_loop rest True)
      else if c = rbrace then
        (if \<not> inside_param then False
         else if (case rest of [] \<Rightarrow> False | d # _ \<Rightarrow> d = lbrace) then False
         else brace_loop rest False)
      else brace_loop rest inside_param)"

definition IsValidRoute :: "string \<Rightarrow> bool" where
  "IsValidRoute path = (if \<not> regex_match path valid_route_regex then False else brace_loop path False)"

section \<open>The characters of a pattern\<close>

lemma slash_not_route_char: "\<not> route_char (CHR ''/'')"
  by (simp add: in_class_def in_range_def route_class_def alnum_ranges_def)

lemma space_not_route_char: "isspace c \<Longrightarrow> \<not> route_char c"
  by (auto simp: isspace_def in_class_def in_range_def route_class_def alnum_ranges_def)

lemma slash_not_ident_char: "\<not> ident_char (CHR ''/'')"
  by (simp add: in_class_def in_range_def ident_class_def)

lemma lbrace_not_ident_char: "\<not> ident_char lbrace"
  by (simp add: in_class_def in_range_def ident_class_def)

lemma param_value_iff:
  "regex_match s param_value_regex \<longleftrightarrow> s \<noteq> [] \<and> (\<forall>c \<in> set s. ident_char c)"
  by (simp add: param_value_regex_def regex_match_lang lang_plus_class)

section \<open>The language of the route expression\<close>

definition slash_path :: "string list \<Rightarrow> string" where
  "slash_path segs = concat (map (\<lambda>s. CHR ''/'' # s) segs)"

lemma slash_path_simps [simp]:
  "slash_path [] = []" "slash_path (s # ss) = CHR ''/'' # s @ slash_path ss"
  by (simp_all add: slash_path_def)

lemma slash_path_joined: "ts \<noteq> [] \<Longrightarrow> slash_path ts = CHR ''/'' # joined (CHR ''/'') ts"
proof (induction ts)
  case (Cons t ts)
  then show ?case by (cases "ts = []") (simp_all add: joined_Cons)
qed simp

lemma splits_slash_path:
  assumes "\<And>s. s \<in> set segs \<Longrightarrow> CHR ''/'' \<notin> set s"
  shows "splits (CHR ''/'') (slash_path segs) = [] # segs"
proof (cases "segs = []")
  case False
  then show ?thesis using assms by (simp add: slash_path_joined splits_joined)
qed simp

definition route_segments :: "string list \<Rightarrow> bool" where
  "route_segments segs = (\<forall>s \<in> set segs. s \<noteq> [] \<and> (\<forall>c \<in> set s. route_char c))"

lemma route_regex_segments:
  "regex_match path valid_route_regex \<longleftrightarrow> (\<exists>segs. path = slash_path segs \<and> route_segments segs)"
proof -
  let ?L = "rx_lang (Rx_seq (Rx_char (CHR ''/'')) (Rx_plus (Rx_class route_class)))"
  let ?good = "\<lambda>s. s \<noteq> [] \<and> (\<forall>c \<in> set s. route_char c)"
  have L: "?L = (\<lambda>s. CHR ''/'' # s) ` {s. ?good s}"
    by (auto simp del: lang_plus_class simp: lang_plus_class)
  have "set us \<subseteq> ?L \<longleftrightarrow> (\<exists>segs. us = map (\<lambda>s. CHR ''/'' # s) segs \<and> route_segments segs)" for us
  proof (induction us)
    case Nil
    then show ?case by (simp add: route_segments_def)
  next
    case (Cons u us)
    then show ?case
      unfolding L route_segments_def by (auto simp: Cons_eq_map_conv)
  qed
  then show ?thesis
    by (auto simp: regex_match_lang valid_route_regex_def star_of_concat slash_path_def
        simp del: rx_lang.simps(4) slash_path_simps)
qed

section \<open>The brace grammar\<close>

text \<open>
  Text without braces, or text, one parameter in braces, and more text that does not start with
  an opening brace: what the comments of \<open>IsValidRoute\<close> describe.
\<close>

definition no_braces :: "string \<Rightarrow> bool" where
  "no_braces s = (lbrace \<notin> set s \<and> rbrace \<notin> set s)"

inductive brace_text :: "string \<Rightarrow> bool" where
  plain: "no_braces s \<Longrightarrow> brace_text s"
| param: "no_braces a \<Longrightarrow> no_braces n \<Longrightarrow> brace_text s \<Longrightarrow> take 1 s \<noteq> [lbrace] \<Longrightarrow>
    brace_text (a @ lbrace # n @ rbrace # s)"

lemma brace_loop_plain: "no_braces a \<Longrightarrow> brace_loop (a @ s) b = brace_loop s b"
  by (induction a) (auto simp: no_braces_def)

lemma brace_loop_True:
  "brace_loop s True \<longleftrightarrow>
     (\<exists>n t. s = n @ rbrace # t \<and> no_braces n \<and> take 1 t \<noteq> [lbrace] \<and> brace_loop t False)"
proof (induction s)
  case Nil
  then show ?case by simp
next
  case (Cons c s)
  have shift: "(\<exists>n t. c # s = n @ rbrace # t \<and> no_braces n \<and> P t) \<longleftrightarrow>
      (if c = rbrace then P s else c \<noteq> lbrace \<and> (\<exists>n t. s = n @ rbrace # t \<and> no_braces n \<and> P t))" for P
  proof (cases "c = rbrace")
    case True
    then have only: "c # s = n @ rbrace # t \<and> no_braces n \<longleftrightarrow> n = [] \<and> t = s" for n t
      by (cases n) (auto simp: no_braces_def)
    have "(\<exists>n t. c # s = n @ rbrace # t \<and> no_braces n \<and> P t) \<longleftrightarrow> (\<exists>(n :: string) t. (n = [] \<and> t = s) \<and> P t)"
      unfolding conj_assoc [symmetric] only by (rule refl)
    with True show ?thesis by simp
  next
    case False
    have "(\<exists>n t. c # s = n @ rbrace # t \<and> no_braces n \<and> P t) \<longleftrightarrow>
        (\<exists>n t. s = n @ rbrace # t \<and> no_braces (c # n) \<and> P t)"
    proof
      assume "\<exists>n t. c # s = n @ rbrace # t \<and> no_braces n \<and> P t"
      with False show "\<exists>n t. s = n @ rbrace # t \<and> no_braces (c # n) \<and> P t"
        by (auto simp: Cons_eq_append_conv)
    next
      assume "\<exists>n t. s = n @ rbrace # t \<and> no_braces (c # n) \<and> P t"
      then obtain n t where "c # s = (c # n) @ rbrace # t" "no_braces (c # n)" "P t" by auto
      then show "\<exists>n t. c # s = n @ rbrace # t \<and> no_braces n \<and> P t" by blast
    qed
    with False show ?thesis by (auto simp: no_braces_def)
  qed
  show ?case
    unfolding shift using Cons.IH by (auto split: list.splits)
qed

lemma brace_loop_sound: "brace_text s \<Longrightarrow> brace_loop s False"
proof (induction rule: brace_text.induct)
  case (plain s)
  then show ?case using brace_loop_plain [of s "[]" False] by simp
next
  case (param a n s)
  then have "brace_loop (n @ rbrace # s) True" by (auto simp: brace_loop_True)
  with param show ?case by (simp add: brace_loop_plain)
qed

lemma brace_loop_complete: "brace_loop s False \<Longrightarrow> brace_text s"
proof (induction "length s" arbitrary: s rule: less_induct)
  case less
  show ?case
  proof (cases "lbrace \<in> set s")
    case False
    have "no_braces s"
      using less.prems False
    proof (induction s)
      case (Cons c s)
      then show ?case by (auto simp: no_braces_def split: if_splits)
    qed (simp add: no_braces_def)
    then show ?thesis by (rule plain)
  next
    case True
    then obtain a t where s: "s = a @ lbrace # t" and a: "lbrace \<notin> set a"
      by (meson split_list_first)
    have nb: "no_braces a"
      using less.prems a unfolding s
    proof (induction a)
      case (Cons c a)
      then show ?case by (auto simp: no_braces_def split: if_splits)
    qed (simp add: no_braces_def)
    with less.prems s have "brace_loop t True" by (simp add: brace_loop_plain)
    then obtain n u where t: "t = n @ rbrace # u" "no_braces n" "take 1 u \<noteq> [lbrace]" "brace_loop u False"
      unfolding brace_loop_True by blast
    have "brace_text u" using less.hyps [of u] s t by simp
    with nb t s show ?thesis by (auto intro: brace_text.param)
  qed
qed

lemma brace_loop_grammar: "brace_loop s False \<longleftrightarrow> brace_text s"
  using brace_loop_sound brace_loop_complete by blast

lemma IsValidRoute_iff:
  "IsValidRoute path \<longleftrightarrow> (\<exists>segs. path = slash_path segs \<and> route_segments segs) \<and> brace_text path"
  by (auto simp: IsValidRoute_def route_regex_segments brace_loop_grammar)

section \<open>The split of an accepted pattern\<close>

lemma route_segments_no_slash: "route_segments segs \<Longrightarrow> s \<in> set segs \<Longrightarrow> CHR ''/'' \<notin> set s"
  using slash_not_route_char by (auto simp: route_segments_def)

lemma valid_route_splits:
  assumes "IsValidRoute path"
  obtains segs where "splits (CHR ''/'') path = [] # segs" and "route_segments segs"
    and "path = slash_path segs"
proof -
  from assms obtain segs where "path = slash_path segs" "route_segments segs"
    by (auto simp: IsValidRoute_iff)
  with that show thesis using splits_slash_path route_segments_no_slash by blast
qed

lemma valid_route_no_space:
  assumes "IsValidRoute path" and "p \<in> set (splits (CHR ''/'') path)" and "c \<in> set p"
  shows "\<not> isspace c"
proof -
  from assms(1) obtain segs where "splits (CHR ''/'') path = [] # segs" "route_segments segs"
    by (rule valid_route_splits)
  with assms(2,3) have "route_char c" by (auto simp: route_segments_def)
  then show ?thesis using space_not_route_char by blast
qed

section \<open>Properties\<close>

text \<open>C26. \<open>IsValidRoute\<close> decides the grammar its comments describe: a sequence of \<open>/\<close>-led, non-empty
  segments over the allowed characters (the empty path included, the path \<open>/\<close> not), in which the
  braces form parameters that are not nested and never adjacent.\<close>

theorem valid_route_grammar:
  "IsValidRoute path \<longleftrightarrow> (\<exists>segs. path = slash_path segs \<and> route_segments segs) \<and> brace_text path"
  by (rule IsValidRoute_iff)

text \<open>Consequences for the split of an accepted pattern, which \<open>AddRoute\<close> walks: the first part is
  always empty (so the \<open>front()\<close> of an empty string is asked for on every registration), every other
  part is not, and no part holds a character that \<open>RemoveSpaces\<close> would drop.\<close>

theorem valid_route_parts:
  assumes "IsValidRoute path" and "SplitString path (CHR ''/'') = Inr parts"
  shows "hd parts = [] \<and> (\<forall>p \<in> set (tl parts). p \<noteq> []) \<and> map RemoveSpacesRef parts = parts"
proof -
  from assms(1) obtain segs where "splits (CHR ''/'') path = [] # segs" "route_segments segs"
    by (rule valid_route_splits)
  moreover have "parts = splits (CHR ''/'') path" using assms(2) by (simp add: SplitString_splits)
  moreover have "map RemoveSpacesRef (splits (CHR ''/'') path) = splits (CHR ''/'') path"
    using valid_route_no_space [OF assms(1)] by (auto intro!: map_idI RemoveSpacesRef_id)
  ultimately show ?thesis by (simp add: route_segments_def)
qed

theorem valid_route_parts_witness:
  "hd [[], ''a'', ''{id}''] = [] \<and> (\<forall>p \<in> set (tl [[], ''a'', ''{id}'']). p \<noteq> []) \<and>
     map RemoveSpacesRef [[], ''a'', ''{id}''] = [[], ''a'', ''{id}'']"
proof (rule valid_route_parts)
  show "IsValidRoute ''/a/{id}''" by code_simp
  show "SplitString ''/a/{id}'' (CHR ''/'') = Inr [[], ''a'', ''{id}'']" by code_simp
qed

end
