(* ===== verification/Router.thy ===== *)
theory Router
  imports Route_Syntax
begin

text \<open>
  The routing trie: \<open>src/piconaut/routers/router_node.h\<close>, \<open>declare.h\<close>, and \<open>AddRoute\<close>,
  \<open>MatchRoute\<close> and \<open>PrintRouterTree\<close> of \<open>router.cc\<close>. A node's \<open>children\<close> map is an
  association list, a \<open>HandlerFn\<close> is an option (\<open>None\<close> is the empty \<open>std::function\<close>), and the
  loop that walks the \<open>node\<close> pointer down the tree is the recursion over the endpoint parts.
\<close>

section \<open>Nodes\<close>

datatype NodeType = kStatic | kParameter

datatype 'h RouterNode =
  RouterNode (children: "(string \<times> 'h RouterNode) list") (handler: "'h option") (ntype: NodeType)
    (param_name: string) (param_regex: regex) (key: size_t)

text \<open>
  \<open>std::make_unique<RouterNode>()\<close> value-initialises: the default member initialisers apply, the
  integer \<open>key\<close> is zeroed, and a default \<open>std::regex\<close> matches nothing.
\<close>

definition new_node :: "'h RouterNode" where
  "new_node = RouterNode [] None kStatic [] Rx_none 0"

primrec set_children :: "(string \<times> 'h RouterNode) list \<Rightarrow> 'h RouterNode \<Rightarrow> 'h RouterNode" where
  "set_children cs' (RouterNode cs h t pn rx k) = RouterNode cs' h t pn rx k"

primrec set_endpoint :: "size_t \<Rightarrow> 'h option \<Rightarrow> 'h RouterNode \<Rightarrow> 'h RouterNode" where
  "set_endpoint k' h' (RouterNode cs h t pn rx k) = RouterNode cs h' t pn rx k'"

primrec set_parameter :: "string \<Rightarrow> 'h RouterNode \<Rightarrow> 'h RouterNode" where
  "set_parameter pn' (RouterNode cs h t pn rx k) = RouterNode cs h kParameter pn' param_value_regex k"

primrec set_static :: "'h RouterNode \<Rightarrow> 'h RouterNode" where
  "set_static (RouterNode cs h t pn rx k) = RouterNode cs h kStatic pn rx k"

lemma new_node_sel [simp]:
  "children new_node = []" "handler new_node = None" "ntype new_node = kStatic"
  "param_name new_node = []" "param_regex new_node = Rx_none" "key new_node = 0"
  by (simp_all add: new_node_def)

lemma set_children_sel [simp]:
  "children (set_children cs n) = cs" "handler (set_children cs n) = handler n"
  "ntype (set_children cs n) = ntype n" "param_name (set_children cs n) = param_name n"
  "param_regex (set_children cs n) = param_regex n" "key (set_children cs n) = key n"
  by (cases n; simp)+

lemma set_endpoint_sel [simp]:
  "children (set_endpoint k h n) = children n" "handler (set_endpoint k h n) = h"
  "ntype (set_endpoint k h n) = ntype n" "param_name (set_endpoint k h n) = param_name n"
  "param_regex (set_endpoint k h n) = param_regex n" "key (set_endpoint k h n) = k"
  by (cases n; simp)+

lemma set_parameter_sel [simp]:
  "children (set_parameter p n) = children n" "handler (set_parameter p n) = handler n"
  "ntype (set_parameter p n) = kParameter" "param_name (set_parameter p n) = p"
  "param_regex (set_parameter p n) = param_value_regex" "key (set_parameter p n) = key n"
  by (cases n; simp)+

lemma set_static_sel [simp]:
  "children (set_static n) = children n" "handler (set_static n) = handler n"
  "ntype (set_static n) = kStatic" "param_name (set_static n) = param_name n"
  "param_regex (set_static n) = param_regex n" "key (set_static n) = key n"
  by (cases n; simp)+

section \<open>AddRoute\<close>

text \<open>
  \<open>front()\<close> of an empty string breaks the precondition of the library; its storage holds the
  NUL terminator there, which is what \<open>str_front\<close> returns. \<open>back()\<close> is only evaluated after
  \<open>front()\<close> has seen an opening brace.
\<close>

definition str_front :: "string \<Rightarrow> char" where
  "str_front s = (case s of [] \<Rightarrow> nul | c # _ \<Rightarrow> c)"

definition str_back :: "string \<Rightarrow> char" where
  "str_back s = (case rev s of [] \<Rightarrow> nul | c # _ \<Rightarrow> c)"

definition param_key :: string where
  "param_key = [lbrace, rbrace]"

definition normalized_part :: "string \<Rightarrow> string" where
  "normalized_part part = (if str_front part = lbrace \<and> str_back part = rbrace then param_key else part)"

text \<open>\<open>part.substr(1, part.size() - 2)\<close>\<close>

definition part_param_name :: "string \<Rightarrow> string" where
  "part_param_name part = take (length part - 2) (drop 1 part)"

fun add_parts :: "size_t \<Rightarrow> 'h option \<Rightarrow> string list \<Rightarrow> 'h RouterNode \<Rightarrow> 'h RouterNode" where
  "add_parts k h [] node = set_endpoint k h node"
| "add_parts k h (part # parts) node =
     (let np = normalized_part part;
          child = (case map_of (children node) np of None \<Rightarrow> new_node | Some c \<Rightarrow> c);
          child' = (if np = param_key then set_parameter (part_param_name part) child
                    else set_static child)
      in set_children (AList.update np (add_parts k h parts child') (children node)) node)"

text \<open>The callback of the split: clean the part and push it.\<close>

definition push_cleaned :: "string \<Rightarrow> string list \<Rightarrow> string list" where
  "push_cleaned part endpoint_parts = endpoint_parts @ [RemoveSpacesRef part]"

definition AddRoute :: "size_t \<Rightarrow> string \<Rightarrow> 'h option \<Rightarrow> 'h RouterNode \<Rightarrow> 'h RouterNode result" where
  "AddRoute k path h root =
     (if \<not> IsValidRoute path then Inl (Invalid_argument (''Invalid route pattern: '' @ path))
      else bind_result (SplitString_cb path (CHR ''/'') push_cleaned [])
        (\<lambda>parts. Inr (add_parts k h (if parts = [] then [[]] else parts) root)))"

section \<open>MatchRoute\<close>

type_synonym params = "(string \<times> string) list"

text \<open>
  \<open>RouterMatchResult\<close>: two nullable pointers, to the node's handler (itself possibly an empty
  function) and to its key.
\<close>

record 'h RouterMatchResult =
  executor :: "'h option option"
  result_key :: "size_t option"

definition IsEmpty :: "'h RouterMatchResult \<Rightarrow> bool" where
  "IsEmpty r = (executor r = None)"

definition no_match :: "'h RouterMatchResult" where
  "no_match = \<lparr>executor = None, result_key = None\<rparr>"

definition node_match :: "'h RouterNode \<Rightarrow> 'h RouterMatchResult" where
  "node_match node = \<lparr>executor = Some (handler node), result_key = Some (key node)\<rparr>"

text \<open>\<open>params\<close> is an in-out argument: a failed match leaves in it what was already assigned.\<close>

fun match_parts ::
  "string list \<Rightarrow> 'h RouterNode \<Rightarrow> params \<Rightarrow> 'h RouterNode option \<times> params" where
  "match_parts [] node params = (Some node, params)"
| "match_parts (part # parts) node params =
     (let try_param =
        (case map_of (children node) param_key of
           None \<Rightarrow> (None, params)
         | Some p \<Rightarrow>
             if ntype p = kParameter then
               (if \<not> regex_match part (param_regex p) then (None, params)
                else match_parts parts p (AList.update (param_name p) part params))
             else (None, params))
      in case map_of (children node) part of
           None \<Rightarrow> try_param
         | Some c \<Rightarrow> if ntype c = kStatic then match_parts parts c params else try_param)"

definition MatchRoute :: "string \<Rightarrow> params \<Rightarrow> 'h RouterNode \<Rightarrow> ('h RouterMatchResult \<times> params) result" where
  "MatchRoute path params root =
     bind_result (SplitString path (CHR ''/''))
       (\<lambda>parts. Inr (case match_parts parts root params of
            (None, ps) \<Rightarrow> (no_match, ps)
          | (Some node, ps) \<Rightarrow> (node_match node, ps)))"

section \<open>PrintRouterTree\<close>

text \<open>What is written to \<open>std::cout\<close>; \<open>std::endl\<close> is a newline.\<close>

fun PrintNode :: "string \<Rightarrow> 'h RouterNode \<Rightarrow> string" where
  "PrintNode prefix (RouterNode cs h t pn rx k) =
     concat (map (\<lambda>(name, child).
        prefix @ name @
        (if ntype child = kParameter then '' (param: '' @ param_name child @ '')'' else []) @
        [CHR 0x0A] @ PrintNode (prefix @ ''  '') child) cs)"

definition PrintRouterTree :: "'h RouterNode \<Rightarrow> string" where
  "PrintRouterTree root =
     ''Router Tree'' @ [CHR 0x0A] @ [CHR 0x0A] @ ''Route Root:'' @ PrintNode [] root"

section \<open>Normalised parts\<close>

lemma normalized_part_no_brace: "lbrace \<notin> set part \<Longrightarrow> normalized_part part = part"
  by (auto simp: normalized_part_def str_front_def split: list.splits)

lemma normalized_part_Nil [simp]: "normalized_part [] = []"
  by (simp add: normalized_part_no_brace)

lemma normalized_param [simp]: "normalized_part (lbrace # n @ [rbrace]) = param_key"
  by (simp add: normalized_part_def str_front_def str_back_def)

lemma part_param_name_param [simp]: "part_param_name (lbrace # n @ [rbrace]) = n"
  by (simp add: part_param_name_def)

lemma normalized_part_param_iff:
  "normalized_part part = param_key \<longleftrightarrow> (\<exists>n. part = lbrace # n @ [rbrace])"
proof
  assume *: "normalized_part part = param_key"
  show "\<exists>n. part = lbrace # n @ [rbrace]"
  proof (cases "str_front part = lbrace \<and> str_back part = rbrace")
    case True
    then obtain t where t: "part = lbrace # t" by (auto simp: str_front_def split: list.splits)
    from True t have "t \<noteq> []" and "last t = rbrace"
      by (cases t rule: rev_cases; auto simp: str_back_def)+
    then have "t = butlast t @ [rbrace]" by (metis append_butlast_last_id)
    with t show ?thesis by blast
  next
    case False
    with * have "part = lbrace # [] @ [rbrace]" by (auto simp: normalized_part_def param_key_def)
    then show ?thesis by blast
  qed
next
  assume "\<exists>n. part = lbrace # n @ [rbrace]"
  then show "normalized_part part = param_key" by auto
qed

lemma param_key_not_ident: "\<not> regex_match param_key param_value_regex"
  by (simp add: param_value_iff param_key_def lbrace_not_ident_char)

end
