(* ===== verification/Router_Spec.thy ===== *)
theory Router_Spec
  imports Router
begin

text \<open>
  Correctness of the routing trie of theory \<open>Router\<close>: the tree invariant, the abstract route
  table it implements (a finite map from normalised patterns to a key and a handler), and the
  declarative reading of a match. Sets of registered routes are built with \<open>add_routes\<close>.
\<close>

section \<open>The tree invariant\<close>

text \<open>
  Child names are distinct; the child under \<open>{}\<close> is the parameter node and carries the value
  expression, and every other child is static.
\<close>

definition child_ok :: "string \<Rightarrow> 'h RouterNode \<Rightarrow> bool" where
  "child_ok name c = (if name = param_key then ntype c = kParameter \<and> param_regex c = param_value_regex
     else ntype c = kStatic)"

fun wf_node :: "'h RouterNode \<Rightarrow> bool" where
  "wf_node (RouterNode cs h t pn rx k) =
     (distinct (map fst cs) \<and> (\<forall>e \<in> set cs. child_ok (fst e) (snd e) \<and> wf_node (snd e)))"

lemma wf_node_iff:
  "wf_node n \<longleftrightarrow> distinct (map fst (children n)) \<and>
     (\<forall>name c. map_of (children n) name = Some c \<longrightarrow> child_ok name c \<and> wf_node c)"
proof (cases n)
  case (RouterNode cs h t pn rx k)
  show ?thesis
  proof (cases "distinct (map fst cs)")
    case True
    then have "(\<forall>e \<in> set cs. P (fst e) (snd e)) \<longleftrightarrow> (\<forall>name c. map_of cs name = Some c \<longrightarrow> P name c)" for P
      by (auto simp: map_of_eq_Some_iff)
    from this [of "\<lambda>name c. child_ok name c \<and> wf_node c"] show ?thesis
      by (simp add: RouterNode)
  qed (simp add: RouterNode)
qed

lemma wf_new_node [simp]: "wf_node new_node"
  by (simp add: new_node_def)

lemma wf_child: "wf_node n \<Longrightarrow> map_of (children n) name = Some c \<Longrightarrow> wf_node c \<and> child_ok name c"
  using wf_node_iff [of n] by blast

lemma wf_set_simps [simp]:
  "wf_node (set_endpoint k h n) = wf_node n"
  "wf_node (set_parameter p n) = wf_node n"
  "wf_node (set_static n) = wf_node n"
  by (cases n; simp)+

text \<open>The child an \<open>AddRoute\<close> step descends into, after its type has been set.\<close>

definition step_child :: "string \<Rightarrow> 'h RouterNode \<Rightarrow> 'h RouterNode" where
  "step_child part node =
     (let child = (case map_of (children node) (normalized_part part) of None \<Rightarrow> new_node | Some c \<Rightarrow> c)
      in if normalized_part part = param_key then set_parameter (part_param_name part) child
         else set_static child)"

lemma add_parts_Cons:
  "add_parts k h (part # parts) node =
     set_children (AList.update (normalized_part part) (add_parts k h parts (step_child part node))
       (children node)) node"
  by (simp add: step_child_def Let_def)

lemma step_child_ok:
  "ntype (step_child part node) = (if normalized_part part = param_key then kParameter else kStatic)"
  "normalized_part part = param_key \<Longrightarrow> param_regex (step_child part node) = param_value_regex"
  by (simp_all add: step_child_def Let_def)

lemma wf_step_child: "wf_node node \<Longrightarrow> wf_node (step_child part node)"
  by (auto simp: step_child_def Let_def dest: wf_child split: option.splits)

lemma add_parts_root [simp]:
  "ntype (add_parts k h ps n) = ntype n"
  "param_regex (add_parts k h ps n) = param_regex n"
  "param_name (add_parts k h ps n) = param_name n"
  by (cases ps; simp add: add_parts_Cons del: add_parts.simps(2))+

lemma wf_add_parts: "wf_node node \<Longrightarrow> wf_node (add_parts k h parts node)"
proof (induction parts arbitrary: node)
  case Nil
  then show ?case by simp
next
  case (Cons part parts)
  let ?c = "add_parts k h parts (step_child part node)"
  have "wf_node ?c" using Cons by (simp add: wf_step_child)
  moreover have "child_ok (normalized_part part) ?c" by (simp add: child_ok_def step_child_ok)
  ultimately show ?case
    using Cons.prems
    by (auto simp: add_parts_Cons wf_node_iff [of "set_children _ _"] update_conv' distinct_update
        wf_node_iff [of node] simp del: add_parts.simps split: if_splits)
qed

section \<open>Paths into the tree and the abstract route table\<close>

fun node_at :: "string list \<Rightarrow> 'h RouterNode \<Rightarrow> 'h RouterNode option" where
  "node_at [] node = Some node"
| "node_at (k # ks) node = (case map_of (children node) k of None \<Rightarrow> None | Some c \<Rightarrow> node_at ks c)"

definition endpoint :: "'h RouterNode \<Rightarrow> (size_t \<times> 'h) option" where
  "endpoint node = map_option (Pair (key node)) (handler node)"

text \<open>The table: the endpoint stored under a normalised pattern.\<close>

definition route_table :: "'h RouterNode \<Rightarrow> string list \<Rightarrow> (size_t \<times> 'h) option" where
  "route_table root ks = Option.bind (node_at ks root) endpoint"

lemma route_table_new_node: "route_table new_node ks = None"
  by (cases ks) (simp_all add: route_table_def endpoint_def)

lemma route_table_Cons:
  "route_table n (k # ks) = (case map_of (children n) k of None \<Rightarrow> None | Some c \<Rightarrow> route_table c ks)"
  by (simp add: route_table_def split: option.splits)

lemma route_table_children_eq: "children m = children n \<Longrightarrow> route_table m (k # ks) = route_table n (k # ks)"
  by (simp add: route_table_Cons)

lemma route_table_step_child:
  "route_table (step_child part node) ks =
     (case map_of (children node) (normalized_part part) of None \<Rightarrow> None | Some c \<Rightarrow> route_table c ks)"
proof (cases ks)
  case Nil
  then show ?thesis
    by (auto simp: step_child_def Let_def route_table_def endpoint_def split: option.splits)
next
  case (Cons a list)
  then show ?thesis
    by (auto simp: step_child_def Let_def route_table_Cons split: option.splits)
qed

text \<open>
  \<open>AddRoute\<close> is a map update of the table. Registering an empty function removes the entry.
\<close>

lemma route_table_add_parts:
  "route_table (add_parts k h parts node) =
     (route_table node)(map normalized_part parts := map_option (Pair k) h)"
proof (induction parts arbitrary: node)
  case Nil
  show ?case
  proof
    fix ks
    show "route_table (add_parts k h [] node) ks =
        ((route_table node)(map normalized_part [] := map_option (Pair k) h)) ks"
      by (cases ks) (simp_all add: route_table_Cons, simp add: route_table_def endpoint_def)
  qed
next
  case (Cons part parts)
  show ?case
  proof
    fix ks
    show "route_table (add_parts k h (part # parts) node) ks =
        ((route_table node)(map normalized_part (part # parts) := map_option (Pair k) h)) ks"
    proof (cases ks)
      case Nil
      then show ?thesis
        by (simp add: add_parts_Cons route_table_def endpoint_def del: add_parts.simps)
    next
      case (Cons a as)
      then show ?thesis
        by (auto simp: add_parts_Cons route_table_Cons update_conv' Cons.IH route_table_step_child
            simp del: add_parts.simps)
    qed
  qed
qed

section \<open>AddRoute as an operation\<close>

definition pattern_of :: "string \<Rightarrow> string list" where
  "pattern_of path = map normalized_part (splits (CHR ''/'') path)"

lemma fold_push_cleaned: "fold push_cleaned ts acc = acc @ map RemoveSpacesRef ts"
  by (induction ts arbitrary: acc) (auto simp: push_cleaned_def)

lemma cleaned_parts:
  "IsValidRoute path \<Longrightarrow> map RemoveSpacesRef (splits (CHR ''/'') path) = splits (CHR ''/'') path"
  by (auto intro!: map_idI RemoveSpacesRef_id dest: valid_route_no_space)

lemma AddRoute_eq:
  "AddRoute k path h root =
     (if IsValidRoute path then Inr (add_parts k h (splits (CHR ''/'') path) root)
      else Inl (Invalid_argument (''Invalid route pattern: '' @ path)))"
  by (simp add: AddRoute_def SplitString_cb_splits fold_push_cleaned cleaned_parts)

lemma AddRoute_Inr:
  "AddRoute k path h root = Inr root' \<Longrightarrow>
     IsValidRoute path \<and> root' = add_parts k h (splits (CHR ''/'') path) root"
  by (simp add: AddRoute_eq split: if_splits)

lemma AddRoute_wf: "AddRoute k path h root = Inr root' \<Longrightarrow> wf_node root \<Longrightarrow> wf_node root'"
  by (auto dest: AddRoute_Inr intro: wf_add_parts)

lemma AddRoute_table:
  "AddRoute k path h root = Inr root' \<Longrightarrow>
     route_table root' = (route_table root)(pattern_of path := map_option (Pair k) h)"
  by (auto dest: AddRoute_Inr simp: route_table_add_parts pattern_of_def)

text \<open>A list of registrations, in order.\<close>

type_synonym 'h registration = "size_t \<times> string \<times> 'h option"

definition add_routes :: "'h registration list \<Rightarrow> 'h RouterNode \<Rightarrow> 'h RouterNode result" where
  "add_routes = for_result (\<lambda>(k, path, h). AddRoute k path h)"

lemma add_routes_wf: "add_routes regs root = Inr root' \<Longrightarrow> wf_node root \<Longrightarrow> wf_node root'"
  unfolding add_routes_def
  by (erule for_result_invariant [where P = wf_node]) (auto intro: AddRoute_wf)

lemma add_routes_snoc:
  "add_routes (regs @ [(k, path, h)]) root = Inr root' \<longleftrightarrow>
     (\<exists>mid. add_routes regs root = Inr mid \<and> AddRoute k path h mid = Inr root')"
  by (auto simp: add_routes_def for_result_append result_simps)

lemma add_routes_table:
  assumes "add_routes regs new_node = Inr root"
  shows "route_table root =
    fold (\<lambda>(k, path, h) t. t(pattern_of path := map_option (Pair k) h)) regs (\<lambda>_. None)"
  using assms
proof (induction regs arbitrary: root rule: rev_induct)
  case Nil
  then show ?case by (auto simp: add_routes_def route_table_new_node fun_eq_iff)
next
  case (snoc r regs)
  obtain k path h where r: "r = (k, path, h)" by (cases r) auto
  with snoc.prems obtain mid where "add_routes regs new_node = Inr mid" and "AddRoute k path h mid = Inr root"
    by (auto simp: add_routes_snoc)
  with snoc.IH r show ?case by (simp add: AddRoute_table)
qed

lemma add_routes_table_origin:
  assumes "add_routes regs new_node = Inr root" and "route_table root ks = Some (k, h)"
  shows "\<exists>path. (k, path, Some h) \<in> set regs \<and> pattern_of path = ks"
  using assms
proof (induction regs arbitrary: root rule: rev_induct)
  case Nil
  then show ?case by (auto simp: add_routes_def route_table_new_node)
next
  case (snoc r regs)
  obtain k' path' h' where r: "r = (k', path', h')" by (cases r) auto
  with snoc.prems obtain mid where mid: "add_routes regs new_node = Inr mid" "AddRoute k' path' h' mid = Inr root"
    by (auto simp: add_routes_snoc)
  show ?case
  proof (cases "ks = pattern_of path'")
    case True
    with snoc.prems(2) AddRoute_table [OF mid(2)] r show ?thesis by auto
  next
    case False
    with snoc.prems(2) AddRoute_table [OF mid(2)] have "route_table mid ks = Some (k, h)" by simp
    with snoc.IH [OF mid(1)] show ?thesis by auto
  qed
qed

section \<open>What a match means\<close>

text \<open>
  A normalised pattern segment admits a request segment: a parameter admits a non-empty run of
  letters, digits, \<open>_\<close> and \<open>-\<close>; a static segment admits itself.
\<close>

definition segment_admits :: "string \<Rightarrow> string \<Rightarrow> bool" where
  "segment_admits k p = (if k = param_key then p \<noteq> [] \<and> (\<forall>c \<in> set p. ident_char c) else k = p)"

definition pattern_admits :: "string list \<Rightarrow> string list \<Rightarrow> bool" where
  "pattern_admits ks ps = list_all2 segment_admits ks ps"

lemma segment_admits_param: "segment_admits param_key p \<longleftrightarrow> regex_match p param_value_regex"
  by (simp add: segment_admits_def param_value_iff)

lemma param_not_admits_key: "segment_admits param_key p \<Longrightarrow> p \<noteq> param_key"
  using param_key_not_ident by (auto simp: segment_admits_param)

text \<open>The step of a match, on a tree with the invariant: no type test is left.\<close>

lemma match_parts_Cons:
  assumes "wf_node node"
  shows "match_parts (part # parts) node params =
    (case (if part = param_key then None else map_of (children node) part) of
       Some c \<Rightarrow> match_parts parts c params
     | None \<Rightarrow>
         (case map_of (children node) param_key of
            Some p \<Rightarrow> if segment_admits param_key part
                      then match_parts parts p (AList.update (param_name p) part params)
                      else (None, params)
          | None \<Rightarrow> (None, params)))"
proof -
  have P: "ntype p = kParameter \<and> param_regex p = param_value_regex"
    if "map_of (children node) param_key = Some p" for p
    using wf_child [OF assms that] by (simp add: child_ok_def)
  have S: "ntype c = kStatic" if "map_of (children node) part = Some c" "part \<noteq> param_key" for c
    using wf_child [OF assms that(1)] that(2) by (simp add: child_ok_def)
  show ?thesis
    by (auto simp: Let_def P S segment_admits_param split: option.splits)
qed

text \<open>Soundness: a match ends at the node of a pattern that admits the request.\<close>

lemma match_parts_sound:
  assumes "wf_node node" and "match_parts parts node params = (Some m, params')"
  shows "\<exists>ks. node_at ks node = Some m \<and> pattern_admits ks parts"
  using assms
proof (induction parts arbitrary: node params)
  case Nil
  then show ?case by (intro exI [of _ "[]"]) (simp add: pattern_admits_def)
next
  case (Cons part parts)
  show ?case
  proof (cases "if part = param_key then None else map_of (children node) part")
    case (Some c)
    then have c: "part \<noteq> param_key" "map_of (children node) part = Some c" by (auto split: if_splits)
    with Cons.prems have "match_parts parts c params = (Some m, params')"
      by (simp add: match_parts_Cons del: match_parts.simps)
    with Cons.IH wf_child [OF Cons.prems(1) c(2)]
    obtain ks where "node_at ks c = Some m" "pattern_admits ks parts" by blast
    with c show ?thesis
      by (intro exI [of _ "part # ks"]) (simp add: pattern_admits_def segment_admits_def)
  next
    case None
    with Cons.prems obtain p where p: "map_of (children node) param_key = Some p"
      and adm: "segment_admits param_key part"
      and rest: "match_parts parts p (AList.update (param_name p) part params) = (Some m, params')"
      by (auto simp: match_parts_Cons simp del: match_parts.simps split: option.splits if_splits)
    with Cons.IH wf_child [OF Cons.prems(1) p]
    obtain ks where "node_at ks p = Some m" "pattern_admits ks parts" by blast
    with p adm show ?thesis
      by (intro exI [of _ "param_key # ks"]) (simp add: pattern_admits_def)
  qed
qed

text \<open>
  Completeness: a static child is always preferred and the walk does not come back, so a pattern is
  found when no static child stands in the way of one of its parameters.
\<close>

definition shadowed :: "string list \<Rightarrow> string list \<Rightarrow> 'h RouterNode \<Rightarrow> bool" where
  "shadowed ks ps root =
     (\<exists>i < length ks. ks ! i = param_key \<and> node_at (take i ks @ [ps ! i]) root \<noteq> None)"

lemma shadowed_Cons:
  "shadowed (k # ks) (p # ps) root \<longleftrightarrow>
     (k = param_key \<and> map_of (children root) p \<noteq> None) \<or>
     (\<exists>c. map_of (children root) k = Some c \<and> shadowed ks ps c)"
  by (auto simp: shadowed_def less_Suc_eq_0_disj split: option.splits)

fun bind_params :: "string list \<Rightarrow> string list \<Rightarrow> 'h RouterNode \<Rightarrow> params \<Rightarrow> params" where
  "bind_params (k # ks) (p # ps) node params =
     (case map_of (children node) k of
        None \<Rightarrow> params
      | Some c \<Rightarrow> bind_params ks ps c
          (if k = param_key then AList.update (param_name c) p params else params))"
| "bind_params _ _ node params = params"

lemma match_parts_complete:
  assumes "wf_node node" and "node_at ks node = Some m" and "pattern_admits ks parts"
    and "\<not> shadowed ks parts node"
  shows "match_parts parts node params = (Some m, bind_params ks parts node params)"
  using assms
proof (induction ks arbitrary: node parts params)
  case Nil
  then show ?case by (simp add: pattern_admits_def)
next
  case (Cons k ks)
  then obtain p ps where parts: "parts = p # ps" by (auto simp: pattern_admits_def list_all2_Cons1)
  with Cons.prems obtain c where c: "map_of (children node) k = Some c" "node_at ks c = Some m"
    by (auto split: option.splits)
  have adm: "segment_admits k p" "pattern_admits ks ps"
    using Cons.prems(3) parts by (simp_all add: pattern_admits_def)
  have ns: "\<not> shadowed ks ps c" "k = param_key \<Longrightarrow> map_of (children node) p = None"
    using Cons.prems(4) parts c by (auto simp: shadowed_Cons)
  have wf: "wf_node c" using wf_child Cons.prems(1) c by blast
  note IH = Cons.IH [OF wf c(2) adm(2) ns(1)]
  show ?case
  proof (cases "k = param_key")
    case True
    with ns(2) adm c param_not_admits_key show ?thesis
      by (auto simp: parts match_parts_Cons [OF Cons.prems(1)] IH simp del: match_parts.simps
          split: option.splits)
  next
    case False
    with adm have "p = k" by (simp add: segment_admits_def)
    with False c show ?thesis
      by (simp add: parts match_parts_Cons [OF Cons.prems(1)] IH del: match_parts.simps)
  qed
qed

section \<open>Parameter values\<close>

lemma match_parts_params:
  assumes "wf_node node" and "match_parts parts node params = (r, params')"
    and "map_of params' name = Some v"
  shows "map_of params name = Some v \<or> v \<in> set parts \<and> segment_admits param_key v"
  using assms
proof (induction parts arbitrary: node params)
  case Nil
  then show ?case by simp
next
  case (Cons part parts)
  show ?case
  proof (cases "if part = param_key then None else map_of (children node) part")
    case (Some c)
    then have c: "part \<noteq> param_key" "map_of (children node) part = Some c" by (auto split: if_splits)
    with Cons.prems have "match_parts parts c params = (r, params')"
      by (simp add: match_parts_Cons del: match_parts.simps)
    with Cons.IH [of c params] wf_child [OF Cons.prems(1) c(2)] Cons.prems(3) show ?thesis by auto
  next
    case None
    show ?thesis
    proof (cases "map_of (children node) param_key")
      case (Some p)
      show ?thesis
      proof (cases "segment_admits param_key part")
        case True
        with None Some Cons.prems
        have "match_parts parts p (AList.update (param_name p) part params) = (r, params')"
          by (simp add: match_parts_Cons del: match_parts.simps split: if_splits)
        with Cons.IH wf_child [OF Cons.prems(1) Some] Cons.prems(3)
        have "map_of (AList.update (param_name p) part params) name = Some v \<or>
            v \<in> set parts \<and> segment_admits param_key v"
          by blast
        with True show ?thesis by (auto simp: update_conv' split: if_splits)
      next
        case False
        with None Some Cons.prems show ?thesis
          by (simp add: match_parts_Cons del: match_parts.simps split: if_splits)
      qed
    next
      case None': None
      with None Cons.prems show ?thesis
        by (simp add: match_parts_Cons del: match_parts.simps split: if_splits)
    qed
  qed
qed

section \<open>The route registered last\<close>

text \<open>The bindings that the pattern's own text announces for a request.\<close>

definition declared_params :: "string list \<Rightarrow> string list \<Rightarrow> params \<Rightarrow> params" where
  "declared_params parts reqs params =
     fold (\<lambda>(part, v) ps. if normalized_part part = param_key
        then AList.update (part_param_name part) v ps else ps) (zip parts reqs) params"

lemma declared_params_simps [simp]:
  "declared_params [] reqs params = params"
  "declared_params (part # parts) (v # reqs) params =
     declared_params parts reqs
       (if normalized_part part = param_key then AList.update (part_param_name part) v params else params)"
  by (simp_all add: declared_params_def)

lemma declared_params_static:
  "\<forall>part \<in> set parts. normalized_part part \<noteq> param_key \<Longrightarrow> declared_params parts reqs params = params"
proof (induction parts arbitrary: reqs params)
  case (Cons part parts)
  then show ?case by (cases reqs) (simp_all add: declared_params_def)
qed simp

lemma step_child_name:
  "normalized_part part = param_key \<Longrightarrow> param_name (step_child part node) = part_param_name part"
  by (simp add: step_child_def Let_def)

lemma bind_params_add_parts:
  "length reqs = length parts \<Longrightarrow>
     bind_params (map normalized_part parts) reqs (add_parts k h parts node) params =
     declared_params parts reqs params"
proof (induction parts arbitrary: reqs node params)
  case (Cons part parts)
  then obtain v vs where "reqs = v # vs" "length vs = length parts" by (cases reqs) auto
  with Cons.IH show ?case
    by (auto simp: add_parts_Cons update_conv' step_child_name simp del: add_parts.simps)
qed simp

lemma node_at_add_parts:
  "\<exists>m. node_at (map normalized_part parts) (add_parts k h parts node) = Some m \<and>
     handler m = h \<and> key m = k"
proof (induction parts arbitrary: node)
  case (Cons part parts)
  then show ?case by (simp add: add_parts_Cons update_conv' del: add_parts.simps)
qed simp

lemma splits_no_lbrace_static:
  "lbrace \<notin> set path \<Longrightarrow> part \<in> set (splits d path) \<Longrightarrow> normalized_part part = part \<and> part \<noteq> param_key"
  by (frule set_splits) (auto intro!: normalized_part_no_brace simp: param_key_def)

section \<open>MatchRoute as an operation\<close>

lemma MatchRoute_eq:
  "MatchRoute path params root =
     Inr (case match_parts (splits (CHR ''/'') path) root params of
        (None, ps) \<Rightarrow> (no_match, ps) | (Some node, ps) \<Rightarrow> (node_match node, ps))"
  by (simp add: MatchRoute_def SplitString_splits)

lemma MatchRoute_total [safe_rules]: "\<exists>r. MatchRoute path params root = Inr r"
  by (simp add: MatchRoute_eq)

lemma MatchRoute_hit:
  assumes "MatchRoute path params root = Inr (r, params')" and "\<not> IsEmpty r"
  obtains m where "match_parts (splits (CHR ''/'') path) root params = (Some m, params')"
    and "r = node_match m"
  using assms by (auto simp: MatchRoute_eq IsEmpty_def no_match_def split: prod.splits option.splits)

lemma node_match_sel [simp]:
  "executor (node_match m) = Some (handler m)" "result_key (node_match m) = Some (key m)"
  "\<not> IsEmpty (node_match m)"
  by (simp_all add: node_match_def IsEmpty_def)

lemma no_match_IsEmpty [simp]: "IsEmpty no_match"
  by (simp add: no_match_def IsEmpty_def)

lemma MatchRoute_table:
  assumes "wf_node root" and "MatchRoute path params root = Inr (r, params')"
    and "executor r = Some (Some h)"
  shows "\<exists>ks k. result_key r = Some k \<and> route_table root ks = Some (k, h) \<and>
     pattern_admits ks (splits (CHR ''/'') path)"
proof -
  have "\<not> IsEmpty r" using assms(3) by (simp add: IsEmpty_def)
  with assms(2) obtain m where m: "match_parts (splits (CHR ''/'') path) root params = (Some m, params')"
    and r: "r = node_match m" by (rule MatchRoute_hit)
  from match_parts_sound [OF assms(1) m] obtain ks where "node_at ks root = Some m"
    and "pattern_admits ks (splits (CHR ''/'') path)" by blast
  with r assms(3) show ?thesis
    by (intro exI [of _ ks] exI [of _ "key m"]) (simp add: route_table_def endpoint_def)
qed

lemma MatchRoute_found:
  assumes "wf_node root" and "node_at ks root = Some m" and "pattern_admits ks (splits (CHR ''/'') path)"
    and "\<not> shadowed ks (splits (CHR ''/'') path) root"
  shows "MatchRoute path params root =
    Inr (node_match m, bind_params ks (splits (CHR ''/'') path) root params)"
  by (simp add: MatchRoute_eq match_parts_complete [OF assms])

section \<open>Registered patterns stay reachable\<close>

lemma node_at_children: "node_at (k # ks) n = (case map_of (children n) k of None \<Rightarrow> None | Some c \<Rightarrow> node_at ks c)"
  by simp

lemma node_at_step_child:
  "ks \<noteq> [] \<Longrightarrow> map_of (children node) (normalized_part part) = Some c \<Longrightarrow>
     node_at ks (step_child part node) = node_at ks c"
  by (cases ks) (auto simp: step_child_def Let_def)

lemma node_at_add_parts_mono:
  "node_at ks node \<noteq> None \<Longrightarrow> node_at ks (add_parts k h parts node) \<noteq> None"
proof (induction parts arbitrary: node ks)
  case Nil
  then show ?case by (cases ks) auto
next
  case (Cons part parts)
  show ?case
  proof (cases ks)
    case (Cons a as)
    show ?thesis
    proof (cases "a = normalized_part part")
      case True
      with Cons.prems Cons obtain c where c: "map_of (children node) a = Some c" "node_at as c \<noteq> None"
        by (auto split: option.splits)
      have "node_at as (step_child part node) \<noteq> None"
        using c True by (cases "as = []") (simp_all add: node_at_step_child)
      from Cons.IH [OF this] True Cons show ?thesis
        by (simp add: add_parts_Cons update_conv' del: add_parts.simps)
    next
      case False
      with Cons.prems Cons show ?thesis
        by (simp add: add_parts_Cons update_conv' del: add_parts.simps)
    qed
  qed simp
qed

lemma AddRoute_node_at:
  assumes "AddRoute k path h root = Inr root'"
  shows "node_at (pattern_of path) root' \<noteq> None" and "node_at ks root \<noteq> None \<Longrightarrow> node_at ks root' \<noteq> None"
  using AddRoute_Inr [OF assms] node_at_add_parts [of "splits (CHR ''/'') path" k h root]
    node_at_add_parts_mono [of ks root k h "splits (CHR ''/'') path"]
  by (auto simp: pattern_of_def)

lemma add_routes_node_at:
  "add_routes regs new_node = Inr root \<Longrightarrow> (k, path, h) \<in> set regs \<Longrightarrow> node_at (pattern_of path) root \<noteq> None"
proof (induction regs arbitrary: root rule: rev_induct)
  case (snoc r regs)
  obtain k' path' h' where r: "r = (k', path', h')" by (cases r) auto
  with snoc.prems obtain mid where mid: "add_routes regs new_node = Inr mid" "AddRoute k' path' h' mid = Inr root"
    by (auto simp: add_routes_snoc)
  show ?case
  proof (cases "(k, path, h) = r")
    case True
    with r AddRoute_node_at(1) [OF mid(2)] show ?thesis by simp
  next
    case False
    with snoc.prems snoc.IH [OF mid(1)] AddRoute_node_at(2) [OF mid(2)] show ?thesis by simp
  qed
qed simp

text \<open>The table entry of a pattern that no later registration replaces.\<close>

lemma add_routes_append:
  "add_routes (regs @ ext) root = Inr root' \<longleftrightarrow>
     (\<exists>mid. add_routes regs root = Inr mid \<and> add_routes ext mid = Inr root')"
  by (auto simp: add_routes_def for_result_append result_simps)

lemma add_routes_Cons:
  "add_routes ((k, path, h) # ext) root = Inr root' \<longleftrightarrow>
     (\<exists>mid. AddRoute k path h root = Inr mid \<and> add_routes ext mid = Inr root')"
  by (auto simp: add_routes_def result_simps)

lemma add_routes_fold:
  "add_routes regs root = Inr root' \<Longrightarrow>
     root' = fold (\<lambda>(k, path, h). add_parts k h (splits (CHR ''/'') path)) regs root"
  by (induction regs arbitrary: root)
    (auto simp: add_routes_def result_simps simp del: add_parts.simps dest!: AddRoute_Inr)

lemma add_routes_keeps:
  "add_routes regs root = Inr root' \<Longrightarrow> \<forall>r \<in> set regs. pattern_of (fst (snd r)) \<noteq> ks \<Longrightarrow>
     route_table root' ks = route_table root ks"
proof (induction regs arbitrary: root)
  case Nil
  then show ?case by (simp add: add_routes_def)
next
  case (Cons r regs)
  obtain k path h where r: "r = (k, path, h)" by (cases r) auto
  with Cons.prems(1) obtain mid where mid: "AddRoute k path h root = Inr mid" "add_routes regs mid = Inr root'"
    by (auto simp: add_routes_Cons)
  with Cons.IH [OF mid(2)] Cons.prems(2) r AddRoute_table [OF mid(1)] show ?case by auto
qed

lemma add_routes_latest:
  assumes "add_routes (before @ (k, path, Some h) # later) new_node = Inr root"
    and "\<forall>r \<in> set later. pattern_of (fst (snd r)) \<noteq> pattern_of path"
  shows "wf_node root \<and> route_table root (pattern_of path) = Some (k, h)"
proof -
  from assms(1) obtain m1 m2 where m: "add_routes before new_node = Inr m1" "AddRoute k path (Some h) m1 = Inr m2"
    "add_routes later m2 = Inr root"
    by (auto simp: add_routes_append add_routes_Cons)
  from add_routes_keeps [OF m(3) assms(2)] AddRoute_table [OF m(2)]
  have "route_table root (pattern_of path) = Some (k, h)" by simp
  with add_routes_wf [OF assms(1)] show ?thesis by simp
qed

lemma pattern_of_static: "lbrace \<notin> set path \<Longrightarrow> pattern_of path = splits (CHR ''/'') path"
  using splits_no_lbrace_static by (auto simp: pattern_of_def intro!: map_idI)

lemma static_not_param: "lbrace \<notin> set path \<Longrightarrow> part \<in> set (splits d path) \<Longrightarrow> part \<noteq> param_key"
  using splits_no_lbrace_static by blast

lemma pattern_admits_static: "lbrace \<notin> set path \<Longrightarrow> pattern_admits (splits d path) (splits d path)"
  using static_not_param by (auto simp: pattern_admits_def segment_admits_def list_all2_same)

lemma shadowed_static: "lbrace \<notin> set path \<Longrightarrow> \<not> shadowed (splits d path) ps root"
  using static_not_param by (auto simp: shadowed_def dest: nth_mem)

lemma bind_params_static: "\<forall>k \<in> set ks. k \<noteq> param_key \<Longrightarrow> bind_params ks ps node params = params"
  by (induction ks ps node params rule: bind_params.induct) (auto split: option.splits)

lemma route_table_node:
  "route_table root ks = Some (k, h) \<Longrightarrow> \<exists>m. node_at ks root = Some m \<and> handler m = Some h \<and> key m = k"
  by (auto simp: route_table_def endpoint_def bind_eq_Some_conv)

lemma MatchRoute_static:
  assumes "wf_node root" and "route_table root (splits (CHR ''/'') path) = Some (k, h)" and "lbrace \<notin> set path"
  shows "MatchRoute path params root = Inr (\<lparr>executor = Some (Some h), result_key = Some k\<rparr>, params)"
proof -
  from route_table_node [OF assms(2)] obtain m
    where m: "node_at (splits (CHR ''/'') path) root = Some m" "handler m = Some h" "key m = k" by blast
  from MatchRoute_found [OF assms(1) m(1) pattern_admits_static shadowed_static] assms(3) m(2,3)
  show ?thesis
    using bind_params_static [of "splits (CHR ''/'') path"] static_not_param [OF assms(3)]
    by (auto simp: node_match_def)
qed

text \<open>The route registered last answers every request it admits and that nothing shadows.\<close>

lemma MatchRoute_latest:
  assumes "add_routes (before @ [(k, route, Some h)]) new_node = Inr root"
    and "pattern_admits (pattern_of route) (splits (CHR ''/'') path)"
    and "\<not> shadowed (pattern_of route) (splits (CHR ''/'') path) root"
  shows "MatchRoute path params root = Inr (\<lparr>executor = Some (Some h), result_key = Some k\<rparr>,
    declared_params (splits (CHR ''/'') route) (splits (CHR ''/'') path) params)"
proof -
  from assms(1) obtain mid where mid: "AddRoute k route (Some h) mid = Inr root"
    by (auto simp: add_routes_snoc)
  then have root: "root = add_parts k (Some h) (splits (CHR ''/'') route) mid"
    by (auto dest: AddRoute_Inr)
  from node_at_add_parts [of "splits (CHR ''/'') route" k "Some h" mid] obtain m
    where m: "node_at (pattern_of route) root = Some m" "handler m = Some h" "key m = k"
    by (auto simp: root pattern_of_def)
  have wf: "wf_node root" using add_routes_wf [OF assms(1)] by simp
  have len: "length (splits (CHR ''/'') path) = length (splits (CHR ''/'') route)"
    using assms(2) by (auto simp: pattern_admits_def pattern_of_def dest: list_all2_lengthD)
  from MatchRoute_found [OF wf m(1) assms(2,3)] m(2,3) bind_params_add_parts [OF len]
  show ?thesis by (simp add: root pattern_of_def node_match_def)
qed

lemma splits_three:
  "CHR ''/'' \<notin> set a \<Longrightarrow> CHR ''/'' \<notin> set b \<Longrightarrow> CHR ''/'' \<notin> set c \<Longrightarrow>
     splits (CHR ''/'') (slash_path [a, b, c]) = [[], a, b, c]"
  by (rule splits_slash_path) auto

section \<open>Properties\<close>

text \<open>C11. A request that the router answers with a function is answered with the function and the
  key of one registration, and that registration's pattern admits the request: no request reaches a
  route it does not fit.\<close>

theorem match_is_registered:
  assumes "add_routes regs new_node = Inr root"
    and "MatchRoute path params root = Inr (r, params')" and "executor r = Some (Some h)"
  shows "\<exists>k route. result_key r = Some k \<and> (k, route, Some h) \<in> set regs \<and>
    pattern_admits (pattern_of route) (splits (CHR ''/'') path)"
proof -
  have "wf_node root" using add_routes_wf [OF assms(1)] by simp
  from MatchRoute_table [OF this assms(2,3)] add_routes_table_origin [OF assms(1)]
  show ?thesis by blast
qed

theorem match_is_registered_witness:
  "\<exists>k route. result_key \<lparr>executor = Some (Some (1::nat)), result_key = Some 7\<rparr> = Some k \<and>
     (k, route, Some 1) \<in> set [(7, ''/a/{id}'', Some (1::nat))] \<and>
     pattern_admits (pattern_of route) (splits (CHR ''/'') ''/a/5'')"
proof (rule match_is_registered)
  show "add_routes [(7, ''/a/{id}'', Some (1::nat))] new_node =
      Inr (add_parts 7 (Some 1) [[], ''a'', ''{id}''] new_node)"
    by code_simp
  show "MatchRoute ''/a/5'' [] (add_parts 7 (Some 1) [[], ''a'', ''{id}''] new_node) =
      Inr (\<lparr>executor = Some (Some (1::nat)), result_key = Some 7\<rparr>, [(''id'', ''5'')])"
    by code_simp
qed simp

text \<open>C2. \<open>AddRoute\<close> refines a map update: it accepts exactly the valid patterns, and then the table
  of the tree is the old one with the entry of the normalised pattern replaced, and the invariant
  of the tree is kept. Otherwise it throws \<open>invalid_argument\<close> with the pattern in its message.\<close>

theorem AddRoute_refines_update:
  assumes "wf_node root"
  shows "case AddRoute k path h root of
      Inr root' \<Rightarrow> IsValidRoute path \<and> wf_node root' \<and>
        route_table root' = (route_table root)(pattern_of path := map_option (Pair k) h)
    | Inl e \<Rightarrow> \<not> IsValidRoute path \<and> e = Invalid_argument (''Invalid route pattern: '' @ path)"
  using assms AddRoute_wf AddRoute_table [of k path h root]
  by (auto simp: AddRoute_eq wf_add_parts split: sum.splits if_splits)

theorem AddRoute_refines_update_witness:
  "case AddRoute 7 ''/a/{id}'' (Some (1::nat)) new_node of
      Inr root' \<Rightarrow> IsValidRoute ''/a/{id}'' \<and> wf_node root' \<and>
        route_table root' = (route_table new_node)(pattern_of ''/a/{id}'' := map_option (Pair 7) (Some 1))
    | Inl e \<Rightarrow> \<not> IsValidRoute ''/a/{id}'' \<and> e = Invalid_argument (''Invalid route pattern: '' @ ''/a/{id}'')"
  by (rule AddRoute_refines_update) simp

text \<open>A pattern without parameters answers the request of the same text, with the function and
  key of its last registration and without touching \<open>params\<close>, whatever other patterns (also
  parametric ones that admit the request) are registered before or after it.\<close>

theorem static_route_found:
  assumes "add_routes (before @ (k, path, Some h) # later) new_node = Inr root"
    and "\<forall>r \<in> set later. pattern_of (fst (snd r)) \<noteq> pattern_of path" and "lbrace \<notin> set path"
  shows "MatchRoute path params root = Inr (\<lparr>executor = Some (Some h), result_key = Some k\<rparr>, params)"
  using add_routes_latest [OF assms(1,2)] assms(3) by (simp add: pattern_of_static MatchRoute_static)

theorem static_route_found_witness:
  "\<exists>root. MatchRoute ''/a/b'' [] root =
     Inr (\<lparr>executor = Some (Some (2::nat)), result_key = Some 8\<rparr>, [])"
proof
  show "MatchRoute ''/a/b'' [] (add_parts 9 (Some 3) [[], ''a'', ''c'']
      (add_parts 8 (Some 2) [[], ''a'', ''b''] (add_parts 7 (Some 1) [[], ''a'', ''{id}''] new_node))) =
     Inr (\<lparr>executor = Some (Some (2::nat)), result_key = Some 8\<rparr>, [])"
  proof (rule static_route_found [where before = "[(7, ''/a/{id}'', Some 1)]" and later = "[(9, ''/a/c'', Some 3)]"])
    show "add_routes ([(7, ''/a/{id}'', Some 1)] @ (8, ''/a/b'', Some 2) # [(9, ''/a/c'', Some 3)]) new_node =
        Inr (add_parts 9 (Some 3) [[], ''a'', ''c'']
          (add_parts 8 (Some (2::nat)) [[], ''a'', ''b''] (add_parts 7 (Some 1) [[], ''a'', ''{id}''] new_node)))"
      by code_simp
    show "\<forall>r \<in> set [(9, ''/a/c'', Some (3::nat))]. pattern_of (fst (snd r)) \<noteq> pattern_of ''/a/b''"
      by code_simp
  qed simp
qed

text \<open>A parametric route that was registered last answers every request its pattern admits and
  that no static segment of another route shadows; \<open>params\<close> is then extended by exactly the bindings
  the pattern's text announces: each name in braces with the request's segment at its place.\<close>

theorem param_route_found:
  assumes "add_routes (before @ [(k, route, Some h)]) new_node = Inr root"
    and "pattern_admits (pattern_of route) (splits (CHR ''/'') path)"
    and "\<not> shadowed (pattern_of route) (splits (CHR ''/'') path) root"
  shows "MatchRoute path params root = Inr (\<lparr>executor = Some (Some h), result_key = Some k\<rparr>,
    declared_params (splits (CHR ''/'') route) (splits (CHR ''/'') path) params)"
  using assms by (rule MatchRoute_latest)

theorem param_route_found_witness:
  "MatchRoute ''/post/5/a-b'' [] (add_parts 8 (Some (2::nat)) [[], ''post'', ''{id}'', ''{slug}'']
      (add_parts 7 (Some 1) [[], ''post''] new_node)) =
    Inr (\<lparr>executor = Some (Some 2), result_key = Some 8\<rparr>,
      declared_params (splits (CHR ''/'') ''/post/{id}/{slug}'') (splits (CHR ''/'') ''/post/5/a-b'') [])"
proof (rule param_route_found [where before = "[(7, ''/post'', Some 1)]"])
  show "add_routes ([(7, ''/post'', Some 1)] @ [(8, ''/post/{id}/{slug}'', Some 2)]) new_node =
      Inr (add_parts 8 (Some (2::nat)) [[], ''post'', ''{id}'', ''{slug}'']
        (add_parts 7 (Some 1) [[], ''post''] new_node))"
    by code_simp
  show "pattern_admits (pattern_of ''/post/{id}/{slug}'') (splits (CHR ''/'') ''/post/5/a-b'')"
    by code_simp
  show "\<not> shadowed (pattern_of ''/post/{id}/{slug}'') (splits (CHR ''/'') ''/post/5/a-b'')
      (add_parts 8 (Some (2::nat)) [[], ''post'', ''{id}'', ''{slug}''] (add_parts 7 (Some 1) [[], ''post''] new_node))"
    by code_simp
qed

text \<open>C30. Whatever the registered routes, a parameter that a match binds is a segment of the request:
  a non-empty run of letters, digits, \<open>_\<close> and \<open>-\<close>; other entries of \<open>params\<close> are the caller's.
  This also holds of what a failed match leaves behind.\<close>

theorem params_are_request_segments:
  assumes "add_routes regs new_node = Inr root" and "MatchRoute path params root = Inr (r, params')"
    and "map_of params' name = Some v"
  shows "map_of params name = Some v \<or>
    v \<in> set (splits (CHR ''/'') path) \<and> v \<noteq> [] \<and> (\<forall>c \<in> set v. ident_char c)"
proof -
  have wf: "wf_node root" using add_routes_wf [OF assms(1)] by simp
  obtain m where "match_parts (splits (CHR ''/'') path) root params = (m, params')"
    using assms(2) by (auto simp: MatchRoute_eq split: prod.splits option.splits)
  from match_parts_params [OF wf this assms(3)] show ?thesis by (auto simp: segment_admits_def)
qed

theorem params_are_request_segments_witness:
  "map_of [] ''id'' = Some ''5'' \<or>
    ''5'' \<in> set (splits (CHR ''/'') ''/a/5'') \<and> ''5'' \<noteq> [] \<and> (\<forall>c \<in> set ''5''. ident_char c)"
proof (rule params_are_request_segments)
  show "add_routes [(7, ''/a/{id}'', Some (1::nat))] new_node =
      Inr (add_parts 7 (Some 1) [[], ''a'', ''{id}''] new_node)"
    by code_simp
  show "MatchRoute ''/a/5'' [] (add_parts 7 (Some (1::nat)) [[], ''a'', ''{id}''] new_node) =
      Inr (\<lparr>executor = Some (Some 1), result_key = Some 7\<rparr>, [(''id'', ''5'')])"
    by code_simp
qed simp

text \<open>Completeness up to shadowing: when the router finds nothing, every registered pattern that
  admits the request has a parameter at a place where a static segment of another route, equal to
  the request's segment there, has taken the walk away.\<close>

theorem miss_only_by_shadowing:
  assumes "add_routes regs new_node = Inr root" and "MatchRoute path params root = Inr (r, params')"
    and "IsEmpty r" and "(k, route, h) \<in> set regs"
    and "pattern_admits (pattern_of route) (splits (CHR ''/'') path)"
  shows "shadowed (pattern_of route) (splits (CHR ''/'') path) root"
proof (rule ccontr)
  assume ns: "\<not> shadowed (pattern_of route) (splits (CHR ''/'') path) root"
  have wf: "wf_node root" using add_routes_wf [OF assms(1)] by simp
  from add_routes_node_at [OF assms(1,4)] obtain m where "node_at (pattern_of route) root = Some m" by blast
  from MatchRoute_found [OF wf this assms(5) ns] assms(2,3) show False by auto
qed

theorem miss_only_by_shadowing_witness:
  "shadowed (pattern_of ''/{year}/{month}'') (splits (CHR ''/'') ''/post/07'')
     (add_parts 8 (Some (2::nat)) [[], ''{year}'', ''{month}''] (add_parts 7 (Some 1) [[], ''post'', ''list''] new_node))"
proof (rule miss_only_by_shadowing)
  show "add_routes [(7, ''/post/list'', Some 1), (8, ''/{year}/{month}'', Some 2)] new_node =
      Inr (add_parts 8 (Some (2::nat)) [[], ''{year}'', ''{month}''] (add_parts 7 (Some 1) [[], ''post'', ''list''] new_node))"
    by code_simp
  show "MatchRoute ''/post/07'' [] (add_parts 8 (Some (2::nat)) [[], ''{year}'', ''{month}'']
      (add_parts 7 (Some 1) [[], ''post'', ''list''] new_node)) = Inr (no_match, [])"
    by code_simp
  show "(8, ''/{year}/{month}'', Some (2::nat)) \<in> set [(7, ''/post/list'', Some 1), (8, ''/{year}/{month}'', Some 2)]"
    by simp
  show "pattern_admits (pattern_of ''/{year}/{month}'') (splits (CHR ''/'') ''/post/07'')"
    by code_simp
qed simp

text \<open>The walk does not come back, and a failed one leaves bindings: with the routes
  \<open>/post/list\<close> and \<open>/{year}/{month}\<close> the request \<open>/post/07\<close>, which the second pattern admits, finds
  nothing; with \<open>/{year}/{month}\<close> alone a request of three segments finds nothing and has bound both.\<close>

theorem no_backtracking:
  "\<exists>root. add_routes [(1, ''/post/list'', Some (1::nat)), (2, ''/{year}/{month}'', Some 2)] new_node = Inr root \<and>
     pattern_admits (pattern_of ''/{year}/{month}'') (splits (CHR ''/'') ''/post/07'') \<and>
     MatchRoute ''/post/07'' [] root = Inr (no_match, []) \<and>
     MatchRoute ''/2024/07/x'' [] root = Inr (no_match, [(''year'', ''2024''), (''month'', ''07'')])"
proof (intro exI conjI)
  let ?root = "add_parts 2 (Some (2::nat)) [[], ''{year}'', ''{month}''] (add_parts 1 (Some 1) [[], ''post'', ''list''] new_node)"
  show "add_routes [(1, ''/post/list'', Some 1), (2, ''/{year}/{month}'', Some 2)] new_node = Inr ?root"
    by code_simp
  show "pattern_admits (pattern_of ''/{year}/{month}'') (splits (CHR ''/'') ''/post/07'')"
    by code_simp
  show "MatchRoute ''/post/07'' [] ?root = Inr (no_match, [])"
    by code_simp
  show "MatchRoute ''/2024/07/x'' [] ?root = Inr (no_match, [(''year'', ''2024''), (''month'', ''07'')])"
    by code_simp
qed

text \<open>Two routes that share a parameter's place share its node, and the later registration renames
  the parameter for both: a request of the first route is bound under the second route's name.\<close>

theorem parameter_renamed:
  assumes "add_routes [(k, slash_path [''u'', lbrace # n @ [rbrace], ''posts''], Some h),
      (k', slash_path [''u'', lbrace # n' @ [rbrace], ''photos''], Some h')] new_node = Inr root"
    and "CHR ''/'' \<notin> set n" and "CHR ''/'' \<notin> set n'" and "v \<noteq> []" and "\<forall>c \<in> set v. ident_char c"
  shows "MatchRoute (slash_path [''u'', v, ''posts'']) [] root =
    Inr (\<lparr>executor = Some (Some h), result_key = Some k\<rparr>, [(n', v)])"
proof -
  let ?p = "lbrace # n @ [rbrace]" and ?p' = "lbrace # n' @ [rbrace]"
  have np: "normalized_part [] = []" "normalized_part ''u'' = ''u''" "normalized_part ''posts'' = ''posts''"
    "normalized_part ''photos'' = ''photos''"
    by (simp_all add: normalized_part_no_brace)
  have ne: "[] \<noteq> param_key" "''u'' \<noteq> param_key" "''posts'' \<noteq> param_key" "''photos'' \<noteq> param_key"
    by (simp_all add: param_key_def)
  have v: "CHR ''/'' \<notin> set v" "v \<noteq> param_key" "regex_match v param_value_regex"
    using assms(4,5) slash_not_ident_char param_key_not_ident by (auto simp: param_value_iff)
  have p: "CHR ''/'' \<notin> set ?p" "CHR ''/'' \<notin> set ?p'" using assms(2,3) by auto
  obtain mid where mid: "AddRoute k (slash_path [''u'', ?p, ''posts'']) (Some h) new_node = Inr mid"
    "AddRoute k' (slash_path [''u'', ?p', ''photos'']) (Some h') mid = Inr root"
    using assms(1) by (auto simp: add_routes_def result_simps simp del: slash_path_simps)
  have r1: "mid = add_parts k (Some h) [[], ''u'', ?p, ''posts''] new_node"
    using AddRoute_Inr [OF mid(1)] splits_three [of "''u''" ?p "''posts''"] p by (simp del: add_parts.simps slash_path_simps)
  have r2: "root = add_parts k' (Some h') [[], ''u'', ?p', ''photos''] mid"
    using AddRoute_Inr [OF mid(2)] splits_three [of "''u''" ?p' "''photos''"] p by (simp del: add_parts.simps slash_path_simps)
  have s: "splits (CHR ''/'') (slash_path [''u'', v, ''posts'']) = [[], ''u'', v, ''posts'']"
    using v by (intro splits_three) auto
  show ?thesis
    unfolding MatchRoute_eq s r2 r1
    by (simp add: np ne v Let_def node_match_def)
qed

theorem parameter_renamed_witness:
  "MatchRoute (slash_path [''u'', ''7'', ''posts'']) []
     (add_parts 2 (Some (2::nat)) [[], ''u'', ''{name}'', ''photos''] (add_parts 1 (Some 1) [[], ''u'', ''{id}'', ''posts''] new_node)) =
    Inr (\<lparr>executor = Some (Some 1), result_key = Some 1\<rparr>, [(''name'', ''7'')])"
proof (rule parameter_renamed)
  show "add_routes [(1, slash_path [''u'', lbrace # ''id'' @ [rbrace], ''posts''], Some 1),
      (2, slash_path [''u'', lbrace # ''name'' @ [rbrace], ''photos''], Some 2)] new_node =
    Inr (add_parts 2 (Some (2::nat)) [[], ''u'', ''{name}'', ''photos''] (add_parts 1 (Some 1) [[], ''u'', ''{id}'', ''posts''] new_node))"
    by code_simp
qed (simp_all add: in_class_def in_range_def ident_class_def)

text \<open>A segment with two parameters and text between them is accepted, and is one parameter: its
  name is everything between the first and the last brace, and it is bound to the whole segment.\<close>

theorem two_params_in_segment:
  assumes "AddRoute k (slash_path [lbrace # a @ rbrace # m @ lbrace # b @ [rbrace]]) (Some h) new_node = Inr root"
    and "CHR ''/'' \<notin> set (a @ m @ b)" and "v \<noteq> []" and "\<forall>c \<in> set v. ident_char c"
  shows "MatchRoute (slash_path [v]) [] root =
    Inr (\<lparr>executor = Some (Some h), result_key = Some k\<rparr>, [(a @ rbrace # m @ lbrace # b, v)])"
proof -
  let ?n = "a @ rbrace # m @ lbrace # b"
  have eq: "lbrace # a @ rbrace # m @ lbrace # b @ [rbrace] = lbrace # ?n @ [rbrace]" by simp
  have r: "splits (CHR ''/'') (slash_path [lbrace # ?n @ [rbrace]]) = [[], lbrace # ?n @ [rbrace]]"
    using assms(2) by (intro splits_slash_path) auto
  have v: "CHR ''/'' \<notin> set v" "v \<noteq> param_key" "regex_match v param_value_regex"
    using assms(3,4) slash_not_ident_char param_key_not_ident by (auto simp: param_value_iff)
  have s: "splits (CHR ''/'') (slash_path [v]) = [[], v]"
    using v by (intro splits_slash_path) auto
  have root: "root = add_parts k (Some h) [[], lbrace # ?n @ [rbrace]] new_node"
    using AddRoute_Inr [OF assms(1)] r unfolding eq by (simp del: add_parts.simps slash_path_simps)
  have n: "normalized_part (lbrace # ?n @ [rbrace]) = param_key" "part_param_name (lbrace # ?n @ [rbrace]) = ?n"
    by (rule normalized_param, rule part_param_name_param)
  have e: "[] \<noteq> param_key" by (simp add: param_key_def)
  show ?thesis
    unfolding MatchRoute_eq s root
    by (simp add: n [simplified] e v Let_def node_match_def)
qed

theorem two_params_in_segment_witness:
  "MatchRoute (slash_path [''v1-v2'']) [] (add_parts 1 (Some (1::nat)) [[], ''{a}-{b}''] new_node) =
    Inr (\<lparr>executor = Some (Some 1), result_key = Some 1\<rparr>, [(''a'' @ rbrace # ''-'' @ lbrace # ''b'', ''v1-v2'')])"
proof (rule two_params_in_segment)
  show "AddRoute 1 (slash_path [lbrace # ''a'' @ rbrace # ''-'' @ lbrace # ''b'' @ [rbrace]]) (Some (1::nat)) new_node =
      Inr (add_parts 1 (Some 1) [[], ''{a}-{b}''] new_node)"
    by code_simp
qed (simp_all add: in_class_def in_range_def ident_class_def)

end
