(* ===== verification/Dispatcher.thy ===== *)
theory Dispatcher
  imports Router_Spec Http_Message
begin

text \<open>
  \<open>handlers::HandlerBase\<close>, \<open>GlobalDispatcherHandler\<close> (\<open>src/piconaut/handlers/\<close>) and the
  \<open>Route\<close> class (\<open>src/piconaut/routers/route.{h,cc}\<close>). The router is used through the locale
  \<open>route_index\<close>, whose laws theory \<open>Router_Spec\<close> discharges; \<open>std::hash\<close> is the parameter
  \<open>hasher\<close>. A handler object is what its virtual \<open>HandleRequest\<close> does to the request object.
\<close>

section \<open>Routes and handlers\<close>

type_synonym request_handler = "params \<Rightarrow> h2o_req \<Rightarrow> h2o_req result"

text \<open>A nullable \<open>shared_ptr<HandlerBase>\<close>, and \<open>Route::HandlerFn\<close>.\<close>

type_synonym handler_ptr = "request_handler option"
type_synonym handler_fn = "handler_ptr \<Rightarrow> params \<Rightarrow> h2o_req \<Rightarrow> h2o_req result"

record Route =
  route_key :: size_t
  route_path :: string
  req_handler :: handler_ptr

definition make_Route :: "size_t \<Rightarrow> string \<Rightarrow> handler_ptr \<Rightarrow> Route" where
  "make_Route k path h = \<lparr>route_key = k, route_path = path, req_handler = h\<rparr>"

text \<open>\<open>HandlerBase::__HandleImpl\<close> is the default that a subclass overrides.\<close>

definition HandlerBase_HandleImpl :: "h2o_req \<Rightarrow> h2o_req result" where
  "HandlerBase_HandleImpl req = Inl (Runtime_error ''Unimplemented void Handle on Handler base'')"

text \<open>
  \<open>HandlerCallback\<close>, the function h2o calls: the \<open>int\<close> it returns and the request object, or
  the exception that leaves it. \<open>impl\<close> is the \<open>__HandleImpl\<close> of the handler \<open>self\<close> points to.
\<close>

definition HandlerCallback ::
  "(h2o_req \<Rightarrow> h2o_req result) option \<Rightarrow> h2o_req option \<Rightarrow> (int \<times> h2o_req option) result" where
  "HandlerCallback self req =
     (case (self, req) of
        (Some impl, Some r) \<Rightarrow>
          bind_result (make_Request req) (\<lambda>request.
          bind_result (make_Response req) (\<lambda>response.
          bind_result (impl r) (\<lambda>r'. Inr (0, Some r'))))
      | _ \<Rightarrow> Inr (1, req))"

section \<open>GlobalDispatcherHandler\<close>

record GlobalDispatcherHandler =
  router :: "handler_fn RouterNode"
  routes :: "(size_t \<times> Route) list"

definition make_GlobalDispatcherHandler :: GlobalDispatcherHandler where
  "make_GlobalDispatcherHandler = \<lparr>router = new_node, routes = []\<rparr>"

definition Dispatcher_fn :: handler_fn where
  "Dispatcher_fn h params req = (case h of None \<Rightarrow> Inr req | Some f \<Rightarrow> f params req)"

definition RegisterRouteHandler ::
  "(string \<Rightarrow> size_t) \<Rightarrow> string \<Rightarrow> handler_ptr \<Rightarrow> GlobalDispatcherHandler \<Rightarrow>
     GlobalDispatcherHandler result" where
  "RegisterRouteHandler hasher path h g =
     (let k = hasher path
      in bind_result (AddRoute k path (Some Dispatcher_fn) (router g))
           (\<lambda>r. Inr (g\<lparr>router := r, routes := emplace k (make_Route k path h) (routes g)\<rparr>)))"

text \<open>\<open>Router()\<close> returns a reference: its caller may change the router itself, without the mutex.\<close>

definition through_Router ::
  "(handler_fn RouterNode \<Rightarrow> handler_fn RouterNode result) \<Rightarrow> GlobalDispatcherHandler \<Rightarrow> GlobalDispatcherHandler result" where
  "through_Router use g = bind_result (use (router g)) (\<lambda>r. Inr (g\<lparr>router := r\<rparr>))"

text \<open>The call \<open>(*fn)(req, res, req_handler, params)\<close> throws when \<open>fn\<close> holds no function.\<close>

definition call_fn :: "handler_fn option \<Rightarrow> handler_fn" where
  "call_fn fn h params req = (case fn of None \<Rightarrow> Inl Bad_function_call | Some f \<Rightarrow> f h params req)"

definition HandleImpl :: "h2o_api \<Rightarrow> GlobalDispatcherHandler \<Rightarrow> h2o_req \<Rightarrow> h2o_req result" where
  "HandleImpl api g req =
     bind_result (MatchRoute (GetPath req) [] (router g)) (\<lambda>(route_result, params).
       if IsEmpty route_result then Inr (Send api ''Eror 404: Not found'' 404 req)
       else case (executor route_result, result_key route_result) of
         (Some fn, Some k) \<Rightarrow>
           (case map_of (routes g) k of
              None \<Rightarrow> Inl Out_of_range
            | Some r \<Rightarrow> call_fn fn (req_handler r) params req)
       | _ \<Rightarrow> Inl (Undefined_read ''null RouterMatchResult pointer''))"

text \<open>The dispatcher's own \<open>HandleRequest\<close> does nothing.\<close>

definition dispatcher_HandleRequest :: request_handler where
  "dispatcher_HandleRequest params req = Inr req"

section \<open>What the dispatcher relies on\<close>

locale route_index =
  fixes empty :: 't
    and add :: "size_t \<Rightarrow> string \<Rightarrow> 'h option \<Rightarrow> 't \<Rightarrow> 't result"
    and lookup :: "string \<Rightarrow> params \<Rightarrow> 't \<Rightarrow> ('h RouterMatchResult \<times> params) result"
    and table :: "'t \<Rightarrow> string list \<Rightarrow> (size_t \<times> 'h) option"
    and inv :: "'t \<Rightarrow> bool"
  assumes inv_empty: "inv empty"
    and inv_add: "add k p h t = Inr t' \<Longrightarrow> inv t \<Longrightarrow> inv t'"
    and table_empty: "table empty ks = None"
    and table_add: "add k p h t = Inr t' \<Longrightarrow> table t' = (table t)(pattern_of p := map_option (Pair k) h)"
    and lookup_total: "\<exists>r. lookup p ps t = Inr r"
    and lookup_table: "inv t \<Longrightarrow> lookup p ps t = Inr (r, ps') \<Longrightarrow> executor r = Some (Some f) \<Longrightarrow>
      \<exists>ks k. result_key r = Some k \<and> table t ks = Some (k, f) \<and>
        pattern_admits ks (splits (CHR ''/'') p)"
begin

text \<open>Every endpoint's key has an entry in the second map, and only known functions are stored.\<close>

definition covered :: "'t \<Rightarrow> (size_t \<times> 'r) list \<Rightarrow> bool" where
  "covered t rs = (inv t \<and> (\<forall>ks k h. table t ks = Some (k, h) \<longrightarrow> map_of rs k \<noteq> None))"

lemma covered_empty: "covered empty []"
  by (simp add: covered_def inv_empty table_empty)

lemma covered_add:
  assumes "covered t rs" and "add k p h t = Inr t'"
  shows "covered t' (emplace k r rs)"
  using assms inv_add [OF assms(2)] table_add [OF assms(2)]
  by (auto simp: covered_def map_of_emplace split: if_splits option.splits)

lemma covered_lookup:
  assumes "covered t rs" and "lookup p ps t = Inr (r, ps')" and "executor r = Some (Some h)"
  obtains ks k rt where "result_key r = Some k" and "map_of rs k = Some rt"
    and "table t ks = Some (k, h)" and "pattern_admits ks (splits (CHR ''/'') p)"
proof -
  from assms(1) have "inv t" by (simp add: covered_def)
  from lookup_table [OF this assms(2,3)] obtain ks k
    where "result_key r = Some k" "table t ks = Some (k, h)" "pattern_admits ks (splits (CHR ''/'') p)"
    by blast
  moreover from this assms(1) have "map_of rs k \<noteq> None" by (auto simp: covered_def)
  ultimately show thesis using that by (metis option.exhaust)
qed

end

interpretation trie: route_index new_node AddRoute MatchRoute route_table wf_node
  by unfold_locales
    (auto intro: AddRoute_wf MatchRoute_table simp: route_table_new_node AddRoute_table MatchRoute_eq)

section \<open>Registration\<close>

lemma RegisterRouteHandler_Inr:
  "RegisterRouteHandler hasher path h g = Inr g' \<longleftrightarrow>
     (\<exists>r. AddRoute (hasher path) path (Some Dispatcher_fn) (router g) = Inr r \<and>
        g' = g\<lparr>router := r, routes := emplace (hasher path) (make_Route (hasher path) path h) (routes g)\<rparr>)"
  by (auto simp: RegisterRouteHandler_def Let_def result_simps)

text \<open>A program's registrations, in order, on a fresh dispatcher.\<close>

definition register_all ::
  "(string \<Rightarrow> size_t) \<Rightarrow> (string \<times> handler_ptr) list \<Rightarrow> GlobalDispatcherHandler result" where
  "register_all hasher regs =
     for_result (\<lambda>(path, h). RegisterRouteHandler hasher path h) regs make_GlobalDispatcherHandler"

lemma register_all_snoc:
  "register_all hasher (regs @ [(path, h)]) = Inr g' \<longleftrightarrow>
     (\<exists>g. register_all hasher regs = Inr g \<and> RegisterRouteHandler hasher path h g = Inr g')"
  by (auto simp: register_all_def for_result_append result_simps)

lemma register_all_Nil [simp]: "register_all hasher [] = Inr make_GlobalDispatcherHandler"
  by (simp add: register_all_def)

text \<open>What holds of every dispatcher built by registrations.\<close>

definition first_handler :: "(string \<times> handler_ptr) list \<Rightarrow> string \<Rightarrow> handler_ptr option" where
  "first_handler regs path = map_of regs path"

definition dispatcher_ok ::
  "(string \<Rightarrow> size_t) \<Rightarrow> (string \<times> handler_ptr) list \<Rightarrow> GlobalDispatcherHandler \<Rightarrow> bool" where
  "dispatcher_ok hasher regs g =
     (trie.covered (router g) (routes g) \<and>
      (\<forall>path \<in> fst ` set regs. map_of (routes g) (hasher path) \<noteq> None) \<and>
      (\<forall>ks k f. route_table (router g) ks = Some (k, f) \<longrightarrow> f = Dispatcher_fn \<and>
         (\<exists>path \<in> fst ` set regs. pattern_of path = ks \<and> hasher path = k)) \<and>
      (\<forall>k r. map_of (routes g) k = Some r \<longrightarrow> hasher (route_path r) = k \<and>
         first_handler regs (route_path r) = Some (req_handler r)))"

lemma dispatcher_ok_empty: "dispatcher_ok hasher [] make_GlobalDispatcherHandler"
  by (simp add: dispatcher_ok_def make_GlobalDispatcherHandler_def trie.covered_empty route_table_new_node)

lemma dispatcher_ok_register:
  assumes ok: "dispatcher_ok hasher regs g" and reg: "RegisterRouteHandler hasher path h g = Inr g'"
  shows "dispatcher_ok hasher (regs @ [(path, h)]) g'"
proof -
  from reg obtain r where add: "AddRoute (hasher path) path (Some Dispatcher_fn) (router g) = Inr r"
    and g': "g' = g\<lparr>router := r,
      routes := emplace (hasher path) (make_Route (hasher path) path h) (routes g)\<rparr>"
    by (auto simp: RegisterRouteHandler_Inr)
  have cov: "trie.covered (router g') (routes g')"
  proof -
    from ok have "trie.covered (router g) (routes g)" by (simp add: dispatcher_ok_def)
    from trie.covered_add [OF this add] show ?thesis by (simp add: g')
  qed
  have tab: "f = Dispatcher_fn \<and>
      (\<exists>p \<in> fst ` set (regs @ [(path, h)]). pattern_of p = ks \<and> hasher p = k)"
    if "route_table (router g') ks = Some (k, f)" for ks k f
    using that ok AddRoute_table [OF add] by (auto simp: dispatcher_ok_def g' split: if_splits)
  have rts: "hasher (route_path rt) = k \<and> first_handler (regs @ [(path, h)]) (route_path rt) = Some (req_handler rt)"
    if rt: "map_of (routes g') k = Some rt" for k rt
  proof (cases "map_of (routes g) k = Some rt")
    case True
    with ok show ?thesis by (auto simp: dispatcher_ok_def first_handler_def map_add_Some_iff)
  next
    case False
    then have new: "k = hasher path" "map_of (routes g) k = None" "rt = make_Route (hasher path) path h"
      using rt by (auto simp: g' map_of_emplace split: if_splits option.splits)
    with ok have "path \<notin> fst ` set regs" by (auto simp: dispatcher_ok_def)
    then have "map_of regs path = None" by (simp add: map_of_eq_None_iff)
    with new show ?thesis by (auto simp: make_Route_def first_handler_def map_add_def)
  qed
  have keys: "map_of (routes g') (hasher p) \<noteq> None" if "p \<in> fst ` set (regs @ [(path, h)])" for p
    using that ok by (auto simp: dispatcher_ok_def g' map_of_emplace split: option.splits)
  from cov tab rts keys show ?thesis unfolding dispatcher_ok_def by blast
qed

lemma register_all_ok: "register_all hasher regs = Inr g \<Longrightarrow> dispatcher_ok hasher regs g"
proof (induction regs arbitrary: g rule: rev_induct)
  case Nil
  then show ?case by (auto simp: dispatcher_ok_empty)
next
  case (snoc reg regs)
  obtain path h where "reg = (path, h)" by (cases reg)
  with snoc show ?case by (auto simp: register_all_snoc intro: dispatcher_ok_register)
qed

section \<open>Dispatch\<close>

lemma HandleImpl_cases:
  assumes "register_all hasher regs = Inr g" and "MatchRoute (GetPath req) [] (router g) = Inr (r, params)"
  shows "HandleImpl api g req =
    (case executor r of
       None \<Rightarrow> Inr (Send api ''Eror 404: Not found'' 404 req)
     | Some None \<Rightarrow> Inl (if map_of (routes g) (the (result_key r)) = None then Out_of_range else Bad_function_call)
     | Some (Some fn) \<Rightarrow> Dispatcher_fn (req_handler (the (map_of (routes g) (the (result_key r))))) params req)"
proof -
  note ok = register_all_ok [OF assms(1)]
  show ?thesis
  proof (cases "executor r")
    case None
    then show ?thesis by (simp add: HandleImpl_def assms(2) IsEmpty_def)
  next
    case (Some fn)
    then have "\<not> IsEmpty r" by (simp add: IsEmpty_def)
    with assms(2) obtain m where m: "r = node_match m" by (rule MatchRoute_hit)
    show ?thesis
    proof (cases fn)
      case None
      with Some m show ?thesis
        by (auto simp: HandleImpl_def assms(2) call_fn_def split: option.splits)
    next
      case (Some f)
      with \<open>executor r = Some fn\<close> have ex: "executor r = Some (Some f)" by simp
      from ok have cov: "trie.covered (router g) (routes g)" by (simp add: dispatcher_ok_def)
      obtain ks k rt where "result_key r = Some k" "map_of (routes g) k = Some rt"
        "route_table (router g) ks = Some (k, f)"
        using trie.covered_lookup [OF cov assms(2) ex] by metis
      moreover from this ok have "f = Dispatcher_fn" unfolding dispatcher_ok_def by blast
      ultimately show ?thesis
        using ex by (simp add: HandleImpl_def assms(2) IsEmpty_def call_fn_def)
    qed
  qed
qed

text \<open>The handler a match is dispatched to, when the hash separates the registered paths.\<close>

lemma HandleImpl_handler:
  assumes "register_all hasher regs = Inr g" and "inj_on hasher (fst ` set regs)"
    and "MatchRoute (GetPath req) [] (router g) = Inr (r, params)" and "executor r = Some (Some fn)"
  shows "\<exists>path h. path \<in> fst ` set regs \<and> first_handler regs path = Some h \<and>
     pattern_admits (pattern_of path) (splits (CHR ''/'') (GetPath req)) \<and>
     HandleImpl api g req = Dispatcher_fn h params req"
proof -
  note ok = register_all_ok [OF assms(1)]
  from ok have cov: "trie.covered (router g) (routes g)" by (simp add: dispatcher_ok_def)
  obtain ks k rt where k: "result_key r = Some k" "map_of (routes g) k = Some rt"
    "route_table (router g) ks = Some (k, fn)"
    "pattern_admits ks (splits (CHR ''/'') (GetPath req))"
    using trie.covered_lookup [OF cov assms(3,4)] by metis
  from k(3) ok obtain path where path: "path \<in> fst ` set regs" "pattern_of path = ks" "hasher path = k"
    unfolding dispatcher_ok_def by blast
  from k(2) ok have rt: "hasher (route_path rt) = k" "first_handler regs (route_path rt) = Some (req_handler rt)"
    unfolding dispatcher_ok_def by blast+
  from rt(2) have "route_path rt \<in> fst ` set regs"
    unfolding first_handler_def by (metis domI dom_map_of_conv_image_fst)
  with assms(2) path rt(1) have "route_path rt = path" by (auto dest: inj_onD)
  with path k rt HandleImpl_cases [OF assms(1,3)] assms(4) show ?thesis
    by (intro exI [of _ path] exI [of _ "req_handler rt"]) simp
qed

section \<open>Registrations seen from the trie and from the second map\<close>

definition route_regs :: "(string \<Rightarrow> size_t) \<Rightarrow> (string \<times> handler_ptr) list \<Rightarrow> handler_fn registration list" where
  "route_regs hasher regs = map (\<lambda>(path, h). (hasher path, path, Some Dispatcher_fn)) regs"

lemma register_all_router: "register_all hasher regs = Inr g \<Longrightarrow> add_routes (route_regs hasher regs) new_node = Inr (router g)"
proof (induction regs arbitrary: g rule: rev_induct)
  case Nil
  then show ?case by (auto simp: route_regs_def add_routes_def make_GlobalDispatcherHandler_def)
next
  case (snoc reg regs)
  obtain path h where "reg = (path, h)" by (cases reg)
  with snoc show ?case
    by (auto simp: register_all_snoc RegisterRouteHandler_Inr route_regs_def add_routes_snoc)
qed

text \<open>The second map holds, under each hash, the handler registered first under it.\<close>

lemma register_all_routes:
  "register_all hasher regs = Inr g \<Longrightarrow>
     map_option req_handler (map_of (routes g) k) = map_of (map (\<lambda>(p, h). (hasher p, h)) regs) k"
proof (induction regs arbitrary: g rule: rev_induct)
  case Nil
  then show ?case by (auto simp: make_GlobalDispatcherHandler_def)
next
  case (snoc reg regs)
  obtain path h where reg: "reg = (path, h)" by (cases reg)
  with snoc.prems obtain g0 where g0: "register_all hasher regs = Inr g0"
    "routes g = emplace (hasher path) (make_Route (hasher path) path h) (routes g0)"
    by (auto simp: register_all_snoc RegisterRouteHandler_Inr)
  from snoc.IH [OF g0(1)] reg show ?case
    by (auto simp: g0(2) map_of_emplace make_Route_def map_add_def split: option.splits)
qed

lemma map_of_hashed:
  "inj_on hasher (insert path (fst ` set regs)) \<Longrightarrow>
     map_of (map (\<lambda>(p, h). (hasher p, h)) regs) (hasher path) = map_of regs path"
  by (induction regs) (auto simp: inj_on_def)

text \<open>What a match with the dispatcher's function leads to.\<close>

lemma HandleImpl_match:
  assumes "MatchRoute (GetPath req) [] (router g) = Inr (\<lparr>executor = Some (Some Dispatcher_fn), result_key = Some k\<rparr>, params)"
    and "register_all hasher regs = Inr g" and "map_of (map (\<lambda>(p, h). (hasher p, h)) regs) k = Some h"
  shows "HandleImpl api g req = Dispatcher_fn h params req"
  using register_all_routes [OF assms(2), of k] assms(1,3)
  by (auto simp: HandleImpl_def IsEmpty_def call_fn_def)

lemma static_pattern_unique: "lbrace \<notin> set path \<Longrightarrow> pattern_of p = pattern_of path \<Longrightarrow> p = path"
proof -
  assume st: "lbrace \<notin> set path" and eq: "pattern_of p = pattern_of path"
  have "normalized_part x = x" if "x \<in> set (splits (CHR ''/'') p)" for x
  proof -
    have "normalized_part x \<in> set (pattern_of p)" using that by (simp add: pattern_of_def)
    then have "normalized_part x \<in> set (splits (CHR ''/'') path)"
      using eq pattern_of_static [OF st] by simp
    then have "normalized_part x \<noteq> param_key" using static_not_param [OF st] by blast
    then show ?thesis by (auto simp: normalized_part_def split: if_splits)
  qed
  then have "splits (CHR ''/'') p = splits (CHR ''/'') path"
    using eq pattern_of_static [OF st] by (metis pattern_of_def map_idI)
  then show "p = path" by (metis joined_splits)
qed

text \<open>What the trie holds for a registered path without parameters.\<close>

lemma static_endpoint:
  assumes "register_all hasher regs = Inr g" and "lbrace \<notin> set path" and "path \<in> fst ` set regs"
  shows "wf_node (router g)" and "route_table (router g) (splits (CHR ''/'') path) = Some (hasher path, Dispatcher_fn)"
proof -
  from assms(3) have "path \<in> set (map fst regs)" by simp
  from split_list_last [OF this] obtain a b where ab: "map fst regs = a @ path # b" "path \<notin> set b" by blast
  then obtain before later h' where regs: "regs = before @ (path, h') # later" and "map fst later = b"
    by (auto simp: map_eq_append_conv Cons_eq_map_conv append_eq_map_conv)
  then have "path \<notin> fst ` set later" using ab(2) by force
  then have "\<forall>r \<in> set (route_regs hasher later). pattern_of (fst (snd r)) \<noteq> pattern_of path"
    using static_pattern_unique [OF assms(2)] by (force simp: route_regs_def)
  moreover have "add_routes (route_regs hasher before @ (hasher path, path, Some Dispatcher_fn) # route_regs hasher later)
      new_node = Inr (router g)"
    using register_all_router [OF assms(1)] by (simp add: regs route_regs_def)
  ultimately have "wf_node (router g) \<and> route_table (router g) (pattern_of path) = Some (hasher path, Dispatcher_fn)"
    by (rule add_routes_latest [rotated])
  then show "wf_node (router g)" "route_table (router g) (splits (CHR ''/'') path) = Some (hasher path, Dispatcher_fn)"
    by (simp_all add: pattern_of_static [OF assms(2)])
qed

lemma dispatch_static:
  assumes "register_all hasher regs = Inr g" and "lbrace \<notin> set (GetPath req)" and "GetPath req \<in> fst ` set regs"
    and "map_of (map (\<lambda>(p, h). (hasher p, h)) regs) (hasher (GetPath req)) = Some h"
  shows "HandleImpl api g req = Dispatcher_fn h [] req"
proof -
  note ep = static_endpoint [OF assms(1-3)]
  from MatchRoute_static [OF ep assms(2)]
  have "MatchRoute (GetPath req) [] (router g) =
      Inr (\<lparr>executor = Some (Some Dispatcher_fn), result_key = Some (hasher (GetPath req))\<rparr>, [])" .
  from HandleImpl_match [OF this assms(1,4)] show ?thesis .
qed

lemma node_at_prefix: "node_at (ks @ js) n \<noteq> None \<Longrightarrow> node_at ks n \<noteq> None"
  by (induction ks arbitrary: n) (auto split: option.splits)

text \<open>Registration of valid patterns always succeeds.\<close>

lemma register_all_valid:
  "\<forall>p \<in> fst ` set regs. IsValidRoute p \<Longrightarrow> \<exists>g. register_all hasher regs = Inr g"
proof (induction regs rule: rev_induct)
  case (snoc reg regs)
  obtain path h where "reg = (path, h)" by (cases reg)
  with snoc show ?case by (auto simp: register_all_snoc RegisterRouteHandler_Inr AddRoute_eq)
qed simp

section \<open>Properties\<close>

text \<open>C3. End to end, for routes without parameters: after any sequence of accepted registrations
  whose hashes are distinct, a request for a registered path runs the handler that was registered
  first for it, with no parameters.\<close>

theorem static_request_dispatched:
  assumes "register_all hasher regs = Inr g" and "inj_on hasher (fst ` set regs)"
    and "lbrace \<notin> set (GetPath req)" and "first_handler regs (GetPath req) = Some h"
  shows "HandleImpl api g req = Dispatcher_fn h [] req"
proof (rule dispatch_static [OF assms(1,3)])
  show mem: "GetPath req \<in> fst ` set regs"
    using assms(4) by (metis first_handler_def domI dom_map_of_conv_image_fst)
  show "map_of (map (\<lambda>(p, h). (hasher p, h)) regs) (hasher (GetPath req)) = Some h"
    using map_of_hashed [of hasher "GetPath req" regs] assms(2,4) mem
    by (simp add: first_handler_def insert_absorb)
qed

theorem static_request_dispatched_witness:
  "\<exists>g. register_all (\<lambda>p. word_of_nat (length p))
       [(''/{x}/b'', None), (''/a/b'', Some (\<lambda>ps r. Inr (Status 201 r))), (''/a/b'', None)] = Inr g \<and>
     HandleImpl list_api g (plain_request ''GET'' ''/a/b'' []) =
       Dispatcher_fn (Some (\<lambda>ps r. Inr (Status 201 r))) [] (plain_request ''GET'' ''/a/b'' [])"
proof -
  let ?hash = "\<lambda>p. word_of_nat (length p) :: size_t"
  let ?regs = "[(''/{x}/b'', None), (''/a/b'', Some (\<lambda>ps r. Inr (Status 201 r))), (''/a/b'', None)]"
  have "IsValidRoute ''/{x}/b''" "IsValidRoute ''/a/b''" by code_simp+
  with register_all_valid [of ?regs ?hash] obtain g where g: "register_all ?hash ?regs = Inr g" by auto
  have "HandleImpl list_api g (plain_request ''GET'' ''/a/b'' []) =
      Dispatcher_fn (Some (\<lambda>ps r. Inr (Status 201 r))) [] (plain_request ''GET'' ''/a/b'' [])"
    by (rule static_request_dispatched [OF g]) (simp_all add: first_handler_def)
  with g show ?thesis by blast
qed

text \<open>C4. End to end, for a parametric route: the route registered last, under a hash of its own, runs
  its handler on every request its pattern admits and no static segment shadows, with exactly the
  parameters its text announces.\<close>

theorem param_request_dispatched:
  assumes "register_all hasher (before @ [(route, h)]) = Inr g" and "hasher route \<notin> hasher ` fst ` set before"
    and "pattern_admits (pattern_of route) (splits (CHR ''/'') (GetPath req))"
    and "\<not> shadowed (pattern_of route) (splits (CHR ''/'') (GetPath req)) (router g)"
  shows "HandleImpl api g req =
    Dispatcher_fn h (declared_params (splits (CHR ''/'') route) (splits (CHR ''/'') (GetPath req)) []) req"
proof -
  have "add_routes (route_regs hasher before @ [(hasher route, route, Some Dispatcher_fn)]) new_node = Inr (router g)"
    using register_all_router [OF assms(1)] by (simp add: route_regs_def)
  note match = MatchRoute_latest [OF this assms(3,4), of "[]"]
  have "map_of (map (\<lambda>(p, h). (hasher p, h)) before) (hasher route) = None"
    using assms(2) by (force simp: map_of_eq_None_iff)
  then have "map_of (map (\<lambda>(p, h). (hasher p, h)) (before @ [(route, h)])) (hasher route) = Some h"
    by (simp add: map_add_def)
  from HandleImpl_match [OF match assms(1) this] show ?thesis .
qed

theorem param_request_dispatched_witness:
  "\<exists>g. register_all (\<lambda>p. word_of_nat (length p)) ([] @ [(''/a/{id}'', Some (\<lambda>ps r. Inr (Status 202 r)))]) = Inr g \<and>
     HandleImpl list_api g (plain_request ''GET'' ''/a/5'' []) =
       Dispatcher_fn (Some (\<lambda>ps r. Inr (Status 202 r)))
         (declared_params (splits (CHR ''/'') ''/a/{id}'') (splits (CHR ''/'') (GetPath (plain_request ''GET'' ''/a/5'' []))) [])
         (plain_request ''GET'' ''/a/5'' [])"
proof -
  let ?hash = "\<lambda>p. word_of_nat (length p) :: size_t" and ?h = "Some (\<lambda>ps r. Inr (Status 202 r)) :: handler_ptr"
  let ?regs = "[] @ [(''/a/{id}'', ?h)]" and ?r = "plain_request ''GET'' ''/a/5'' []"
  have "IsValidRoute ''/a/{id}''" by code_simp
  with register_all_valid [of ?regs ?hash] obtain g where g: "register_all ?hash ?regs = Inr g" by auto
  have pat: "pattern_of ''/a/{id}'' = [[], ''a'', param_key]" by code_simp
  have router: "router g = add_parts (?hash ''/a/{id}'') (Some Dispatcher_fn) [[], ''a'', ''{id}''] new_node"
    using register_all_router [OF g]
    by (auto simp: route_regs_def add_routes_def result_simps AddRoute_eq split: if_splits)
  have "HandleImpl list_api g ?r = Dispatcher_fn ?h
      (declared_params (splits (CHR ''/'') ''/a/{id}'') (splits (CHR ''/'') (GetPath ?r)) []) ?r"
  proof (rule param_request_dispatched [OF g])
    show "?hash ''/a/{id}'' \<notin> ?hash ` fst ` set ([] :: (string \<times> handler_ptr) list)" by simp
    show "pattern_admits (pattern_of ''/a/{id}'') (splits (CHR ''/'') (GetPath ?r))"
      unfolding pat plain_request_sel by code_simp
    have parts: "normalized_part [] = []" "normalized_part ''a'' = ''a''" "normalized_part ''{id}'' = param_key"
      by code_simp+
    have "[] \<noteq> param_key" "''a'' \<noteq> param_key" "''5'' \<noteq> param_key" by code_simp+
    then show "\<not> shadowed (pattern_of ''/a/{id}'') (splits (CHR ''/'') (GetPath ?r)) (router g)"
      unfolding pat router by (simp add: shadowed_Cons parts Let_def) (simp add: shadowed_def)
  qed
  with g show ?thesis by blast
qed

text \<open>C24. Everything the dispatcher does: it answers 404 exactly when the router finds nothing; when it
  finds a function it runs the first handler of a registered path whose pattern admits the request,
  and the look-up in the second map cannot fail; the only other case is a node without a function,
  and then the call throws.\<close>

theorem dispatch_outcomes:
  assumes "register_all hasher regs = Inr g" and "inj_on hasher (fst ` set regs)"
    and "MatchRoute (GetPath req) [] (router g) = Inr (r, params)"
  shows "case executor r of
      None \<Rightarrow> HandleImpl api g req = Inr (Send api ''Eror 404: Not found'' 404 req)
    | Some None \<Rightarrow> HandleImpl api g req \<in> {Inl Out_of_range, Inl Bad_function_call}
    | Some (Some fn) \<Rightarrow> \<exists>path h. first_handler regs path = Some h \<and>
        pattern_admits (pattern_of path) (splits (CHR ''/'') (GetPath req)) \<and>
        HandleImpl api g req = Dispatcher_fn h params req"
proof (cases "executor r")
  case None
  then show ?thesis using HandleImpl_cases [OF assms(1,3), of api] by simp
next
  case (Some f)
  show ?thesis
  proof (cases f)
    case None
    with Some show ?thesis using HandleImpl_cases [OF assms(1,3), of api] by simp
  next
    case (Some fn)
    with \<open>executor r = Some f\<close> HandleImpl_handler [OF assms, of fn api] show ?thesis by auto
  qed
qed

theorem dispatch_outcomes_witness:
  "\<exists>g. register_all (\<lambda>p. word_of_nat (length p)) [(''/a/b'', None)] = Inr g \<and>
     HandleImpl list_api g (plain_request ''GET'' ''/x'' []) =
       Inr (Send list_api ''Eror 404: Not found'' 404 (plain_request ''GET'' ''/x'' []))"
proof -
  let ?hash = "\<lambda>p. word_of_nat (length p) :: size_t" and ?regs = "[(''/a/b'', None :: handler_ptr)]"
  let ?r = "plain_request ''GET'' ''/x'' []"
  have "IsValidRoute ''/a/b''" by code_simp
  with register_all_valid [of ?regs ?hash] obtain g where g: "register_all ?hash ?regs = Inr g" by auto
  have "router g = add_parts (?hash ''/a/b'') (Some Dispatcher_fn) [[], ''a'', ''b''] new_node"
    using register_all_router [OF g]
    by (auto simp: route_regs_def add_routes_def result_simps AddRoute_eq split: if_splits)
  moreover have "normalized_part [] = []" "normalized_part ''a'' = ''a''" "normalized_part ''b'' = ''b''"
    "[] \<noteq> param_key" "''a'' \<noteq> param_key" "''b'' \<noteq> param_key" by code_simp+
  ultimately have "MatchRoute (GetPath ?r) [] (router g) = Inr (no_match, [])"
    by (simp add: MatchRoute_eq Let_def)
  from dispatch_outcomes [OF g _ this, of list_api] g show ?thesis by (auto simp: no_match_def)
qed

text \<open>A request for a path that is not registered, but that a registered route runs through, is not
  answered with 404: it ends at an inner node, and the dispatcher throws.\<close>

theorem inner_node_throws:
  assumes "register_all hasher regs = Inr g" and "lbrace \<notin> set (GetPath req)"
    and "GetPath req \<notin> fst ` set regs" and "route \<in> fst ` set regs"
    and "splits (CHR ''/'') route = splits (CHR ''/'') (GetPath req) @ parts"
  shows "HandleImpl api g req \<in> {Inl Out_of_range, Inl Bad_function_call}"
proof -
  let ?p = "GetPath req" and ?ks = "splits (CHR ''/'') (GetPath req)"
  note add = register_all_router [OF assms(1)]
  have wf: "wf_node (router g)" using add_routes_wf [OF add] by simp
  obtain k where "(k, route, Some Dispatcher_fn) \<in> set (route_regs hasher regs)"
    using assms(4) by (force simp: route_regs_def)
  from add_routes_node_at [OF add this] have "node_at (pattern_of route) (router g) \<noteq> None" .
  moreover have "pattern_of route = ?ks @ map normalized_part parts"
    using assms(5) pattern_of_static [OF assms(2)] by (simp add: pattern_of_def)
  ultimately have "node_at ?ks (router g) \<noteq> None" using node_at_prefix by metis
  then obtain m where m: "node_at ?ks (router g) = Some m" by blast
  have "route_table (router g) ?ks = None"
  proof (rule ccontr)
    assume "route_table (router g) ?ks \<noteq> None"
    then obtain k h where "route_table (router g) ?ks = Some (k, h)" by auto
    from add_routes_table_origin [OF add this] obtain q where "(k, q, Some h) \<in> set (route_regs hasher regs)"
      "pattern_of q = pattern_of ?p"
      using pattern_of_static [OF assms(2)] by auto
    with static_pattern_unique [OF assms(2)] assms(3) show False by (force simp: route_regs_def)
  qed
  with m have none: "handler m = None" by (simp add: route_table_def endpoint_def)
  have "MatchRoute ?p [] (router g) = Inr (node_match m, [])"
    using MatchRoute_found [OF wf m pattern_admits_static [OF assms(2)] shadowed_static [OF assms(2)]]
      bind_params_static [of ?ks] static_not_param [OF assms(2)] by auto
  from HandleImpl_cases [OF assms(1) this] none show ?thesis by auto
qed

theorem inner_node_throws_witness:
  "\<exists>g. register_all (\<lambda>p. word_of_nat (length p)) [(''/post/{id}'', None)] = Inr g \<and>
     HandleImpl list_api g (plain_request ''GET'' ''/post'' []) \<in> {Inl Out_of_range, Inl Bad_function_call}"
proof -
  let ?hash = "\<lambda>p. word_of_nat (length p) :: size_t" and ?regs = "[(''/post/{id}'', None :: handler_ptr)]"
  have "IsValidRoute ''/post/{id}''" by code_simp
  with register_all_valid [of ?regs ?hash] obtain g where g: "register_all ?hash ?regs = Inr g" by auto
  have "HandleImpl list_api g (plain_request ''GET'' ''/post'' []) \<in> {Inl Out_of_range, Inl Bad_function_call}"
    by (rule inner_node_throws [OF g, where route = "''/post/{id}''" and parts = "[''{id}'']"]) simp_all
  with g show ?thesis by blast
qed

text \<open>The second map is indexed by the hash alone: when the hash of a path equals that of a path
  registered earlier, requests for it run the earlier path's handler.\<close>

theorem hash_collision_misroutes:
  assumes "register_all hasher [(p1, h1), (p2, h2)] = Inr g" and "hasher p1 = hasher p2"
    and "GetPath req = p2" and "lbrace \<notin> set p2"
  shows "HandleImpl api g req = Dispatcher_fn h1 [] req"
  using assms by (intro dispatch_static [OF assms(1)]) auto

theorem hash_collision_misroutes_witness:
  "\<exists>g. register_all (\<lambda>p. word_of_nat (length p)) [(''/a'', None), (''/b'', Some (\<lambda>ps r. Inr (Status 201 r)))] = Inr g \<and>
     HandleImpl list_api g (plain_request ''GET'' ''/b'' []) = Dispatcher_fn None [] (plain_request ''GET'' ''/b'' [])"
proof -
  let ?hash = "\<lambda>p. word_of_nat (length p) :: size_t"
  let ?regs = "[(''/a'', None), (''/b'', Some (\<lambda>ps r. Inr (Status 201 r)))]"
  have "IsValidRoute ''/a''" "IsValidRoute ''/b''" by code_simp+
  with register_all_valid [of ?regs ?hash] obtain g where g: "register_all ?hash ?regs = Inr g" by auto
  have "HandleImpl list_api g (plain_request ''GET'' ''/b'' []) = Dispatcher_fn None [] (plain_request ''GET'' ''/b'' [])"
    by (rule hash_collision_misroutes [OF g]) simp_all
  with g show ?thesis by blast
qed

text \<open>A route that is added through \<open>Router()\<close> has no entry in the second map: a request for its path, if
  that has no parameters, is dispatched by the key that was given, to the handler of whatever route was
  registered under this key, and throws when there is none.\<close>

theorem route_added_through_Router:
  assumes "register_all hasher regs = Inr g" and "through_Router (AddRoute k (GetPath req) (Some fn)) g = Inr g'"
    and "lbrace \<notin> set (GetPath req)"
  shows "HandleImpl api g' req =
    (case map_of (map (\<lambda>(p, h). (hasher p, h)) regs) k of None \<Rightarrow> Inl Out_of_range | Some h \<Rightarrow> fn h [] req)"
proof -
  from assms(2) obtain r where r: "AddRoute k (GetPath req) (Some fn) (router g) = Inr r" "g' = g\<lparr>router := r\<rparr>"
    by (auto simp: through_Router_def result_simps)
  have "wf_node (router g)"
    using register_all_ok [OF assms(1)] by (simp add: dispatcher_ok_def trie.covered_def)
  then have "wf_node r" by (rule AddRoute_wf [OF r(1)])
  moreover have "route_table r (splits (CHR ''/'') (GetPath req)) = Some (k, fn)"
    using AddRoute_table [OF r(1)] by (simp add: pattern_of_static [OF assms(3)])
  ultimately have "MatchRoute (GetPath req) [] r = Inr (\<lparr>executor = Some (Some fn), result_key = Some k\<rparr>, [])"
    using assms(3) by (rule MatchRoute_static)
  with r(2) register_all_routes [OF assms(1), of k] show ?thesis
    by (auto simp: HandleImpl_def IsEmpty_def call_fn_def split: option.splits)
qed

theorem route_added_through_Router_witness:
  "\<exists>g g'. register_all (\<lambda>p. word_of_nat (length p)) [(''/a'', None)] = Inr g \<and>
     through_Router (AddRoute 7 ''/x/y'' (Some Dispatcher_fn)) g = Inr g' \<and>
     HandleImpl list_api g' (plain_request ''GET'' ''/x/y'' []) = Inl Out_of_range"
proof -
  let ?hash = "\<lambda>p. word_of_nat (length p) :: size_t" and ?regs = "[(''/a'', None :: handler_ptr)]"
  have "IsValidRoute ''/a''" "IsValidRoute ''/x/y''" by code_simp+
  with register_all_valid [of ?regs ?hash] obtain g where g: "register_all ?hash ?regs = Inr g" by auto
  obtain g' where g': "through_Router (AddRoute 7 ''/x/y'' (Some Dispatcher_fn)) g = Inr g'"
    using \<open>IsValidRoute ''/x/y''\<close> by (simp add: through_Router_def AddRoute_eq)
  have "HandleImpl list_api g' (plain_request ''GET'' ''/x/y'' []) = Inl Out_of_range"
    using route_added_through_Router [OF g, of 7 "plain_request ''GET'' ''/x/y'' []"] g' by simp
  with g g' show ?thesis by blast
qed

end
