(* ===== verification/Handler_Glue.thy ===== *)
theory Handler_Glue
  imports Dispatcher
begin

text \<open>
  The structure that ties a handler object to h2o (\<open>src/piconaut/handlers/piconaut_handler_t.h\<close>,
  \<open>MakePiconautHandler\<close> and \<open>HandlerCallback\<close> of \<open>handler_base.h\<close>): an \<open>h2o_handler_t\<close> followed by an
  untyped pointer, allocated by h2o, cast back and forth, and freed by \<open>dispose\<close>. The store holds the
  structures by address, and the handler objects by theirs.
\<close>

section \<open>The store\<close>

type_synonym address = nat

datatype h2o_callback = On_dispose | On_req_callback

record piconaut_handler_t =
  ctx_dispose :: "h2o_callback option"
  ctx_on_req :: "h2o_callback option"
  handler_object :: "address option"

record store =
  structures :: "(address \<times> piconaut_handler_t) list"
  objects :: "(address \<times> (h2o_req \<Rightarrow> h2o_req result)) list"

text \<open>
  What \<open>h2o_create_handler\<close> returns is zeroed memory, or a null pointer. \<open>handler.get()\<close> is the address
  of the object; the \<open>shared_ptr\<close> itself is not stored.
\<close>

definition create_handler_at :: "address option \<Rightarrow> store \<Rightarrow> store" where
  "create_handler_at a s = (case a of None \<Rightarrow> s
     | Some p \<Rightarrow> s\<lparr>structures := AList.update p
         \<lparr>ctx_dispose = None, ctx_on_req = None, handler_object = None\<rparr> (structures s)\<rparr>)"

definition write_structure ::
  "address option \<Rightarrow> (piconaut_handler_t \<Rightarrow> piconaut_handler_t) \<Rightarrow> store \<Rightarrow> store result" where
  "write_structure a f s = (case a of
     None \<Rightarrow> Inl (Undefined_read ''pico_handler'')
   | Some p \<Rightarrow> (case map_of (structures s) p of
       None \<Rightarrow> Inl (Undefined_read ''freed piconaut_handler_t'')
     | Some h \<Rightarrow> Inr (s\<lparr>structures := AList.update p (f h) (structures s)\<rparr>)))"

definition make_piconaut_handler :: "address option \<Rightarrow> address option \<Rightarrow> store \<Rightarrow> (address option \<times> store) result" where
  "make_piconaut_handler a obj s =
     bind_result (write_structure a (\<lambda>h. h\<lparr>ctx_dispose := Some On_dispose\<rparr>) (create_handler_at a s)) (\<lambda>s1.
     bind_result (write_structure a (\<lambda>h. h\<lparr>ctx_on_req := Some On_req_callback\<rparr>) s1) (\<lambda>s2.
     bind_result (write_structure a (\<lambda>h. h\<lparr>handler_object := obj\<rparr>) s2) (\<lambda>s3.
       Inr (a, s3))))"

text \<open>\<open>dispose\<close>: \<open>free\<close> of a structure; of one that is not allocated the behaviour is undefined.\<close>

definition dispose :: "address \<Rightarrow> store \<Rightarrow> store result" where
  "dispose p s = (case map_of (structures s) p of
     None \<Rightarrow> Inl (Undefined_read ''double free'')
   | Some h \<Rightarrow> Inr (s\<lparr>structures := AList.delete p (structures s)\<rparr>))"

text \<open>The end of the last \<open>shared_ptr\<close> to a handler object.\<close>

definition release_object :: "address \<Rightarrow> store \<Rightarrow> store" where
  "release_object p s = s\<lparr>objects := AList.delete p (objects s)\<rparr>"

text \<open>
  \<open>HandlerCallback\<close> from the pointer that h2o passes: the structure is cast and its untyped pointer
  taken for a \<open>HandlerBase*\<close>, on which \<open>__HandleImpl\<close> is called.
\<close>

definition callback_at :: "address option \<Rightarrow> h2o_req option \<Rightarrow> store \<Rightarrow> (int \<times> h2o_req option) result" where
  "callback_at self req s =
     (case (self, req) of
        (Some p, Some r) \<Rightarrow>
          (case map_of (structures s) p of
             None \<Rightarrow> Inl (Undefined_read ''freed piconaut_handler_t'')
           | Some h \<Rightarrow>
               (case Option.bind (handler_object h) (map_of (objects s)) of
                  None \<Rightarrow> Inl (Undefined_read ''dangling HandlerBase pointer'')
                | Some impl \<Rightarrow> HandlerCallback (Some impl) req))
      | _ \<Rightarrow> Inr (1, req))"

section \<open>Lemmas\<close>

lemma make_piconaut_handler_Some:
  "make_piconaut_handler (Some p) obj s = Inr (Some p, s\<lparr>structures := AList.update p
     \<lparr>ctx_dispose = Some On_dispose, ctx_on_req = Some On_req_callback, handler_object = obj\<rparr> (structures s)\<rparr>)"
  by (simp add: make_piconaut_handler_def create_handler_at_def write_structure_def update_conv')

lemma make_piconaut_handler_None:
  "make_piconaut_handler None obj s = Inl (Undefined_read ''pico_handler'')"
  by (simp add: make_piconaut_handler_def create_handler_at_def write_structure_def)

section \<open>Properties\<close>

text \<open>The handler object survives its way through h2o's untyped pointer: the callback that
  \<open>MakePiconautHandler\<close> installs runs the \<open>__HandleImpl\<close> of exactly the object it was given, as long as
  the object lives; the structure does not keep it alive, so that once the last \<open>shared_ptr\<close> elsewhere
  is gone, or \<open>dispose\<close> has freed the structure, a further request is undefined, and so is freeing the
  structure a second time.\<close>

theorem handler_pointer_round_trip:
  assumes "make_piconaut_handler a (Some obj) s = Inr (self, s')" and "map_of (objects s) obj = Some impl"
  shows "callback_at self (Some req) s' = HandlerCallback (Some impl) (Some req) \<and>
    callback_at self (Some req) (release_object obj s') = Inl (Undefined_read ''dangling HandlerBase pointer'') \<and>
    (\<exists>p s''. self = Some p \<and> dispose p s' = Inr s'' \<and>
      callback_at self (Some req) s'' = Inl (Undefined_read ''freed piconaut_handler_t'') \<and>
      dispose p s'' = Inl (Undefined_read ''double free''))"
proof -
  from assms(1) obtain p where p: "a = Some p" by (cases a) (auto simp: make_piconaut_handler_None)
  with assms(1) have st: "self = Some p" "s' = s\<lparr>structures := AList.update p
     \<lparr>ctx_dispose = Some On_dispose, ctx_on_req = Some On_req_callback, handler_object = Some obj\<rparr> (structures s)\<rparr>"
    by (auto simp: make_piconaut_handler_Some)
  have "callback_at self (Some req) s' = HandlerCallback (Some impl) (Some req)"
    using assms(2) by (simp add: st callback_at_def update_conv')
  moreover have "callback_at self (Some req) (release_object obj s') = Inl (Undefined_read ''dangling HandlerBase pointer'')"
    by (simp add: st callback_at_def update_conv' release_object_def delete_conv')
  moreover have "\<exists>p s''. self = Some p \<and> dispose p s' = Inr s'' \<and>
      callback_at self (Some req) s'' = Inl (Undefined_read ''freed piconaut_handler_t'') \<and>
      dispose p s'' = Inl (Undefined_read ''double free'')"
    by (simp add: st dispose_def callback_at_def update_conv' delete_conv')
  ultimately show ?thesis by blast
qed

theorem handler_pointer_round_trip_witness:
  "\<exists>self s'. make_piconaut_handler (Some 8) (Some 1) \<lparr>structures = [], objects = [(1, Inr)]\<rparr> = Inr (self, s') \<and>
     callback_at self (Some (plain_request ''GET'' ''/'' [])) s' = HandlerCallback (Some Inr) (Some (plain_request ''GET'' ''/'' []))"
proof -
  let ?s = "\<lparr>structures = [], objects = [(1, Inr)]\<rparr> :: store"
  have m: "make_piconaut_handler (Some 8) (Some 1) ?s = Inr (Some 8, ?s\<lparr>structures := AList.update 8
     \<lparr>ctx_dispose = Some On_dispose, ctx_on_req = Some On_req_callback, handler_object = Some 1\<rparr> (structures ?s)\<rparr>)"
    by (rule make_piconaut_handler_Some)
  from handler_pointer_round_trip [OF m, of Inr "plain_request ''GET'' ''/'' []"] m show ?thesis by auto
qed

text \<open>A handler class that defines only \<open>HandleRequest\<close>, as \<open>HelloWorldHandler\<close> does, inherits
  \<open>__HandleImpl\<close>: tied to h2o directly, as the multi-threaded server does with what it is given, every
  request throws out of the C callback. Under the global dispatcher the same object is only ever asked
  for its \<open>HandleRequest\<close>.\<close>

theorem inherited_handler_throws:
  assumes "make_piconaut_handler a (Some obj) s = Inr (self, s')"
    and "map_of (objects s) obj = Some HandlerBase_HandleImpl"
  shows "callback_at self (Some req) s' = Inl (Runtime_error ''Unimplemented void Handle on Handler base'')"
proof -
  from assms(1) obtain p where "a = Some p" by (cases a) (auto simp: make_piconaut_handler_None)
  with assms show ?thesis
    by (auto simp: make_piconaut_handler_Some callback_at_def update_conv' HandlerCallback_def make_Request_def
        make_Response_def HandlerBase_HandleImpl_def)
qed

theorem inherited_handler_throws_witness:
  "\<exists>self s'. make_piconaut_handler (Some 8) (Some 1) \<lparr>structures = [], objects = [(1, HandlerBase_HandleImpl)]\<rparr> = Inr (self, s') \<and>
     callback_at self (Some (plain_request ''GET'' ''/'' [])) s' = Inl (Runtime_error ''Unimplemented void Handle on Handler base'')"
proof -
  let ?s = "\<lparr>structures = [], objects = [(1, HandlerBase_HandleImpl)]\<rparr> :: store"
  note m = make_piconaut_handler_Some [of 8 "Some 1" ?s]
  from inherited_handler_throws [OF m, of "plain_request ''GET'' ''/'' []"] m show ?thesis by auto
qed

end
