(* ===== verification/Router_Concurrent.thy ===== *)
theory Router_Concurrent
  imports Dispatcher
begin

text \<open>
  The router under concurrent requests. \<open>Router::AddRoute\<close> and
  \<open>GlobalDispatcherHandler::RegisterRouteHandler\<close> hold a mutex, \<open>MatchRoute\<close> and \<open>__HandleImpl\<close> take
  none (\<open>src/piconaut/routers/router.cc\<close>, \<open>src/piconaut/handlers/global_dispatcher_handler.h\<close>). Here a
  registration is the list of the single writes it performs, a request the sequence of its single
  reads, and both interleave in a step relation. There is one writer, because of the mutex; readers
  write nothing shared, so one reader stands for each of them (\<open>Registration_Threads\<close> has any number of
  both and proves that this loses nothing). A node is never moved or removed, so
  the path of its keys stands for a pointer to it. A call on a hash map and an assignment to a member
  is one step here. For a request beside a registration that is more than the language promises: its
  reads and the writes race, and C++ leaves the whole execution undefined. \<open>Data_Races\<close> says which
  executions these are, and what is claimed of requests beside registrations is claimed of the others;
  here stand what the locks do, and outcomes that can happen, races or not.
\<close>

section \<open>Writes to a node in place\<close>

primrec set_type :: "NodeType \<Rightarrow> 'h RouterNode \<Rightarrow> 'h RouterNode" where
  "set_type t' (RouterNode cs h t pn rx k) = RouterNode cs h t' pn rx k"

primrec set_param_name :: "string \<Rightarrow> 'h RouterNode \<Rightarrow> 'h RouterNode" where
  "set_param_name pn' (RouterNode cs h t pn rx k) = RouterNode cs h t pn' rx k"

primrec set_param_regex :: "regex \<Rightarrow> 'h RouterNode \<Rightarrow> 'h RouterNode" where
  "set_param_regex rx' (RouterNode cs h t pn rx k) = RouterNode cs h t pn rx' k"

primrec set_key :: "size_t \<Rightarrow> 'h RouterNode \<Rightarrow> 'h RouterNode" where
  "set_key k' (RouterNode cs h t pn rx k) = RouterNode cs h t pn rx k'"

primrec set_handler :: "'h option \<Rightarrow> 'h RouterNode \<Rightarrow> 'h RouterNode" where
  "set_handler h' (RouterNode cs h t pn rx k) = RouterNode cs h' t pn rx k"

text \<open>A write through a pointer into the tree, and the insertion of a child.\<close>

fun modify_at :: "string list \<Rightarrow> ('h RouterNode \<Rightarrow> 'h RouterNode) \<Rightarrow> 'h RouterNode \<Rightarrow> 'h RouterNode" where
  "modify_at [] f n = f n"
| "modify_at (k # ks) f n =
     (case map_of (children n) k of
        None \<Rightarrow> n
      | Some c \<Rightarrow> set_children (AList.update k (modify_at ks f c) (children n)) n)"

definition insert_child :: "string \<Rightarrow> 'h RouterNode \<Rightarrow> 'h RouterNode" where
  "insert_child k n = set_children (AList.update k new_node (children n)) n"

section \<open>The writer\<close>

text \<open>
  What the threads share: the dispatcher object, and whether an entry of a \<open>children\<close> map currently
  holds a null pointer. \<open>children[k] = std::make_unique<RouterNode>()\<close> first inserts a null pointer
  under \<open>k\<close> and then moves the new node into it.
\<close>

record shared =
  disp :: GlobalDispatcherHandler
  null_child :: "string list option"

definition shared_of :: "GlobalDispatcherHandler \<Rightarrow> shared" where
  "shared_of g = \<lparr>disp = g, null_child = None\<rparr>"

datatype node_write =
    Insert_null "string list"
  | Make_child "string list"
  | Set_name "string list" string
  | Set_regex "string list" regex
  | Set_type "string list" NodeType
  | Set_key "string list" size_t
  | Set_handler "string list" "handler_fn option"
  | Emplace size_t Route

definition on_router :: "(handler_fn RouterNode \<Rightarrow> handler_fn RouterNode) \<Rightarrow> shared \<Rightarrow> shared" where
  "on_router f s = s\<lparr>disp := (disp s)\<lparr>router := f (router (disp s))\<rparr>\<rparr>"

primrec apply_write :: "node_write \<Rightarrow> shared \<Rightarrow> shared" where
  "apply_write (Insert_null p) s =
     (if node_at p (router (disp s)) = None then s\<lparr>null_child := Some p\<rparr> else s)"
| "apply_write (Make_child p) s =
     (if null_child s = Some p
      then (on_router (modify_at (butlast p) (insert_child (last p))) s)\<lparr>null_child := None\<rparr> else s)"
| "apply_write (Set_name p n) s = on_router (modify_at p (set_param_name n)) s"
| "apply_write (Set_regex p r) s = on_router (modify_at p (set_param_regex r)) s"
| "apply_write (Set_type p t) s = on_router (modify_at p (set_type t)) s"
| "apply_write (Set_key p k) s = on_router (modify_at p (set_key k)) s"
| "apply_write (Set_handler p h) s = on_router (modify_at p (set_handler h)) s"
| "apply_write (Emplace k r) s = s\<lparr>disp := (disp s)\<lparr>routes := emplace k r (routes (disp s))\<rparr>\<rparr>"

definition run_writes :: "node_write list \<Rightarrow> shared \<Rightarrow> shared" where
  "run_writes = fold apply_write"

text \<open>One iteration of the loop of \<open>AddRoute\<close>, which makes the child at \<open>p\<close> current, and the loop with the
  two assignments after it, in program order.\<close>

definition part_writes :: "string list \<Rightarrow> string \<Rightarrow> node_write list" where
  "part_writes p part =
     [Insert_null p, Make_child p] @
     (if normalized_part part = param_key
      then [Set_name p (part_param_name part), Set_regex p param_value_regex, Set_type p kParameter]
      else [Set_type p kStatic])"

fun add_writes :: "size_t \<Rightarrow> handler_fn option \<Rightarrow> string list \<Rightarrow> string list \<Rightarrow> node_write list" where
  "add_writes k h path [] = [Set_key path k, Set_handler path h]"
| "add_writes k h path (part # parts) =
     (let p = path @ [normalized_part part] in part_writes p part @ add_writes k h p parts)"

text \<open>A registration; a pattern that is not valid makes \<open>AddRoute\<close> throw before its first write.\<close>

definition register_writes :: "(string \<Rightarrow> size_t) \<Rightarrow> string \<times> handler_ptr \<Rightarrow> node_write list" where
  "register_writes hasher reg =
     (case reg of (path, h) \<Rightarrow>
        if \<not> IsValidRoute path then []
        else (case SplitString_cb path (CHR ''/'') push_cleaned [] of
           Inl e \<Rightarrow> []
         | Inr parts \<Rightarrow>
             add_writes (hasher path) (Some Dispatcher_fn) [] (if parts = [] then [[]] else parts) @
             [Emplace (hasher path) (make_Route (hasher path) path h)]))"

definition writer_program :: "(string \<Rightarrow> size_t) \<Rightarrow> (string \<times> handler_ptr) list \<Rightarrow> node_write list" where
  "writer_program hasher regs = concat (map (register_writes hasher) regs)"

section \<open>The reader\<close>

text \<open>
  A request in \<open>__HandleImpl\<close>: the node pointer (as a path), the parts still to match and the
  parameters bound so far, at each of its reads. It ends with what it will do to the request.
\<close>

datatype dispatch_outcome =
    Not_found
  | Calls "handler_fn option" handler_ptr params
  | Throws cxx_error

datatype reader =
    Find_part "string list" "string list" params
  | Read_static_type "string list" string "string list" params
  | Find_param "string list" string "string list" params
  | Read_param_type "string list" string "string list" params
  | Read_param_regex "string list" string "string list" params
  | Store_param "string list" string "string list" params
  | Read_key "string list" params
  | Find_route "string list" size_t params
  | Read_executor "string list" handler_ptr params
  | Finished dispatch_outcome

definition start_request :: "string \<Rightarrow> reader" where
  "start_request path =
     (case SplitString path (CHR ''/'') of
        Inl e \<Rightarrow> Finished (Throws e)
      | Inr parts \<Rightarrow> Find_part [] parts [])"

lemma start_request_eq: "start_request path = Find_part [] (splits (CHR ''/'') path) []"
  by (simp add: start_request_def SplitString_splits)

text \<open>Reading a member of the node a pointer points to.\<close>

definition read_node :: "shared \<Rightarrow> string list \<Rightarrow> (handler_fn RouterNode \<Rightarrow> reader) \<Rightarrow> reader" where
  "read_node s p f =
     (case node_at p (router (disp s)) of
        None \<Rightarrow> Finished (Throws (Undefined_read ''null RouterNode pointer''))
      | Some n \<Rightarrow> f n)"

text \<open>\<open>find\<close> on the children of the node at \<open>p\<close>; the entry may hold a null pointer.\<close>

definition has_entry :: "shared \<Rightarrow> string list \<Rightarrow> string \<Rightarrow> bool" where
  "has_entry s p k = (node_at (p @ [k]) (router (disp s)) \<noteq> None \<or> null_child s = Some (p @ [k]))"

primrec read_step :: "shared \<Rightarrow> reader \<Rightarrow> reader" where
  "read_step s (Find_part p parts ps) =
     (case parts of
        [] \<Rightarrow> Read_key p ps
      | part # rest \<Rightarrow> if has_entry s p part then Read_static_type p part rest ps
                       else Find_param p part rest ps)"
| "read_step s (Read_static_type p part rest ps) =
     read_node s (p @ [part]) (\<lambda>n. if ntype n = kStatic then Find_part (p @ [part]) rest ps
                                  else Find_param p part rest ps)"
| "read_step s (Find_param p part rest ps) =
     (if has_entry s p param_key then Read_param_type p part rest ps else Finished Not_found)"
| "read_step s (Read_param_type p part rest ps) =
     read_node s (p @ [param_key]) (\<lambda>n. if ntype n = kParameter then Read_param_regex p part rest ps
                                       else Finished Not_found)"
| "read_step s (Read_param_regex p part rest ps) =
     read_node s (p @ [param_key]) (\<lambda>n. if \<not> regex_match part (param_regex n) then Finished Not_found
                                       else Store_param p part rest ps)"
| "read_step s (Store_param p part rest ps) =
     read_node s (p @ [param_key]) (\<lambda>n. Find_part (p @ [param_key]) rest (AList.update (param_name n) part ps))"
| "read_step s (Read_key p ps) = read_node s p (\<lambda>n. Find_route p (key n) ps)"
| "read_step s (Find_route p k ps) =
     (case map_of (routes (disp s)) k of
        None \<Rightarrow> Finished (Throws Out_of_range)
      | Some r \<Rightarrow> Read_executor p (req_handler r) ps)"
| "read_step s (Read_executor p h ps) = read_node s p (\<lambda>n. Finished (Calls (handler n) h ps))"
| "read_step s (Finished out) = Finished out"

text \<open>What an outcome does to the request.\<close>

primrec perform :: "h2o_api \<Rightarrow> h2o_req \<Rightarrow> dispatch_outcome \<Rightarrow> h2o_req result" where
  "perform api req Not_found = Inr (Send api ''Eror 404: Not found'' 404 req)"
| "perform api req (Calls fn h ps) = call_fn fn h ps req"
| "perform api req (Throws e) = Inl e"

section \<open>Interleaving\<close>

type_synonym conf = "shared \<times> node_write list \<times> reader"

inductive conc_step :: "conf \<Rightarrow> conf \<Rightarrow> bool" where
  write_step: "conc_step (s, w # ws, r) (apply_write w s, ws, r)"
| request_step: "\<forall>out. r \<noteq> Finished out \<Longrightarrow> conc_step (s, ws, r) (s, ws, read_step s r)"

inductive_cases conc_stepE: "conc_step (s, ws, r) (s', ws', r')"

inductive_simps conc_step_Finished: "conc_step (s, ws, Finished out) c"

text \<open>The reads a request still performs at most.\<close>

primrec reads_left :: "reader \<Rightarrow> nat" where
  "reads_left (Find_part p parts ps) = 6 * length parts + 4"
| "reads_left (Read_static_type p part rest ps) = 6 * length rest + 9"
| "reads_left (Find_param p part rest ps) = 6 * length rest + 8"
| "reads_left (Read_param_type p part rest ps) = 6 * length rest + 7"
| "reads_left (Read_param_regex p part rest ps) = 6 * length rest + 6"
| "reads_left (Store_param p part rest ps) = 6 * length rest + 5"
| "reads_left (Read_key p ps) = 3"
| "reads_left (Find_route p k ps) = 2"
| "reads_left (Read_executor p h ps) = 1"
| "reads_left (Finished out) = 0"

lemma read_step_decreases: "\<forall>out. r \<noteq> Finished out \<Longrightarrow> reads_left (read_step s r) < reads_left r"
  by (cases r) (auto simp: read_node_def split: list.splits option.splits)

text \<open>A request that is not disturbed: its reads one after the other.\<close>

function run_reader :: "shared \<Rightarrow> reader \<Rightarrow> dispatch_outcome" where
  "run_reader s (Finished out) = out"
| "\<forall>out. r \<noteq> Finished out \<Longrightarrow> run_reader s r = run_reader s (read_step s r)"
  by (auto, metis)

termination
  by (relation "measure (\<lambda>(s, r). reads_left r)") (auto simp: read_step_decreases)

end
