(* ===== verification/Concurrent_Spec.thy ===== *)
theory Concurrent_Spec
  imports Router_Concurrent "HOL-Library.Sublist"
begin

text \<open>
  What holds of requests and registrations that interleave: alone, the single writes and reads of
  theory \<open>Router_Concurrent\<close> are \<open>RegisterRouteHandler\<close> and \<open>__HandleImpl\<close>; interleaved, every
  schedule ends; and a request can meet a route that is half registered.
\<close>

section \<open>Writes in place\<close>

lemma set_field_sel [simp]:
  "children (set_type t n) = children n" "handler (set_type t n) = handler n" "ntype (set_type t n) = t"
  "param_name (set_type t n) = param_name n" "param_regex (set_type t n) = param_regex n" "key (set_type t n) = key n"
  "children (set_param_name p n) = children n" "handler (set_param_name p n) = handler n"
  "ntype (set_param_name p n) = ntype n" "param_name (set_param_name p n) = p"
  "param_regex (set_param_name p n) = param_regex n" "key (set_param_name p n) = key n"
  "children (set_param_regex r n) = children n" "handler (set_param_regex r n) = handler n"
  "ntype (set_param_regex r n) = ntype n" "param_name (set_param_regex r n) = param_name n"
  "param_regex (set_param_regex r n) = r" "key (set_param_regex r n) = key n"
  "children (set_key k n) = children n" "handler (set_key k n) = handler n" "ntype (set_key k n) = ntype n"
  "param_name (set_key k n) = param_name n" "param_regex (set_key k n) = param_regex n" "key (set_key k n) = k"
  "children (set_handler h n) = children n" "handler (set_handler h n) = h" "ntype (set_handler h n) = ntype n"
  "param_name (set_handler h n) = param_name n" "param_regex (set_handler h n) = param_regex n"
  "key (set_handler h n) = key n"
  by (cases n; simp)+

lemma insert_child_sel [simp]: "children (insert_child k n) = AList.update k new_node (children n)"
  by (simp add: insert_child_def)

lemma set_children_twice [simp]: "set_children cs (set_children ds n) = set_children cs n"
  by (cases n) simp

lemma set_endpoint_fields: "set_handler h (set_key k n) = set_endpoint k h n"
  by (cases n) simp

lemma set_parameter_fields:
  "set_type kParameter (set_param_regex param_value_regex (set_param_name p n)) = set_parameter p n"
  by (cases n) simp

lemma set_static_field: "set_type kStatic = set_static"
proof
  show "set_type kStatic n = set_static n" for n :: "'h RouterNode" by (cases n) simp
qed

lemma modify_at_append: "modify_at (p @ q) f n = modify_at p (modify_at q f) n"
  by (induction p arbitrary: n) (auto split: option.splits)

lemma modify_at_modify_at: "modify_at p f (modify_at p g n) = modify_at p (\<lambda>m. f (g m)) n"
  by (induction p arbitrary: n) (auto simp: update_conv' split: option.splits)

lemma modify_at_cong: "node_at p t = Some n \<Longrightarrow> f n = g n \<Longrightarrow> modify_at p f t = modify_at p g t"
  by (induction p arbitrary: t) (auto split: option.splits)

lemma node_at_append: "node_at (p @ q) t = Option.bind (node_at p t) (node_at q)"
  by (induction p arbitrary: t) (auto split: option.splits)

lemma node_at_modify_at_append:
  "node_at (p @ q) (modify_at p f t) = Option.bind (node_at p t) (\<lambda>n. node_at q (f n))"
  by (induction p arbitrary: t) (auto simp: update_conv' split: option.splits)

lemma node_at_modify_at_same [simp]: "node_at p (modify_at p f t) = map_option f (node_at p t)"
  using node_at_modify_at_append [of p "[]" f t] by (cases "node_at p t") auto

section \<open>A registration that is not disturbed\<close>

lemma on_router_sel [simp]:
  "router (disp (on_router f s)) = f (router (disp s))" "routes (disp (on_router f s)) = routes (disp s)"
  "null_child (on_router f s) = null_child s"
  by (simp_all add: on_router_def)

lemma on_router_on_router [simp]: "on_router f (on_router g s) = on_router (\<lambda>t. f (g t)) s"
  by (simp add: on_router_def)

lemma run_writes_simps [simp]:
  "run_writes [] s = s" "run_writes (w # ws) s = run_writes ws (apply_write w s)"
  "run_writes (ws @ vs) s = run_writes vs (run_writes ws s)"
  by (simp_all add: run_writes_def)

text \<open>The child an iteration of the loop leaves, as one modification of its parent.\<close>

definition put_step_child :: "string \<Rightarrow> 'h RouterNode \<Rightarrow> 'h RouterNode" where
  "put_step_child part n =
     set_children (AList.update (normalized_part part) (step_child part n) (children n)) n"

lemma on_router_cong: "f (router (disp s)) = g (router (disp s)) \<Longrightarrow> on_router f s = on_router g s"
  by (simp add: on_router_def)

definition set_child_fields :: "string \<Rightarrow> 'h RouterNode \<Rightarrow> 'h RouterNode" where
  "set_child_fields part c =
     (if normalized_part part = param_key then set_parameter (part_param_name part) c else set_static c)"

lemma on_router_null_child: "null_child s = None \<Longrightarrow> on_router f (s\<lparr>null_child := Some p\<rparr>)\<lparr>null_child := None\<rparr> = on_router f s"
  by (simp add: on_router_def)

lemma create_writes:
  assumes "null_child s = None" and "node_at path (router (disp s)) = Some n"
  shows "apply_write (Make_child (path @ [k])) (apply_write (Insert_null (path @ [k])) s) =
    (if map_of (children n) k = None then on_router (modify_at path (insert_child k)) s else s)"
  using assms by (auto simp: node_at_append on_router_null_child split: option.splits)

lemma field_writes:
  "run_writes (if normalized_part part = param_key
      then [Set_name p (part_param_name part), Set_regex p param_value_regex, Set_type p kParameter]
      else [Set_type p kStatic]) s = on_router (modify_at p (set_child_fields part)) s"
  by (simp add: modify_at_modify_at set_parameter_fields set_static_field set_child_fields_def [abs_def])

lemma iteration_writes:
  assumes "null_child s = None" and "node_at path (router (disp s)) = Some n"
  shows "run_writes (part_writes (path @ [normalized_part part]) part) s =
    on_router (modify_at path (put_step_child part)) s"
proof -
  let ?k = "normalized_part part"
  have *: "(if map_of (children n) ?k = None
      then modify_at [?k] (set_child_fields part) (insert_child ?k n)
      else modify_at [?k] (set_child_fields part) n) = put_step_child part n"
    by (auto simp: put_step_child_def step_child_def set_child_fields_def Let_def insert_child_def
        update_conv' split: option.splits)
  show ?thesis
    unfolding part_writes_def run_writes_simps(3) field_writes
    unfolding run_writes_simps create_writes [OF assms]
    using * assms(2)
    by (auto simp: modify_at_append modify_at_modify_at intro!: on_router_cong modify_at_cong split: if_splits)
qed

lemma add_writes_run:
  assumes "null_child s = None" and "node_at path (router (disp s)) \<noteq> None"
  shows "run_writes (add_writes k h path parts) s = on_router (modify_at path (add_parts k h parts)) s"
  using assms
proof (induction parts arbitrary: path s)
  case Nil
  then show ?case by (simp add: modify_at_modify_at set_endpoint_fields)
next
  case (Cons part parts)
  from Cons.prems(2) obtain n where n: "node_at path (router (disp s)) = Some n" by blast
  have *: "add_parts k h (part # parts) = (\<lambda>m. set_children
      (AList.update (normalized_part part) (add_parts k h parts (step_child part m)) (children m)) m)"
    by (rule ext) (rule add_parts_Cons)
  let ?p = "path @ [normalized_part part]" and ?s = "on_router (modify_at path (put_step_child part)) s"
  have "node_at ?p (router (disp ?s)) \<noteq> None"
    by (simp add: node_at_modify_at_append n put_step_child_def update_conv')
  with Cons have "run_writes (add_writes k h ?p parts) ?s = on_router (modify_at ?p (add_parts k h parts)) ?s"
    by simp
  also have "\<dots> = on_router (modify_at path (add_parts k h (part # parts))) s"
    unfolding *
    by (simp add: modify_at_append modify_at_modify_at put_step_child_def [abs_def] update_conv')
  finally show ?case
    using iteration_writes [OF Cons.prems(1) n, of part]
    by (simp add: Let_def del: add_parts.simps)
qed

lemma run_register_writes:
  assumes "null_child s = None"
  shows "run_writes (register_writes hasher (path, h)) s =
    s\<lparr>disp := (case RegisterRouteHandler hasher path h (disp s) of Inl e \<Rightarrow> disp s | Inr g \<Rightarrow> g)\<rparr>"
proof (cases "IsValidRoute path")
  case True
  then have "register_writes hasher (path, h) =
      add_writes (hasher path) (Some Dispatcher_fn) [] (splits (CHR ''/'') path) @
      [Emplace (hasher path) (make_Route (hasher path) path h)]"
    by (simp add: register_writes_def SplitString_cb_splits fold_push_cleaned cleaned_parts)
  with True assms show ?thesis
    by (simp add: add_writes_run RegisterRouteHandler_def AddRoute_eq on_router_def Let_def del: add_parts.simps)
next
  case False
  then show ?thesis by (simp add: register_writes_def RegisterRouteHandler_def AddRoute_eq Let_def)
qed

lemma shared_of_sel [simp]: "null_child (shared_of g) = None" "disp (shared_of g) = g"
  "(shared_of g)\<lparr>disp := g'\<rparr> = shared_of g'"
  by (simp_all add: shared_of_def)

text \<open>Run without interruption, the single writes of a registration are \<open>RegisterRouteHandler\<close>: they
  leave the dispatcher it computes and no null pointer; for a pattern that is refused there is none.\<close>

theorem registration_refines:
  "run_writes (register_writes hasher (path, h)) (shared_of g) =
     shared_of (case RegisterRouteHandler hasher path h g of Inl e \<Rightarrow> g | Inr g' \<Rightarrow> g')"
  using run_register_writes [of "shared_of g" hasher path h] by (simp split: sum.splits)

section \<open>A request that is not disturbed\<close>

lemma run_reader_unfold [simp]:
  "run_reader s (Find_part p parts ps) = run_reader s (read_step s (Find_part p parts ps))"
  "run_reader s (Read_static_type p x rest ps) = run_reader s (read_step s (Read_static_type p x rest ps))"
  "run_reader s (Find_param p x rest ps) = run_reader s (read_step s (Find_param p x rest ps))"
  "run_reader s (Read_param_type p x rest ps) = run_reader s (read_step s (Read_param_type p x rest ps))"
  "run_reader s (Read_param_regex p x rest ps) = run_reader s (read_step s (Read_param_regex p x rest ps))"
  "run_reader s (Store_param p x rest ps) = run_reader s (read_step s (Store_param p x rest ps))"
  "run_reader s (Read_key p ps) = run_reader s (read_step s (Read_key p ps))"
  "run_reader s (Find_route p k ps) = run_reader s (read_step s (Find_route p k ps))"
  "run_reader s (Read_executor p h ps) = run_reader s (read_step s (Read_executor p h ps))"
  by (rule run_reader.simps(2), simp)+

declare run_reader.simps(2) [simp del]
declare run_reader_unfold(1) [simp del]

lemma node_at_child: "node_at p t = Some n \<Longrightarrow> node_at (p @ [k]) t = map_of (children n) k"
  by (simp add: node_at_append split: option.splits)

definition found_outcome :: "(size_t \<times> Route) list \<Rightarrow> handler_fn RouterNode option \<times> params \<Rightarrow> dispatch_outcome" where
  "found_outcome rs m =
     (case m of
        (None, ps) \<Rightarrow> Not_found
      | (Some n, ps) \<Rightarrow> (case map_of rs (key n) of None \<Rightarrow> Throws Out_of_range
                                             | Some r \<Rightarrow> Calls (handler n) (req_handler r) ps))"

lemma run_reader_param:
  assumes "null_child s = None" and "node_at p (router (disp s)) = Some n"
    and "\<And>c ps. map_of (children n) param_key = Some c \<Longrightarrow>
      run_reader s (Find_part (p @ [param_key]) rest ps) = found_outcome (routes (disp s)) (match_parts rest c ps)"
  shows "run_reader s (Find_param p part rest ps) = found_outcome (routes (disp s))
    (case map_of (children n) param_key of
       None \<Rightarrow> (None, ps)
     | Some c \<Rightarrow> if ntype c = kParameter then
           (if \<not> regex_match part (param_regex c) then (None, ps)
            else match_parts rest c (AList.update (param_name c) part ps))
         else (None, ps))"
  using assms
  by (auto simp: read_node_def has_entry_def node_at_child found_outcome_def split: option.splits)

lemma run_reader_match:
  assumes "null_child s = None" and "node_at p (router (disp s)) = Some n"
  shows "run_reader s (Find_part p parts ps) = found_outcome (routes (disp s)) (match_parts parts n ps)"
  using assms
proof (induction parts arbitrary: p n ps)
  case Nil
  then show ?case
    by (auto simp: run_reader_unfold(1) read_node_def found_outcome_def split: option.splits)
next
  case (Cons part rest)
  have sub: "run_reader s (Find_part (p @ [k]) rest ps') = found_outcome (routes (disp s)) (match_parts rest c ps')"
    if "map_of (children n) k = Some c" for k c ps'
    using Cons that by (simp add: node_at_child)
  note param = run_reader_param [OF Cons.prems sub, of part ps]
  show ?case
    using Cons.prems sub [of part]
    by (auto simp: run_reader_unfold(1) read_node_def has_entry_def node_at_child param Let_def
        simp del: run_reader_unfold(3) split: option.splits)
qed

text \<open>Run without interruption, the single reads of a request are \<open>__HandleImpl\<close>.\<close>

theorem request_refines:
  "perform api req (run_reader (shared_of g) (start_request (GetPath req))) = HandleImpl api g req"
proof -
  have "run_reader (shared_of g) (start_request (GetPath req)) = found_outcome (routes g)
      (match_parts (splits (CHR ''/'') (GetPath req)) (router g) [])"
    unfolding start_request_eq by (subst run_reader_match) simp_all
  then show ?thesis
    by (auto simp: HandleImpl_def MatchRoute_eq found_outcome_def split: prod.splits option.splits)
qed

section \<open>Every schedule ends\<close>

fun conf_work :: "conf \<Rightarrow> nat" where
  "conf_work (s, ws, r) = length ws + reads_left r"

lemma conc_step_work: "conc_step c c' \<Longrightarrow> conf_work c' < conf_work c"
  by (induction rule: conc_step.induct) (auto intro: read_step_decreases)

text \<open>However the steps of a request and of registrations interleave, there are at most as many as the
  registrations have writes and the path of the request allows reads, and until then some thread can
  always move: no schedule waits or loops, and a request takes at most six reads a segment and four more.\<close>

theorem schedules_end:
  assumes "(conc_step ^^ n) (s, ws, start_request path) (s', ws', r')"
  shows "n \<le> length ws + 6 * length (splits (CHR ''/'') path) + 4 \<and>
    ((\<nexists>c. conc_step (s', ws', r') c) \<longleftrightarrow> ws' = [] \<and> (\<exists>out. r' = Finished out))"
proof
  have *: "(conc_step ^^ n) c c' \<Longrightarrow> n + conf_work c' \<le> conf_work c" for c c'
    by (induction n arbitrary: c') (auto dest!: conc_step_work, fastforce)
  from * [OF assms] show "n \<le> length ws + 6 * length (splits (CHR ''/'') path) + 4"
    by (simp add: start_request_eq)
  have "\<exists>c. conc_step (s', ws', r') c" if "ws' \<noteq> []"
    using that by (cases ws') (auto intro: write_step)
  moreover have "\<exists>c. conc_step (s', ws', r') c" if "\<forall>out. r' \<noteq> Finished out"
    using request_step [OF that] by blast
  moreover have "\<not> conc_step (s', [], Finished out) c" for out c
    by (simp add: conc_step_Finished)
  ultimately show "(\<nexists>c. conc_step (s', ws', r') c) \<longleftrightarrow> ws' = [] \<and> (\<exists>out. r' = Finished out)"
    by metis
qed

theorem schedules_end_witness:
  "\<exists>c. (conc_step ^^ 1) (shared_of make_GlobalDispatcherHandler, [], start_request ''/a'') c \<and> fst (snd c) = [] \<and>
     (1::nat) \<le> length ([] :: node_write list) + 6 * length (splits (CHR ''/'') ''/a'') + 4"
proof -
  let ?s = "shared_of make_GlobalDispatcherHandler" and ?r = "start_request ''/a''"
  have "\<forall>out. ?r \<noteq> Finished out" by (simp add: start_request_eq)
  then have "(conc_step ^^ 1) (?s, [], ?r) (?s, [], read_step ?s ?r)"
    unfolding relpowp_1 by (rule request_step)
  with schedules_end [OF this] show ?thesis by fastforce
qed

text \<open>A schedule in which some writes come first, then the whole request, then the rest.\<close>

lemma writes_first: "conc_step\<^sup>*\<^sup>* (s, ws @ vs, r) (run_writes ws s, vs, r)"
proof (induction ws arbitrary: s)
  case (Cons w ws)
  have "conc_step (s, (w # ws) @ vs, r) (apply_write w s, ws @ vs, r)" by (simp add: write_step)
  with Cons show ?case by (simp add: converse_rtranclp_into_rtranclp)
qed simp

lemma reads_alone: "conc_step\<^sup>*\<^sup>* (s, ws, r) (s, ws, Finished (run_reader s r))"
proof (induction s r rule: run_reader.induct)
  case (2 r s)
  from 2(1) have "run_reader s r = run_reader s (read_step s r)" by (rule run_reader.simps(2))
  with 2 show ?case by (metis converse_rtranclp_into_rtranclp request_step)
qed simp

lemma request_between:
  "conc_step\<^sup>*\<^sup>* (s, ws @ vs, r) (run_writes ws s, vs, Finished (run_reader (run_writes ws s) r))"
  using writes_first reads_alone by (rule rtranclp_trans)

lemma register_writes_valid:
  "IsValidRoute path \<Longrightarrow> register_writes hasher (path, h) =
     add_writes (hasher path) (Some Dispatcher_fn) [] (splits (CHR ''/'') path) @
     [Emplace (hasher path) (make_Route (hasher path) path h)]"
  by (simp add: register_writes_def SplitString_cb_splits fold_push_cleaned cleaned_parts)

lemma register_writes_invalid: "\<not> IsValidRoute path \<Longrightarrow> register_writes hasher (path, h) = []"
  by (simp add: register_writes_def)

section \<open>What a request can run into\<close>

text \<open>C23. The mutexes do not protect requests: a request that the new route admits and that comes between
  \<open>AddRoute\<close> and the insertion into the second map finds the node, and \<open>at\<close> throws.\<close>

theorem half_registered_throws:
  assumes "null_child s = None" and "AddRoute (hasher path) path (Some Dispatcher_fn) (router (disp s)) = Inr root"
    and "MatchRoute request [] root = Inr (r, ps)" and "result_key r = Some (hasher path)"
    and "map_of (routes (disp s)) (hasher path) = None"
  shows "\<exists>s' ws. conc_step\<^sup>*\<^sup>* (s, writer_program hasher [(path, h)], start_request request)
    (s', ws, Finished (Throws Out_of_range))"
proof -
  let ?ws = "add_writes (hasher path) (Some Dispatcher_fn) [] (splits (CHR ''/'') path)"
  let ?s = "run_writes ?ws s"
  from AddRoute_Inr [OF assms(2)] have valid: "IsValidRoute path"
    and root: "root = add_parts (hasher path) (Some Dispatcher_fn) (splits (CHR ''/'') path) (router (disp s))" by auto
  have s': "?s = on_router (add_parts (hasher path) (Some Dispatcher_fn) (splits (CHR ''/'') path)) s"
    using add_writes_run [OF assms(1), of "[]"] by simp
  have "run_reader ?s (start_request request) =
      found_outcome (routes (disp ?s)) (match_parts (splits (CHR ''/'') request) root [])"
    unfolding start_request_eq by (rule run_reader_match) (simp_all add: s' assms(1) root)
  also have "\<dots> = Throws Out_of_range"
    using assms(3-5)
    by (auto simp: s' MatchRoute_eq found_outcome_def no_match_def node_match_def split: prod.splits option.splits)
  finally have "run_reader ?s (start_request request) = Throws Out_of_range" .
  moreover have "writer_program hasher [(path, h)] = ?ws @ [Emplace (hasher path) (make_Route (hasher path) path h)]"
    by (simp add: writer_program_def register_writes_valid [OF valid])
  ultimately show ?thesis using request_between [of s ?ws] by metis
qed

theorem half_registered_throws_witness:
  "\<exists>s' ws. conc_step\<^sup>*\<^sup>* (shared_of make_GlobalDispatcherHandler, writer_program (\<lambda>p. 5) [(''/a'', None)], start_request ''/a'')
     (s', ws, Finished (Throws Out_of_range))"
proof -
  have parts: "normalized_part [] = []" "normalized_part ''a'' = ''a''" "[] \<noteq> param_key" "''a'' \<noteq> param_key"
    by code_simp+
  have "IsValidRoute ''/a''" by code_simp
  then have add: "AddRoute 5 ''/a'' (Some Dispatcher_fn) (router (disp (shared_of make_GlobalDispatcherHandler))) =
      Inr (add_parts 5 (Some Dispatcher_fn) [[], ''a''] new_node)"
    by (simp add: AddRoute_eq make_GlobalDispatcherHandler_def)
  have match: "MatchRoute ''/a'' [] (add_parts 5 (Some Dispatcher_fn) [[], ''a''] new_node) =
      Inr (\<lparr>executor = Some (Some Dispatcher_fn), result_key = Some 5\<rparr>, [])"
    by (simp add: MatchRoute_eq node_match_def parts Let_def)
  show ?thesis
    by (rule half_registered_throws [where hasher = "\<lambda>p. 5", OF _ add match])
      (simp_all add: make_GlobalDispatcherHandler_def)
qed

text \<open>The first registration of all, for a route of one segment, write by write: what a request for it gets
  that comes after the first \<open>n\<close> writes. The null pointers are those that \<open>operator[]\<close> inserts.\<close>

theorem first_registration_outcomes:
  "map (\<lambda>n. run_reader (run_writes (take n (writer_program hasher [(''/a'', h)])) (shared_of make_GlobalDispatcherHandler))
      (start_request ''/a'')) [0..<10] =
    [Not_found, Throws (Undefined_read ''null RouterNode pointer''), Not_found, Not_found,
     Throws (Undefined_read ''null RouterNode pointer''), Throws Out_of_range, Throws Out_of_range,
     Throws Out_of_range, Throws Out_of_range, Calls (Some Dispatcher_fn) h []]"
proof -
  have parts: "normalized_part [] = []" "normalized_part ''a'' = ''a''" "[] \<noteq> param_key" "''a'' \<noteq> param_key"
    by code_simp+
  have "IsValidRoute ''/a''" by code_simp
  then have "writer_program hasher [(''/a'', h)] =
      [Insert_null [[]], Make_child [[]], Set_type [[]] kStatic, Insert_null [[], ''a''], Make_child [[], ''a''],
       Set_type [[], ''a''] kStatic, Set_key [[], ''a''] (hasher ''/a''), Set_handler [[], ''a''] (Some Dispatcher_fn),
       Emplace (hasher ''/a'') (make_Route (hasher ''/a'') ''/a'' h)]"
    by (simp add: writer_program_def register_writes_valid part_writes_def parts Let_def)
  then show ?thesis
    by (simp add: upt_rec numeral_eq_Suc start_request_eq shared_of_def make_GlobalDispatcherHandler_def
        run_reader_unfold(1) read_node_def has_entry_def insert_child_def parts emplace_def make_Route_def on_router_def)
qed

end
