(* ===== verification/Registration_Threads.thy ===== *)
theory Registration_Threads
  imports Concurrent_Spec
begin

text \<open>
  Any number of threads that register routes, and any number of requests at the same time.
  \<open>RegisterRouteHandler\<close> holds the mutex of the dispatcher
  (\<open>src/piconaut/handlers/global_dispatcher_handler.h\<close>) and, inside, \<open>AddRoute\<close> that of the router
  (\<open>src/piconaut/routers/router.cc\<close>), each in a \<open>lock_guard\<close>, which an exception releases too;
  \<open>__HandleImpl\<close> and \<open>MatchRoute\<close> lock nothing. The locks are what lets \<open>Router_Concurrent\<close> speak of one
  writer and one reader: here this is a theorem.
\<close>

section \<open>The threads\<close>

text \<open>The memory the threads share, with the holder of each mutex.\<close>

record locked =
  mem :: shared
  mutex :: "nat option"
  router_mutex :: "nat option"

text \<open>
  Where a thread is that makes the calls of a list: before the next call (and after the last), in
  \<open>RegisterRouteHandler\<close> with its mutex, in \<open>AddRoute\<close> with both and the writes that are left, or with
  the exception to throw, back from it, and at the end of the scope of the outer \<open>lock_guard\<close>.
\<close>

datatype registrar =
    Outside "(string \<times> handler_ptr) list"
  | Has_mutex "string \<times> handler_ptr" "(string \<times> handler_ptr) list"
  | In_AddRoute "string \<times> handler_ptr" "node_write list result" "(string \<times> handler_ptr) list"
  | After_AddRoute "string \<times> handler_ptr" "(string \<times> handler_ptr) list"
  | Leaving "(string \<times> handler_ptr) list"

text \<open>The body of \<open>AddRoute\<close>: its exception, or its writes in order.\<close>

definition AddRoute_writes :: "size_t \<Rightarrow> string \<Rightarrow> handler_fn option \<Rightarrow> node_write list result" where
  "AddRoute_writes k path h =
     (if \<not> IsValidRoute path then Inl (Invalid_argument (''Invalid route pattern: '' @ path))
      else bind_result (SplitString_cb path (CHR ''/'') push_cleaned [])
        (\<lambda>parts. Inr (add_writes k h [] (if parts = [] then [[]] else parts))))"

definition emplace_write :: "(string \<Rightarrow> size_t) \<Rightarrow> string \<times> handler_ptr \<Rightarrow> node_write" where
  "emplace_write hasher reg =
     Emplace (hasher (fst reg)) (make_Route (hasher (fst reg)) (fst reg) (snd reg))"

text \<open>
  The next step of the thread \<open>i\<close>; \<open>None\<close> when it has to wait for a mutex or has nothing left to do. A
  caller that survives an exception goes on with its next call.
\<close>

fun registrar_move :: "(string \<Rightarrow> size_t) \<Rightarrow> nat \<Rightarrow> registrar \<Rightarrow> locked \<Rightarrow> (registrar \<times> locked) option" where
  "registrar_move hasher i (Outside []) l = None"
| "registrar_move hasher i (Outside (reg # rest)) l =
     (if mutex l = None then Some (Has_mutex reg rest, l\<lparr>mutex := Some i\<rparr>) else None)"
| "registrar_move hasher i (Has_mutex reg rest) l =
     (if router_mutex l = None
      then Some (In_AddRoute reg (AddRoute_writes (hasher (fst reg)) (fst reg) (Some Dispatcher_fn)) rest,
        l\<lparr>router_mutex := Some i\<rparr>)
      else None)"
| "registrar_move hasher i (In_AddRoute reg (Inl e) rest) l = Some (Leaving rest, l\<lparr>router_mutex := None\<rparr>)"
| "registrar_move hasher i (In_AddRoute reg (Inr []) rest) l = Some (After_AddRoute reg rest, l\<lparr>router_mutex := None\<rparr>)"
| "registrar_move hasher i (In_AddRoute reg (Inr (w # ws)) rest) l =
     Some (In_AddRoute reg (Inr ws) rest, l\<lparr>mem := apply_write w (mem l)\<rparr>)"
| "registrar_move hasher i (After_AddRoute reg rest) l =
     Some (Leaving rest, l\<lparr>mem := apply_write (emplace_write hasher reg) (mem l)\<rparr>)"
| "registrar_move hasher i (Leaving rest) l = Some (Outside rest, l\<lparr>mutex := None\<rparr>)"

section \<open>All threads together\<close>

type_synonym server = "locked \<times> registrar list \<times> reader list"

inductive server_step :: "(string \<Rightarrow> size_t) \<Rightarrow> server \<Rightarrow> server \<Rightarrow> bool" for hasher where
  registrar_turn: "i < length rs \<Longrightarrow> registrar_move hasher i (rs ! i) l = Some (r, l') \<Longrightarrow>
     server_step hasher (l, rs, qs) (l', rs[i := r], qs)"
| request_turn: "j < length qs \<Longrightarrow> (\<forall>out. qs ! j \<noteq> Finished out) \<Longrightarrow>
     server_step hasher (l, rs, qs) (l, rs, qs[j := read_step (mem l) (qs ! j)])"

inductive_cases server_stepE: "server_step hasher (l, rs, qs) c"

text \<open>Each thread has its registrations before it, each request its path.\<close>

definition start_server ::
  "GlobalDispatcherHandler \<Rightarrow> (string \<times> handler_ptr) list list \<Rightarrow> string list \<Rightarrow> server" where
  "start_server g todo paths =
     (\<lparr>mem = shared_of g, mutex = None, router_mutex = None\<rparr>, map Outside todo, map start_request paths)"

section \<open>The invariant\<close>

text \<open>The calls a thread has not begun, and the writes of the call it has begun that are to come.\<close>

primrec to_come :: "registrar \<Rightarrow> (string \<times> handler_ptr) list" where
  "to_come (Outside regs) = regs"
| "to_come (Has_mutex reg rest) = rest"
| "to_come (In_AddRoute reg ws rest) = rest"
| "to_come (After_AddRoute reg rest) = rest"
| "to_come (Leaving rest) = rest"

primrec writes_left :: "(string \<Rightarrow> size_t) \<Rightarrow> registrar \<Rightarrow> node_write list" where
  "writes_left hasher (Outside regs) = []"
| "writes_left hasher (Has_mutex reg rest) = register_writes hasher reg"
| "writes_left hasher (In_AddRoute reg ws rest) =
     (case ws of Inl e \<Rightarrow> [] | Inr vs \<Rightarrow> vs @ [emplace_write hasher reg])"
| "writes_left hasher (After_AddRoute reg rest) = [emplace_write hasher reg]"
| "writes_left hasher (Leaving rest) = []"

primrec holds_mutex :: "registrar \<Rightarrow> bool" where
  "holds_mutex (Outside regs) = False"
| "holds_mutex (Has_mutex reg rest) = True"
| "holds_mutex (In_AddRoute reg ws rest) = True"
| "holds_mutex (After_AddRoute reg rest) = True"
| "holds_mutex (Leaving rest) = True"

primrec holds_router_mutex :: "registrar \<Rightarrow> bool" where
  "holds_router_mutex (Outside regs) = False"
| "holds_router_mutex (Has_mutex reg rest) = False"
| "holds_router_mutex (In_AddRoute reg ws rest) = True"
| "holds_router_mutex (After_AddRoute reg rest) = False"
| "holds_router_mutex (Leaving rest) = False"

text \<open>Each mutex is held by the thread that is in its scope.\<close>

definition locks_ok :: "locked \<Rightarrow> registrar list \<Rightarrow> bool" where
  "locks_ok l rs =
     ((\<forall>i < length rs. (mutex l = Some i) = holds_mutex (rs ! i)) \<and>
      (\<forall>i < length rs. (router_mutex l = Some i) = holds_router_mutex (rs ! i)) \<and>
      (\<forall>i. mutex l = Some i \<longrightarrow> i < length rs) \<and> (\<forall>i. router_mutex l = Some i \<longrightarrow> i < length rs))"

text \<open>The writes that are pending: those of the thread that holds the mutex.\<close>

definition pending :: "(string \<Rightarrow> size_t) \<Rightarrow> locked \<Rightarrow> registrar list \<Rightarrow> node_write list" where
  "pending hasher l rs = (case mutex l of None \<Rightarrow> [] | Some i \<Rightarrow> writes_left hasher (rs ! i))"

lemma locks_ok_holder:
  "locks_ok l rs \<Longrightarrow> i < length rs \<Longrightarrow> holds_mutex (rs ! i) \<Longrightarrow> mutex l = Some i"
  "locks_ok l rs \<Longrightarrow> i < length rs \<Longrightarrow> holds_router_mutex (rs ! i) \<Longrightarrow> router_mutex l = Some i"
  unfolding locks_ok_def by blast+

lemma holds_both: "holds_router_mutex r \<Longrightarrow> holds_mutex r"
  by (cases r) simp_all

lemma register_writes_AddRoute:
  "register_writes hasher reg =
     (case AddRoute_writes (hasher (fst reg)) (fst reg) (Some Dispatcher_fn) of
        Inl e \<Rightarrow> [] | Inr ws \<Rightarrow> ws @ [emplace_write hasher reg])"
proof (cases reg)
  case (Pair path h)
  show ?thesis unfolding Pair
    by (cases "IsValidRoute path"; cases "SplitString_cb path (CHR ''/'') push_cleaned []")
      (simp_all add: register_writes_def AddRoute_writes_def emplace_write_def)
qed

section \<open>Steps of one thread\<close>

lemma owner_update:
  assumes "\<forall>j < n. (m = Some j) = P j" and "\<forall>j. m = Some j \<longrightarrow> j < n" and "i < n"
    and "m' = m \<and> Q = P i \<or> m = None \<and> m' = Some i \<and> Q \<or> m' = None \<and> P i \<and> \<not> Q"
  shows "(\<forall>j < n. (m' = Some j) = (if j = i then Q else P j)) \<and> (\<forall>j. m' = Some j \<longrightarrow> j < n)"
  using assms by (metis option.distinct(1) option.inject)

lemma locks_ok_move:
  assumes "locks_ok l rs" and "i < length rs" and "registrar_move hasher i (rs ! i) l = Some (r, l')"
  shows "locks_ok l' (rs[i := r])"
proof -
  have outer: "mutex l' = mutex l \<and> holds_mutex r = holds_mutex (rs ! i) \<or>
      mutex l = None \<and> mutex l' = Some i \<and> holds_mutex r \<or>
      mutex l' = None \<and> holds_mutex (rs ! i) \<and> \<not> holds_mutex r"
    and inner: "router_mutex l' = router_mutex l \<and> holds_router_mutex r = holds_router_mutex (rs ! i) \<or>
      router_mutex l = None \<and> router_mutex l' = Some i \<and> holds_router_mutex r \<or>
      router_mutex l' = None \<and> holds_router_mutex (rs ! i) \<and> \<not> holds_router_mutex r"
    using assms(3) by (cases "(hasher, i, rs ! i, l)" rule: registrar_move.cases; auto split: if_splits)+
  have upd: "(if j = i then f r else f (rs ! j)) = f (rs[i := r] ! j)" for f :: "registrar \<Rightarrow> bool" and j
    using assms(2) by (cases "j = i") simp_all
  note ok = assms(1) [unfolded locks_ok_def]
  from ok have "\<forall>j < length rs. (mutex l = Some j) = holds_mutex (rs ! j)" "\<forall>j. mutex l = Some j \<longrightarrow> j < length rs"
    by blast+
  note o = owner_update [OF this assms(2) outer, unfolded upd]
  from ok have "\<forall>j < length rs. (router_mutex l = Some j) = holds_router_mutex (rs ! j)"
    "\<forall>j. router_mutex l = Some j \<longrightarrow> j < length rs" by blast+
  note i = owner_update [OF this assms(2) inner, unfolded upd]
  from o i show ?thesis unfolding locks_ok_def length_list_update by blast
qed

text \<open>A step begins a call, performs its next write, or changes neither the memory nor what is pending.\<close>

lemma move_effect:
  assumes "locks_ok l rs" and "i < length rs" and "registrar_move hasher i (rs ! i) l = Some (r, l')"
  obtains (starts) reg where "pending hasher l rs = []" "mem l' = mem l" "to_come (rs ! i) = reg # to_come r"
      "pending hasher l' (rs[i := r]) = register_writes hasher reg"
    | (silent) "mem l' = mem l" "pending hasher l' (rs[i := r]) = pending hasher l rs" "to_come r = to_come (rs ! i)"
    | (performs) w where "pending hasher l rs = w # pending hasher l' (rs[i := r])" "mem l' = apply_write w (mem l)"
      "to_come r = to_come (rs ! i)"
proof -
  have m: "holds_mutex (rs ! i) \<Longrightarrow> mutex l = Some i" using assms(1,2) unfolding locks_ok_def by blast
  note [simp] = pending_def register_writes_AddRoute assms(2)
  show thesis
  proof (cases "rs ! i")
    case (Outside regs)
    with assms(3) starts show ?thesis by (cases regs) (auto split: if_splits)
  next
    case (Has_mutex reg rest)
    with assms(3) m silent show ?thesis by (auto split: if_splits)
  next
    case (In_AddRoute reg ws rest)
    show ?thesis
    proof (cases ws)
      case (Inl e)
      with In_AddRoute assms(3) m silent show ?thesis by auto
    next
      case (Inr vs)
      with In_AddRoute assms(3) m silent performs show ?thesis by (cases vs) auto
    qed
  next
    case (After_AddRoute reg rest)
    with assms(3) m performs show ?thesis by auto
  next
    case (Leaving rest)
    with assms(3) m silent show ?thesis by auto
  qed
qed

section \<open>One order for all\<close>

lemma conc_steps_more_writes:
  assumes "conc_step\<^sup>*\<^sup>* (s0, ws0, r0) (s, ws, r)"
  shows "conc_step\<^sup>*\<^sup>* (s0, ws0 @ vs, r0) (s, ws @ vs, r)"
  using assms
proof (induction "(s, ws, r)" arbitrary: s ws r rule: rtranclp_induct)
  case (step c)
  obtain s1 ws1 r1 where c: "c = (s1, ws1, r1)" by (cases c)
  have "conc_step (s1, ws1 @ vs, r1) (s, ws @ vs, r)"
    using step(2) unfolding c by (elim conc_stepE) (auto intro: conc_step.intros)
  with step(3) [OF c] show ?case by (rule rtranclp.rtrancl_into_rtrancl)
qed simp

text \<open>
  The memory and every request are where the single writer of \<open>Router_Concurrent\<close> brings them that runs
  the registrations in the order in which their threads have got the mutex.
\<close>

definition serialized ::
  "(string \<Rightarrow> size_t) \<Rightarrow> GlobalDispatcherHandler \<Rightarrow> string list \<Rightarrow> (nat \<times> string \<times> handler_ptr) list \<Rightarrow> server \<Rightarrow> bool" where
  "serialized hasher g paths order c =
     (case c of (l, rs, qs) \<Rightarrow>
        length qs = length paths \<and>
        run_writes (pending hasher l rs) (mem l) = run_writes (writer_program hasher (map snd order)) (shared_of g) \<and>
        (\<forall>j < length paths. conc_step\<^sup>*\<^sup>* (shared_of g, writer_program hasher (map snd order), start_request (paths ! j))
           (mem l, pending hasher l rs, qs ! j)))"

text \<open>The order has the calls of each thread in the order of its own list.\<close>

definition merges :: "(nat \<times> 'a) list \<Rightarrow> 'a list list \<Rightarrow> bool" where
  "merges order xss =
     ((\<forall>e \<in> set order. fst e < length xss) \<and>
      (\<forall>i < length xss. map snd (filter (\<lambda>e. fst e = i) order) = xss ! i))"

definition server_ok ::
  "(string \<Rightarrow> size_t) \<Rightarrow> GlobalDispatcherHandler \<Rightarrow> (string \<times> handler_ptr) list list \<Rightarrow> string list \<Rightarrow> server \<Rightarrow> bool" where
  "server_ok hasher g todo paths c =
     (\<exists>order begun. serialized hasher g paths order c \<and> locks_ok (fst c) (fst (snd c)) \<and> merges order begun \<and>
        length begun = length todo \<and> length (fst (snd c)) = length todo \<and>
        (\<forall>i < length todo. todo ! i = begun ! i @ to_come (fst (snd c) ! i)))"

lemma writer_program_snoc:
  "writer_program hasher (regs @ [reg]) = writer_program hasher regs @ register_writes hasher reg"
  by (simp add: writer_program_def)

lemma run_writes_append: "run_writes (ws @ vs) s = run_writes vs (run_writes ws s)"
  by (simp add: run_writes_def)

lemma merges_snoc:
  "merges order begun \<Longrightarrow> i < length begun \<Longrightarrow> merges (order @ [(i, x)]) (begun[i := begun ! i @ [x]])"
  by (auto simp: merges_def nth_list_update)

lemma serialized_begin:
  assumes "serialized hasher g paths order (l, rs, qs)" and "pending hasher l rs = []" and "mem l' = mem l"
    and "pending hasher l' rs' = register_writes hasher reg"
  shows "serialized hasher g paths (order @ [(i, reg)]) (l', rs', qs)"
  using assms conc_steps_more_writes
  by (auto simp: serialized_def writer_program_snoc run_writes_append run_writes_def) (metis append_Nil)

lemma serialized_write:
  assumes "serialized hasher g paths order (l, rs, qs)" and "pending hasher l rs = w # pending hasher l' rs'"
    and "mem l' = apply_write w (mem l)"
  shows "serialized hasher g paths order (l', rs', qs)"
  using assms by (auto simp: serialized_def run_writes_def intro: rtranclp.rtrancl_into_rtrancl write_step)

lemma serialized_read:
  assumes "serialized hasher g paths order (l, rs, qs)" and "\<forall>out. qs ! j \<noteq> Finished out"
  shows "serialized hasher g paths order (l, rs, qs[j := read_step (mem l) (qs ! j)])"
proof -
  have "conc_step\<^sup>*\<^sup>* c (mem l, ws, qs[j := read_step (mem l) (qs ! j)] ! k)"
    if "conc_step\<^sup>*\<^sup>* c (mem l, ws, qs ! k)" and "k < length qs" for c ws k
    using that request_step [OF assms(2), of "mem l" ws] by (cases "k = j") (auto intro: rtranclp.rtrancl_into_rtrancl)
  with assms(1) show ?thesis by (simp add: serialized_def)
qed

lemma server_ok_start: "server_ok hasher g todo paths (start_server g todo paths)"
proof -
  have "serialized hasher g paths [] (start_server g todo paths)"
    by (simp add: serialized_def start_server_def pending_def writer_program_def run_writes_def)
  moreover have "merges [] (map (\<lambda>_. []) todo)" by (simp add: merges_def)
  moreover have "locks_ok (fst (start_server g todo paths)) (fst (snd (start_server g todo paths)))"
    by (simp add: locks_ok_def start_server_def)
  ultimately show ?thesis
    unfolding server_ok_def by (intro exI [of _ "[]"] exI [of _ "map (\<lambda>_. []) todo"]) (simp add: start_server_def)
qed

lemma server_ok_move:
  assumes "server_ok hasher g todo paths (l, rs, qs)" and "i < length rs"
    and "registrar_move hasher i (rs ! i) l = Some (r, l')"
  shows "server_ok hasher g todo paths (l', rs[i := r], qs)"
proof -
  from assms(1) obtain order begun where ok: "serialized hasher g paths order (l, rs, qs)" "locks_ok l rs"
    "merges order begun" "length begun = length todo" "length rs = length todo"
    "\<forall>i < length todo. todo ! i = begun ! i @ to_come (rs ! i)"
    by (auto simp: server_ok_def)
  have locks: "locks_ok l' (rs[i := r])" by (rule locks_ok_move [OF ok(2) assms(2,3)])
  have same: "\<forall>k < length todo. todo ! k = begun ! k @ to_come (rs[i := r] ! k)" if t: "to_come r = to_come (rs ! i)"
  proof (intro allI impI)
    fix k assume "k < length todo"
    with ok(5,6) t show "todo ! k = begun ! k @ to_come (rs[i := r] ! k)" by (cases "k = i") simp_all
  qed
  from ok(2) assms(2,3) show ?thesis
  proof (cases rule: move_effect)
    case (starts reg)
    let ?order = "order @ [(i, reg)]" and ?begun = "begun[i := begun ! i @ [reg]]"
    have "serialized hasher g paths ?order (l', rs[i := r], qs)"
      by (rule serialized_begin [OF ok(1) starts(1,2,4)])
    moreover have "merges ?order ?begun" using merges_snoc [OF ok(3)] ok(4,5) assms(2) by simp
    moreover have "\<forall>k < length todo. todo ! k = ?begun ! k @ to_come (rs[i := r] ! k)"
    proof (intro allI impI)
      fix k assume "k < length todo"
      with ok(4-6) starts(3) show "todo ! k = ?begun ! k @ to_come (rs[i := r] ! k)" by (cases "k = i") simp_all
    qed
    ultimately show ?thesis using locks ok(4,5) unfolding server_ok_def by fastforce
  next
    case silent
    with ok(1) have "serialized hasher g paths order (l', rs[i := r], qs)" by (simp add: serialized_def)
    moreover note same [OF silent(3)]
    ultimately show ?thesis using locks ok(3-5) unfolding server_ok_def by fastforce
  next
    case (performs w)
    have "serialized hasher g paths order (l', rs[i := r], qs)"
      by (rule serialized_write [OF ok(1) performs(1,2)])
    moreover note same [OF performs(3)]
    ultimately show ?thesis using locks ok(3-5) unfolding server_ok_def by fastforce
  qed
qed

lemma server_ok_step:
  assumes "server_ok hasher g todo paths c" and "server_step hasher c c'"
  shows "server_ok hasher g todo paths c'"
proof -
  obtain l rs qs where c: "c = (l, rs, qs)" by (cases c)
  from assms(2) show ?thesis
    unfolding c
  proof (elim server_stepE)
    fix i r l'
    assume "c' = (l', rs[i := r], qs)" "i < length rs" "registrar_move hasher i (rs ! i) l = Some (r, l')"
    with assms(1) show ?thesis by (simp add: c server_ok_move)
  next
    fix j
    assume "\<forall>out. qs ! j \<noteq> Finished out" "c' = (l, rs, qs[j := read_step (mem l) (qs ! j)])"
    with assms(1) show ?thesis
      using serialized_read [of hasher g paths _ l rs qs j] by (fastforce simp: c server_ok_def)
  qed
qed

lemma server_ok_reachable:
  "(server_step hasher)\<^sup>*\<^sup>* (start_server g todo paths) c \<Longrightarrow> server_ok hasher g todo paths c"
  by (induction rule: rtranclp_induct) (auto intro: server_ok_start server_ok_step)

section \<open>Steps that are left\<close>

definition call_steps :: "(string \<Rightarrow> size_t) \<Rightarrow> string \<times> handler_ptr \<Rightarrow> nat" where
  "call_steps hasher reg = length (register_writes hasher reg) + 4"

definition calls_steps :: "(string \<Rightarrow> size_t) \<Rightarrow> (string \<times> handler_ptr) list \<Rightarrow> nat" where
  "calls_steps hasher regs = sum_list (map (call_steps hasher) regs)"

primrec thread_work :: "(string \<Rightarrow> size_t) \<Rightarrow> registrar \<Rightarrow> nat" where
  "thread_work hasher (Outside regs) = calls_steps hasher regs"
| "thread_work hasher (Has_mutex reg rest) = length (register_writes hasher reg) + 3 + calls_steps hasher rest"
| "thread_work hasher (In_AddRoute reg ws rest) =
     (case ws of Inl e \<Rightarrow> 2 | Inr vs \<Rightarrow> length vs + 3) + calls_steps hasher rest"
| "thread_work hasher (After_AddRoute reg rest) = 2 + calls_steps hasher rest"
| "thread_work hasher (Leaving rest) = 1 + calls_steps hasher rest"

definition server_work :: "(string \<Rightarrow> size_t) \<Rightarrow> server \<Rightarrow> nat" where
  "server_work hasher c =
     sum_list (map (thread_work hasher) (fst (snd c))) + sum_list (map reads_left (snd (snd c)))"

lemma move_work: "registrar_move hasher i r l = Some (r', l') \<Longrightarrow> thread_work hasher r = Suc (thread_work hasher r')"
  by (cases "(hasher, i, r, l)" rule: registrar_move.cases)
    (auto simp: calls_steps_def call_steps_def register_writes_AddRoute split: if_splits sum.splits)

lemma sum_list_update_less:
  "i < length xs \<Longrightarrow> f x < (f (xs ! i) :: nat) \<Longrightarrow> sum_list (map f (xs[i := x])) < sum_list (map f xs)"
  by (induction xs arbitrary: i) (auto simp: nth_Cons' split: nat.splits)

lemma server_step_work: "server_step hasher c c' \<Longrightarrow> server_work hasher c' < server_work hasher c"
  by (induction rule: server_step.induct)
    (auto simp: server_work_def dest!: move_work intro!: sum_list_update_less read_step_decreases)

lemma server_steps_work: "(server_step hasher ^^ n) c c' \<Longrightarrow> n + server_work hasher c' \<le> server_work hasher c"
  by (induction n arbitrary: c') (auto dest!: server_step_work, fastforce)

text \<open>Who holds a mutex can go on, so nobody waits for ever.\<close>

lemma holder_moves:
  assumes "locks_ok l rs" and "mutex l = Some i"
  shows "\<exists>r l'. registrar_move hasher i (rs ! i) l = Some (r, l')"
proof -
  have i: "i < length rs" "holds_mutex (rs ! i)" using assms unfolding locks_ok_def by blast+
  show ?thesis
  proof (cases "rs ! i")
    case (Has_mutex reg rest)
    have "router_mutex l = None"
    proof (rule ccontr)
      assume "router_mutex l \<noteq> None"
      then obtain k where k: "router_mutex l = Some k" by blast
      with assms(1) have "k < length rs" "holds_router_mutex (rs ! k)" unfolding locks_ok_def by blast+
      moreover from this have "mutex l = Some k" using locks_ok_holder(1) [OF assms(1)] holds_both by blast
      ultimately show False using assms(2) Has_mutex by simp
    qed
    with Has_mutex show ?thesis by simp
  next
    case (In_AddRoute reg ws rest)
    then show ?thesis
    proof (cases ws)
      case (Inr vs)
      with In_AddRoute show ?thesis by (cases vs) simp_all
    qed simp
  qed (use i in simp_all)
qed

lemma server_progress:
  assumes "locks_ok l rs" and "\<not> (set rs \<subseteq> {Outside []} \<and> (\<forall>q \<in> set qs. \<exists>out. q = Finished out))"
  shows "\<exists>c. server_step hasher (l, rs, qs) c"
proof (cases "\<forall>q \<in> set qs. \<exists>out. q = Finished out")
  case False
  then obtain j where "j < length qs" "\<forall>out. qs ! j \<noteq> Finished out" by (metis in_set_conv_nth)
  then show ?thesis using request_turn by blast
next
  case True
  with assms(2) obtain i where i: "i < length rs" "rs ! i \<noteq> Outside []" by (auto simp: in_set_conv_nth subset_iff)
  show ?thesis
  proof (cases "mutex l")
    case None
    with i assms(1) have "\<not> holds_mutex (rs ! i)" unfolding locks_ok_def by fastforce
    with i(2) obtain reg rest where "rs ! i = Outside (reg # rest)"
      by (cases "rs ! i") (auto simp: neq_Nil_conv)
    with None i(1) show ?thesis using registrar_turn [of i rs hasher l] by fastforce
  next
    case (Some k)
    with assms(1) have "k < length rs" unfolding locks_ok_def by blast
    with holder_moves [OF assms(1) Some, of hasher] show ?thesis using registrar_turn by blast
  qed
qed

text \<open>Every state can be run to the end.\<close>

lemma server_stops:
  assumes "server_ok hasher g todo paths c"
  shows "\<exists>l rs qs. (server_step hasher)\<^sup>*\<^sup>* c (l, rs, qs) \<and> set rs \<subseteq> {Outside []} \<and> (\<forall>q \<in> set qs. \<exists>out. q = Finished out)"
  using assms
proof (induction "server_work hasher c" arbitrary: c rule: less_induct)
  case less
  obtain l rs qs where c: "c = (l, rs, qs)" by (cases c)
  show ?case
  proof (cases "set rs \<subseteq> {Outside []} \<and> (\<forall>q \<in> set qs. \<exists>out. q = Finished out)")
    case False
    have "locks_ok l rs" using less.prems c by (auto simp: server_ok_def)
    from server_progress [OF this False] obtain c' where c': "server_step hasher c c'" unfolding c by blast
    then have "server_ok hasher g todo paths c'" by (rule server_ok_step [OF less.prems])
    from less.hyps [OF server_step_work [OF c'] this] c' show ?thesis
      by (meson converse_rtranclp_into_rtranclp)
  qed (use c in blast)
qed

lemma server_finishes:
  obtains l rs qs where "(server_step hasher)\<^sup>*\<^sup>* (start_server g todo paths) (l, rs, qs)"
    "set rs \<subseteq> {Outside []}" "\<forall>j < length paths. \<exists>out. qs ! j = Finished out"
proof -
  from server_stops [OF server_ok_start] obtain l rs qs where f:
    "(server_step hasher)\<^sup>*\<^sup>* (start_server g todo paths) (l, rs, qs)" "set rs \<subseteq> {Outside []}"
    "\<forall>q \<in> set qs. \<exists>out. q = Finished out" by metis
  from server_ok_reachable [OF f(1)] have "length qs = length paths" by (auto simp: server_ok_def serialized_def)
  with f that show thesis by (metis nth_mem)
qed

section \<open>Properties\<close>

text \<open>C7. Registrations from any number of threads are serialised: in every state that threads and requests can
  reach together there is one order of the calls begun so far, in which each thread's calls stand as it
  makes them, such that the memory and every single request are where one writer that makes the calls in
  this order brings them together with that request alone; and no two threads are ever inside
  \<open>RegisterRouteHandler\<close>.\<close>

theorem registrations_serialize:
  assumes "(server_step hasher)\<^sup>*\<^sup>* (start_server g todo paths) (l, rs, qs)"
  shows "(\<exists>order begun ws. merges order begun \<and> length begun = length todo \<and>
      (\<forall>i < length todo. todo ! i = begun ! i @ to_come (rs ! i)) \<and>
      (\<forall>j < length paths. conc_step\<^sup>*\<^sup>*
         (shared_of g, writer_program hasher (map snd order), start_request (paths ! j)) (mem l, ws, qs ! j))) \<and>
    (\<forall>i < length rs. \<forall>j < length rs. holds_mutex (rs ! i) \<and> holds_mutex (rs ! j) \<longrightarrow> i = j)"
proof -
  from server_ok_reachable [OF assms] obtain order begun where ok: "serialized hasher g paths order (l, rs, qs)"
    "locks_ok l rs" "merges order begun" "length begun = length todo"
    "\<forall>i < length todo. todo ! i = begun ! i @ to_come (rs ! i)"
    by (auto simp: server_ok_def)
  have "i = j" if "i < length rs" "j < length rs" "holds_mutex (rs ! i)" "holds_mutex (rs ! j)" for i j
    using locks_ok_holder(1) [OF ok(2) that(1,3)] locks_ok_holder(1) [OF ok(2) that(2,4)] by simp
  with ok show ?thesis unfolding serialized_def by blast
qed

text \<open>A registration whose exception the caller survives.\<close>

definition register_try ::
  "(string \<Rightarrow> size_t) \<Rightarrow> string \<times> handler_ptr \<Rightarrow> GlobalDispatcherHandler \<Rightarrow> GlobalDispatcherHandler" where
  "register_try hasher reg g = (case RegisterRouteHandler hasher (fst reg) (snd reg) g of Inl e \<Rightarrow> g | Inr g' \<Rightarrow> g')"

lemma run_register_try:
  "run_writes (register_writes hasher reg) (shared_of g) = shared_of (register_try hasher reg g)"
  using run_register_writes [of "shared_of g" hasher "fst reg" "snd reg"]
  by (simp add: register_try_def shared_of_def split: sum.splits)

lemma writer_program_try:
  "run_writes (writer_program hasher regs) (shared_of g) = shared_of (fold (register_try hasher) regs g)"
proof (induction regs rule: rev_induct)
  case (snoc reg regs)
  then show ?case by (simp add: writer_program_snoc run_writes_append run_register_try)
qed (simp add: writer_program_def run_writes_def)

text \<open>C14. When all threads have made their calls, the dispatcher is the one that the same calls leave when they
  are made one after the other, in some order that keeps the order of each thread.\<close>

theorem threads_leave_sequential_result:
  assumes "(server_step hasher)\<^sup>*\<^sup>* (start_server g todo paths) (l, rs, qs)" and "set rs \<subseteq> {Outside []}"
  shows "\<exists>order. merges order todo \<and> mem l = shared_of (fold (register_try hasher) (map snd order) g)"
proof -
  from server_ok_reachable [OF assms(1)] obtain order begun where ok: "serialized hasher g paths order (l, rs, qs)"
    "locks_ok l rs" "merges order begun" "length begun = length todo" "length rs = length todo"
    "\<forall>i < length todo. todo ! i = begun ! i @ to_come (rs ! i)"
    by (auto simp: server_ok_def)
  have out: "rs ! i = Outside []" if "i < length rs" for i using assms(2) that by (auto dest: nth_mem)
  with ok(4-6) have "begun = todo" by (simp add: nth_equalityI)
  moreover have "mutex l = None"
  proof (rule ccontr)
    assume "mutex l \<noteq> None"
    then obtain i where "mutex l = Some i" by blast
    with ok(2) have "i < length rs" "holds_mutex (rs ! i)" unfolding locks_ok_def by blast+
    with out show False by simp
  qed
  ultimately show ?thesis
    using ok(1,3) by (auto simp: serialized_def pending_def run_writes_def writer_program_try [unfolded run_writes_def])
qed

text \<open>C13. No deadlock and no livelock: however threads and requests take turns, the steps are at most those of
  the calls, four more than its writes each, and of the reads of the requests; and as long as a call or a
  request is not finished, somebody can move, because the holder of a mutex never waits.\<close>

theorem server_steps_end:
  assumes "(server_step hasher ^^ n) (start_server g todo paths) (l, rs, qs)"
  shows "n \<le> sum_list (map (calls_steps hasher) todo) +
      sum_list (map (\<lambda>path. 6 * length (splits (CHR ''/'') path) + 4) paths) \<and>
    ((\<nexists>c. server_step hasher (l, rs, qs) c) \<longleftrightarrow>
       set rs \<subseteq> {Outside []} \<and> (\<forall>q \<in> set qs. \<exists>out. q = Finished out))"
proof
  have "server_work hasher (start_server g todo paths) = sum_list (map (calls_steps hasher) todo) +
      sum_list (map (\<lambda>path. 6 * length (splits (CHR ''/'') path) + 4) paths)"
    by (simp add: server_work_def start_server_def comp_def start_request_eq)
  with server_steps_work [OF assms] show "n \<le> sum_list (map (calls_steps hasher) todo) +
      sum_list (map (\<lambda>path. 6 * length (splits (CHR ''/'') path) + 4) paths)" by simp
  have "locks_ok l rs"
    using server_ok_reachable [OF relpowp_imp_rtranclp [OF assms]] by (auto simp: server_ok_def)
  moreover have False if "set rs \<subseteq> {Outside []}" "\<forall>q \<in> set qs. \<exists>out. q = Finished out" "server_step hasher (l, rs, qs) c" for c
    using that(3)
  proof (elim server_stepE)
    fix i r l'
    assume i: "i < length rs" "registrar_move hasher i (rs ! i) l = Some (r, l')"
    from i(1) that(1) have "rs ! i = Outside []" by (meson nth_mem singletonD subsetD)
    with i(2) show False by simp
  next
    fix j
    assume "j < length qs" "\<forall>out. qs ! j \<noteq> Finished out"
    with that(2) show False by (meson nth_mem)
  qed
  ultimately show "(\<nexists>c. server_step hasher (l, rs, qs) c) \<longleftrightarrow>
       set rs \<subseteq> {Outside []} \<and> (\<forall>q \<in> set qs. \<exists>out. q = Finished out)"
    using server_progress by blast
qed

section \<open>Concrete runs\<close>

text \<open>Two threads and a request beside a dispatcher that has one route.\<close>

definition length_hash :: "string \<Rightarrow> size_t" where
  "length_hash p = word_of_nat (length p)"

definition two_threads :: "(string \<times> handler_ptr) list list" where
  "two_threads = [[(''/a/b'', None)], [(''/{xy}'', None)]]"

lemma served_dispatcher:
  obtains g where "register_all length_hash [(''/a'', Some (\<lambda>ps r. Inr (Status 201 r)))] = Inr g"
proof -
  have "IsValidRoute ''/a''" by code_simp
  with register_all_valid [of "[(''/a'', Some (\<lambda>ps r. Inr (Status 201 r)))]" length_hash] show thesis
    using that by auto
qed

theorem registrations_serialize_witness:
  "\<exists>l rs qs. (server_step length_hash)\<^sup>*\<^sup>* (start_server make_GlobalDispatcherHandler two_threads [''/a'']) (l, rs, qs) \<and>
     mutex l = Some 1 \<and>
     (\<exists>order begun ws. merges order begun \<and> length begun = length two_threads \<and>
       (\<forall>i < length two_threads. two_threads ! i = begun ! i @ to_come (rs ! i)) \<and>
       (\<forall>j < length [''/a'']. conc_step\<^sup>*\<^sup>*
         (shared_of make_GlobalDispatcherHandler, writer_program length_hash (map snd order), start_request ([''/a''] ! j))
           (mem l, ws, qs ! j)))"
proof -
  let ?c = "start_server make_GlobalDispatcherHandler two_threads [''/a'']"
  let ?l = "\<lparr>mem = shared_of make_GlobalDispatcherHandler, mutex = Some 1, router_mutex = None\<rparr>"
  have "server_step length_hash ?c (?l, (map Outside two_threads)[1 := Has_mutex (''/{xy}'', None) []], map start_request [''/a''])"
    unfolding start_server_def by (rule registrar_turn) (simp_all add: two_threads_def)
  then have "(server_step length_hash)\<^sup>*\<^sup>* ?c
      (?l, (map Outside two_threads)[1 := Has_mutex (''/{xy}'', None) []], map start_request [''/a''])" by blast
  with registrations_serialize [OF this] show ?thesis by fastforce
qed

theorem threads_leave_sequential_result_witness:
  "\<exists>l rs qs. (server_step length_hash)\<^sup>*\<^sup>* (start_server make_GlobalDispatcherHandler two_threads []) (l, rs, qs) \<and>
     (\<exists>order. merges order two_threads \<and>
        mem l = shared_of (fold (register_try length_hash) (map snd order) make_GlobalDispatcherHandler))"
proof -
  obtain l rs qs where f: "(server_step length_hash)\<^sup>*\<^sup>* (start_server make_GlobalDispatcherHandler two_threads []) (l, rs, qs)"
    "set rs \<subseteq> {Outside []}" by (rule server_finishes)
  from threads_leave_sequential_result [OF this] f(1) show ?thesis by blast
qed

theorem server_steps_end_witness:
  "\<exists>l rs qs. (server_step length_hash ^^ 1) (start_server make_GlobalDispatcherHandler two_threads []) (l, rs, qs) \<and>
     (1::nat) \<le> sum_list (map (calls_steps length_hash) two_threads) +
       sum_list (map (\<lambda>path. 6 * length (splits (CHR ''/'') path) + 4) [])"
proof -
  let ?c = "start_server make_GlobalDispatcherHandler two_threads []"
  let ?l = "\<lparr>mem = shared_of make_GlobalDispatcherHandler, mutex = Some 0, router_mutex = None\<rparr>"
  have "server_step length_hash ?c (?l, (map Outside two_threads)[0 := Has_mutex (''/a/b'', None) []], map start_request [])"
    unfolding start_server_def by (rule registrar_turn) (simp_all add: two_threads_def)
  then have "(server_step length_hash ^^ 1) ?c
      (?l, (map Outside two_threads)[0 := Has_mutex (''/a/b'', None) []], map start_request [])"
    unfolding relpowp_1 .
  with server_steps_end [OF this] show ?thesis by blast
qed

end
