(* ===== verification/Data_Races.thy ===== *)
theory Data_Races
  imports Registration_Threads
begin

text \<open>
  Which interleavings of \<open>Registration_Threads\<close> the language defines. \<open>Router::MatchRoute\<close> and
  \<open>__HandleImpl\<close> read the tables that \<open>AddRoute\<close> and \<open>RegisterRouteHandler\<close> write, and take no lock
  (\<open>src/piconaut/routers/router.cc\<close>, \<open>src/piconaut/handlers/global_dispatcher_handler.h\<close>). In C++ two
  accesses of different threads to the same object, one of them a write, that no happens-before orders
  are a data race, and an execution with a data race has no defined behaviour. Here each step of a
  thread or a request is an event with the objects it reads and writes or the mutex it locks or
  unlocks; the happens-before of a trace is defined from the events alone.
\<close>

section \<open>Objects, events, traces\<close>

text \<open>
  The objects of the two tables: for each node, named by its path, the hash map of its children, the
  pointer that its entry in the parent's map holds, and its members; and the map of the routes.
\<close>

datatype location =
    Children "string list"
  | Entry "string list"
  | Type_at "string list"
  | Name_at "string list"
  | Regex_at "string list"
  | Key_at "string list"
  | Handler_at "string list"
  | Routes

datatype mutex_name = Dispatcher_mutex | Router_mutex

datatype action = Lock mutex_name | Unlock mutex_name | Access "location set" "location set"

datatype thread = Registrar nat | Request nat

type_synonym event = "thread \<times> action"

primrec reads_of :: "action \<Rightarrow> location set" where
  "reads_of (Lock m) = {}" | "reads_of (Unlock m) = {}" | "reads_of (Access rs ws) = rs"

primrec writes_of :: "action \<Rightarrow> location set" where
  "writes_of (Lock m) = {}" | "writes_of (Unlock m) = {}" | "writes_of (Access rs ws) = ws"

text \<open>
  The step at index \<open>a\<close> happens before the one at \<open>b\<close>: the closure of the order of each thread and of
  each unlock of a mutex with the later locks of it.
\<close>

definition ordered :: "event list \<Rightarrow> nat \<Rightarrow> nat \<Rightarrow> bool" where
  "ordered tr a b =
     (a < b \<and> b < length tr \<and>
      (fst (tr ! a) = fst (tr ! b) \<or> (\<exists>m. snd (tr ! a) = Unlock m \<and> snd (tr ! b) = Lock m)))"

definition happens_before :: "event list \<Rightarrow> nat \<Rightarrow> nat \<Rightarrow> bool" where
  "happens_before tr = (ordered tr)\<^sup>+\<^sup>+"

definition conflicting :: "event \<Rightarrow> event \<Rightarrow> bool" where
  "conflicting e f =
     (fst e \<noteq> fst f \<and>
      (writes_of (snd e) \<inter> (reads_of (snd f) \<union> writes_of (snd f)) \<noteq> {} \<or>
       writes_of (snd f) \<inter> reads_of (snd e) \<noteq> {}))"

definition data_race :: "event list \<Rightarrow> bool" where
  "data_race tr =
     (\<exists>a b. a < b \<and> b < length tr \<and> conflicting (tr ! a) (tr ! b) \<and> \<not> happens_before tr a b)"

section \<open>The events of the steps\<close>

text \<open>
  A write of a registration. The loop of \<open>AddRoute\<close> calls the non-const \<open>operator[]\<close> of the children in
  every round, which the library counts as a modification of the map, also when it finds the key; the
  pointer in the entry is written when the node is new and read otherwise.
\<close>

primrec write_access :: "shared \<Rightarrow> node_write \<Rightarrow> action" where
  "write_access s (Insert_null p) = Access {} {Children (butlast p)}"
| "write_access s (Make_child p) = (if null_child s = Some p then Access {} {Entry p} else Access {Entry p} {})"
| "write_access s (Set_name p n) = Access {} {Name_at p}"
| "write_access s (Set_regex p r) = Access {} {Regex_at p}"
| "write_access s (Set_type p t) = Access {} {Type_at p}"
| "write_access s (Set_key p k) = Access {} {Key_at p}"
| "write_access s (Set_handler p h) = Access {} {Handler_at p}"
| "write_access s (Emplace k r) = Access {} {Routes}"

fun registrar_action :: "(string \<Rightarrow> size_t) \<Rightarrow> locked \<Rightarrow> registrar \<Rightarrow> action" where
  "registrar_action hasher l (Outside regs) = Lock Dispatcher_mutex"
| "registrar_action hasher l (Has_mutex reg rest) = Lock Router_mutex"
| "registrar_action hasher l (In_AddRoute reg (Inl e) rest) = Unlock Router_mutex"
| "registrar_action hasher l (In_AddRoute reg (Inr []) rest) = Unlock Router_mutex"
| "registrar_action hasher l (In_AddRoute reg (Inr (w # ws)) rest) = write_access (mem l) w"
| "registrar_action hasher l (After_AddRoute reg rest) = write_access (mem l) (emplace_write hasher reg)"
| "registrar_action hasher l (Leaving rest) = Unlock Dispatcher_mutex"

text \<open>The objects that the next read of a request looks at; the end of the loop looks at none.\<close>

primrec read_locations :: "reader \<Rightarrow> location set" where
  "read_locations (Find_part p parts ps) = (if parts = [] then {} else {Children p})"
| "read_locations (Read_static_type p part rest ps) = {Entry (p @ [part]), Type_at (p @ [part])}"
| "read_locations (Find_param p part rest ps) = {Children p}"
| "read_locations (Read_param_type p part rest ps) = {Entry (p @ [param_key]), Type_at (p @ [param_key])}"
| "read_locations (Read_param_regex p part rest ps) = {Regex_at (p @ [param_key])}"
| "read_locations (Store_param p part rest ps) = {Name_at (p @ [param_key])}"
| "read_locations (Read_key p ps) = {Key_at p}"
| "read_locations (Find_route p k ps) = {Routes}"
| "read_locations (Read_executor p h ps) = {Handler_at p}"
| "read_locations (Finished out) = {}"

text \<open>The steps of \<open>server_step\<close>, with the trace of their events.\<close>

inductive traced_step :: "(string \<Rightarrow> size_t) \<Rightarrow> server \<times> event list \<Rightarrow> server \<times> event list \<Rightarrow> bool" for hasher where
  registrar_event: "i < length rs \<Longrightarrow> registrar_move hasher i (rs ! i) l = Some (r, l') \<Longrightarrow>
     traced_step hasher ((l, rs, qs), tr) ((l', rs[i := r], qs), tr @ [(Registrar i, registrar_action hasher l (rs ! i))])"
| request_event: "j < length qs \<Longrightarrow> (\<forall>out. qs ! j \<noteq> Finished out) \<Longrightarrow>
     traced_step hasher ((l, rs, qs), tr)
       ((l, rs, qs[j := read_step (mem l) (qs ! j)]), tr @ [(Request j, Access (read_locations (qs ! j)) {})])"

inductive_cases traced_stepE: "traced_step hasher ((l, rs, qs), tr) c"

definition traced ::
  "(string \<Rightarrow> size_t) \<Rightarrow> GlobalDispatcherHandler \<Rightarrow> (string \<times> handler_ptr) list list \<Rightarrow> string list \<Rightarrow>
     server \<Rightarrow> event list \<Rightarrow> bool" where
  "traced hasher g todo paths c tr = (traced_step hasher)\<^sup>*\<^sup>* (start_server g todo paths, []) (c, tr)"

text \<open>The traces are those of the executions of \<open>server_step\<close>.\<close>

lemma traced_server: "traced hasher g todo paths c tr \<Longrightarrow> (server_step hasher)\<^sup>*\<^sup>* (start_server g todo paths) c"
  unfolding traced_def
proof (induction "(c, tr)" arbitrary: c tr rule: rtranclp_induct)
  case (step d)
  obtain c' tr' where d: "d = (c', tr')" by (cases d)
  have "server_step hasher c' c"
    using step(2) unfolding d by cases (auto intro: server_step.intros)
  with step(3) [OF d] show ?case by (rule rtranclp.rtrancl_into_rtrancl)
qed simp

lemma server_traced: "(server_step hasher)\<^sup>*\<^sup>* (start_server g todo paths) c \<Longrightarrow> \<exists>tr. traced hasher g todo paths c tr"
proof (induction rule: rtranclp_induct)
  case base
  show ?case unfolding traced_def by blast
next
  case (step c c')
  then obtain tr where tr: "traced hasher g todo paths c tr" by blast
  have "\<exists>tr'. traced_step hasher (c, tr) (c', tr')"
    using step(2) by cases (auto intro: traced_step.intros)
  with tr show ?case unfolding traced_def by (meson rtranclp.rtrancl_into_rtrancl)
qed

section \<open>The discipline of the mutex\<close>

text \<open>Who holds the mutex of the dispatcher after a trace.\<close>

primrec owner_after :: "event \<Rightarrow> thread option \<Rightarrow> thread option" where
  "owner_after (t, a) h =
     (if a = Lock Dispatcher_mutex then Some t else if a = Unlock Dispatcher_mutex then None else h)"

definition owner :: "event list \<Rightarrow> thread option" where
  "owner tr = fold owner_after tr None"

lemma owner_snoc: "owner (tr @ [e]) = owner_after e (owner tr)"
  by (simp add: owner_def)

lemma owner_take: "a < length tr \<Longrightarrow> owner (take (Suc a) tr) = owner_after (tr ! a) (owner (take a tr))"
  by (simp add: take_Suc_conv_app_nth owner_snoc)

text \<open>Only the holder unlocks and accesses, only a free mutex is locked; a request does neither lock nor write.\<close>

fun allowed :: "thread option \<Rightarrow> event \<Rightarrow> bool" where
  "allowed h (Registrar i, Lock m) = (m = Dispatcher_mutex \<longrightarrow> h = None)"
| "allowed h (Registrar i, Unlock m) = (h = Some (Registrar i))"
| "allowed h (Registrar i, Access rs ws) = (h = Some (Registrar i))"
| "allowed h (Request j, Lock m) = False"
| "allowed h (Request j, Unlock m) = False"
| "allowed h (Request j, Access rs ws) = (ws = {})"

definition disciplined :: "event list \<Rightarrow> bool" where
  "disciplined tr = (\<forall>a < length tr. allowed (owner (take a tr)) (tr ! a))"

lemma disciplined_snoc: "disciplined (tr @ [e]) \<longleftrightarrow> disciplined tr \<and> allowed (owner tr) e"
  by (auto simp: disciplined_def nth_append less_Suc_eq)

lemma write_access_form: "\<exists>rs ws. write_access s w = Access rs ws"
  by (cases w) auto

lemma registrar_event_ok:
  assumes "locks_ok l rs" and "i < length rs" and "registrar_move hasher i (rs ! i) l = Some (r, l')"
    and "owner tr = map_option Registrar (mutex l)"
  shows "allowed (owner tr) (Registrar i, registrar_action hasher l (rs ! i)) \<and>
    owner (tr @ [(Registrar i, registrar_action hasher l (rs ! i))]) = map_option Registrar (mutex l')"
proof -
  have m: "holds_mutex (rs ! i) \<Longrightarrow> mutex l = Some i" using assms(1,2) unfolding locks_ok_def by blast
  note [simp] = owner_snoc assms(4) emplace_write_def
  show ?thesis
  proof (cases "rs ! i")
    case (Outside regs)
    with assms(3) show ?thesis by (cases regs) (auto split: if_splits)
  next
    case (In_AddRoute reg ws rest)
    show ?thesis
    proof (cases ws)
      case (Inl e)
      with In_AddRoute assms(3) m show ?thesis by auto
    next
      case (Inr vs)
      with In_AddRoute assms(3) m show ?thesis
        using write_access_form [of "mem l" "hd vs"] by (cases vs) auto
    qed
  qed (use assms(3) m in \<open>auto split: if_splits\<close>)
qed

text \<open>Induction over the steps of an execution.\<close>

lemma traced_lengths:
  assumes "traced hasher g todo paths (l, rs, qs) tr"
  shows "length rs = length todo" and "length qs = length paths" and "locks_ok l rs"
  using server_ok_reachable [OF traced_server [OF assms]] by (auto simp: server_ok_def serialized_def)

lemma traced_induct [consumes 1, case_names start registrar request]:
  assumes "traced hasher g todo paths (l, rs, qs) tr"
    and "P \<lparr>mem = shared_of g, mutex = None, router_mutex = None\<rparr> (map Outside todo) (map start_request paths) []"
    and "\<And>l rs qs tr i r l'. traced hasher g todo paths (l, rs, qs) tr \<Longrightarrow> P l rs qs tr \<Longrightarrow> i < length rs \<Longrightarrow>
      registrar_move hasher i (rs ! i) l = Some (r, l') \<Longrightarrow>
      P l' (rs[i := r]) qs (tr @ [(Registrar i, registrar_action hasher l (rs ! i))])"
    and "\<And>l rs qs tr j. traced hasher g todo paths (l, rs, qs) tr \<Longrightarrow> P l rs qs tr \<Longrightarrow> j < length qs \<Longrightarrow>
      (\<forall>out. qs ! j \<noteq> Finished out) \<Longrightarrow>
      P l rs (qs[j := read_step (mem l) (qs ! j)]) (tr @ [(Request j, Access (read_locations (qs ! j)) {})])"
  shows "P l rs qs tr"
  using assms(1) unfolding traced_def
proof (induction "((l, rs, qs), tr)" arbitrary: l rs qs tr rule: rtranclp_induct)
  case base
  then show ?case using assms(2) by (auto simp: start_server_def)
next
  case (step d)
  obtain l0 rs0 qs0 tr0 where d: "d = ((l0, rs0, qs0), tr0)" by (metis prod.collapse)
  have t: "traced hasher g todo paths (l0, rs0, qs0) tr0" using step(1) unfolding d traced_def .
  from step(2) [unfolded d] show ?case
    by (elim traced_stepE) (use assms(3,4) [OF t step(3) [OF d]] in auto)
qed

lemma traced_disciplined:
  assumes "traced hasher g todo paths (l, rs, qs) tr"
  shows "disciplined tr \<and> owner tr = map_option Registrar (mutex l)"
  using assms
proof (induction rule: traced_induct)
  case start
  show ?case by (simp add: disciplined_def owner_def)
next
  case (registrar l rs qs tr i r l')
  with registrar_event_ok [OF traced_lengths(3) [OF registrar(1)], of i hasher r l' tr] show ?case
    by (simp add: disciplined_snoc)
next
  case (request l rs qs tr j)
  then show ?case by (simp add: disciplined_snoc owner_snoc)
qed

section \<open>What the mutex orders\<close>

lemma allowed_unlock: "allowed h (t, Unlock Dispatcher_mutex) \<Longrightarrow> h = Some t"
  by (cases t) auto

lemma allowed_lock: "allowed h (t, Lock Dispatcher_mutex) \<Longrightarrow> h = None"
  by (cases t) auto

text \<open>A thread that no longer holds the mutex has unlocked it; one that holds it now has locked it.\<close>

lemma unlocked_between:
  assumes "disciplined tr" and "owner (take a tr) = Some t" and "a \<le> b" and "b \<le> length tr" and "owner (take b tr) \<noteq> Some t"
  shows "\<exists>c. a \<le> c \<and> c < b \<and> tr ! c = (t, Unlock Dispatcher_mutex)"
  using assms(3-5)
proof (induction b rule: dec_induct)
  case base
  then show ?case using assms(2) by simp
next
  case (step b)
  show ?case
  proof (cases "owner (take b tr) = Some t")
    case False
    with step show ?thesis by force
  next
    case True
    have al: "allowed (owner (take b tr)) (tr ! b)" using assms(1) step(4) by (simp add: disciplined_def)
    obtain u x where e: "tr ! b = (u, x)" by (cases "tr ! b")
    have "x \<noteq> Lock Dispatcher_mutex" using al True allowed_lock unfolding e by force
    with step(4,5) True owner_take [of b tr] have x: "x = Unlock Dispatcher_mutex" by (auto simp: e split: if_splits)
    with al True have "u = t" using allowed_unlock unfolding e by force
    with x e step(1) show ?thesis by blast
  qed
qed

lemma locked_between:
  assumes "owner (take a tr) \<noteq> Some t" and "a \<le> b" and "b \<le> length tr" and "owner (take b tr) = Some t"
  shows "\<exists>c. a \<le> c \<and> c < b \<and> tr ! c = (t, Lock Dispatcher_mutex)"
  using assms(2-4)
proof (induction b rule: dec_induct)
  case base
  then show ?case using assms(1) by simp
next
  case (step b)
  show ?case
  proof (cases "owner (take b tr) = Some t")
    case True
    with step show ?thesis by force
  next
    case False
    with step(4,5) owner_take [of b tr] have "tr ! b = (t, Lock Dispatcher_mutex)"
      by (cases "tr ! b") (auto split: if_splits)
    with step(1) show ?thesis by blast
  qed
qed

lemma registrars_ordered:
  assumes "disciplined tr" and "a < b" and "b < length tr" and "i \<noteq> k"
    and "tr ! a = (Registrar i, Access rs ws)" and "tr ! b = (Registrar k, Access rs' ws')"
  shows "happens_before tr a b"
proof -
  from assms(1-3) have "allowed (owner (take a tr)) (tr ! a)" "allowed (owner (take b tr)) (tr ! b)"
    by (simp_all add: disciplined_def)
  with assms(5,6) have own: "owner (take a tr) = Some (Registrar i)" "owner (take b tr) = Some (Registrar k)"
    by simp_all
  with assms(4) have "owner (take b tr) \<noteq> Some (Registrar i)" by simp
  from unlocked_between [OF assms(1) own(1) _ _ this] assms(2,3) obtain c
    where c: "a \<le> c" "c < b" "tr ! c = (Registrar i, Unlock Dispatcher_mutex)" by auto
  have "owner (take (Suc c) tr) \<noteq> Some (Registrar k)"
    using owner_take [of c tr] c assms(3) by simp
  from locked_between [OF this _ _ own(2)] c(2) assms(3) obtain d
    where d: "c < d" "d < b" "tr ! d = (Registrar k, Lock Dispatcher_mutex)" by (auto simp: Suc_le_eq)
  have "a \<noteq> c" using assms(5) c(3) by auto
  with c d assms(3,5,6) have "ordered tr a c" "ordered tr c d" "ordered tr d b" by (auto simp: ordered_def)
  then show ?thesis unfolding happens_before_def by (meson tranclp.r_into_trancl tranclp.trancl_into_trancl)
qed

text \<open>Nothing orders a request and another thread.\<close>

lemma request_ordered:
  assumes "disciplined tr" and "ordered tr a b"
  shows "fst (tr ! a) = Request j \<longleftrightarrow> fst (tr ! b) = Request j"
proof -
  have "allowed (owner (take a tr)) (tr ! a)" "allowed (owner (take b tr)) (tr ! b)"
    using assms by (simp_all add: disciplined_def ordered_def)
  moreover have "\<exists>i. fst e = Registrar i" if "allowed h e" "snd e = Unlock m \<or> snd e = Lock m" for h e m
    using that by (cases "(h, e)" rule: allowed.cases) auto
  ultimately show ?thesis using assms(2) unfolding ordered_def by (metis thread.distinct(1))
qed

lemma request_unordered:
  assumes "disciplined tr" and "happens_before tr a b"
  shows "fst (tr ! a) = Request j \<longleftrightarrow> fst (tr ! b) = Request j"
  using assms(2) unfolding happens_before_def
  by (induction rule: tranclp_induct) (simp_all add: request_ordered [OF assms(1)])

lemma disciplined_request: "disciplined tr \<Longrightarrow> (Request j, A) \<in> set tr \<Longrightarrow> writes_of A = {}"
proof -
  assume d: "disciplined tr" "(Request j, A) \<in> set tr"
  then obtain a where "a < length tr" "tr ! a = (Request j, A)" by (metis in_set_conv_nth)
  with d(1) have "allowed (owner (take a tr)) (Request j, A)" by (metis disciplined_def)
  then show "writes_of A = {}" by (cases A) auto
qed

lemma disciplined_registrar:
  assumes "disciplined tr" and "a < b" and "b < length tr" and "conflicting (tr ! a) (tr ! b)"
    and "fst (tr ! a) = Registrar i" and "fst (tr ! b) = Registrar k"
  shows "happens_before tr a b"
proof -
  from assms(4-6) obtain rs ws rs' ws' where "tr ! a = (Registrar i, Access rs ws)" "tr ! b = (Registrar k, Access rs' ws')" "i \<noteq> k"
    by (cases "tr ! a"; cases "tr ! b"; cases "snd (tr ! a)"; cases "snd (tr ! b)") (auto simp: conflicting_def)
  with registrars_ordered [OF assms(1-3)] show ?thesis by blast
qed

text \<open>So the data races are exactly the objects that a registration writes and a request reads.\<close>

lemma data_race_iff:
  assumes "disciplined tr"
  shows "data_race tr \<longleftrightarrow>
    (\<exists>i j A B. (Registrar i, A) \<in> set tr \<and> (Request j, B) \<in> set tr \<and> writes_of A \<inter> reads_of B \<noteq> {})"
proof
  assume "data_race tr"
  then obtain a b where ab: "a < b" "b < length tr" "conflicting (tr ! a) (tr ! b)" "\<not> happens_before tr a b"
    unfolding data_race_def by blast
  obtain t A u B where e: "tr ! a = (t, A)" "tr ! b = (u, B)" by (metis surj_pair)
  with ab(1,2) have mem: "(t, A) \<in> set tr" "(u, B) \<in> set tr" by (metis less_trans nth_mem)+
  show "\<exists>i j A B. (Registrar i, A) \<in> set tr \<and> (Request j, B) \<in> set tr \<and> writes_of A \<inter> reads_of B \<noteq> {}"
  proof (cases t; cases u)
    fix i k assume "t = Registrar i" "u = Registrar k"
    with disciplined_registrar [OF assms ab(1-3), of i k] ab(4) e show ?thesis by simp
  next
    fix i j assume "t = Registrar i" "u = Request j"
    with mem ab(3) e disciplined_request [OF assms] show ?thesis unfolding conflicting_def by force
  next
    fix j i assume "t = Request j" "u = Registrar i"
    with mem ab(3) e disciplined_request [OF assms] show ?thesis unfolding conflicting_def by force
  next
    fix j k assume "t = Request j" "u = Request k"
    with mem ab(3) e disciplined_request [OF assms] show ?thesis unfolding conflicting_def by force
  qed
next
  assume "\<exists>i j A B. (Registrar i, A) \<in> set tr \<and> (Request j, B) \<in> set tr \<and> writes_of A \<inter> reads_of B \<noteq> {}"
  then obtain i j A B a b where r: "a < length tr" "tr ! a = (Registrar i, A)" "b < length tr" "tr ! b = (Request j, B)"
    "writes_of A \<inter> reads_of B \<noteq> {}" by (metis in_set_conv_nth)
  from r have conf: "conflicting (tr ! a) (tr ! b)" "conflicting (tr ! b) (tr ! a)" by (auto simp: conflicting_def)
  have "\<not> happens_before tr a b" "\<not> happens_before tr b a"
    using request_unordered [OF assms, of a b j] request_unordered [OF assms, of b a j] r by auto
  moreover have "a < b \<or> b < a" using r by (metis fst_conv nat_neq_iff thread.distinct(1))
  ultimately show "data_race tr" using conf r unfolding data_race_def by blast
qed

section \<open>What every registration writes, and every request reads\<close>

abbreviation valid_in :: "(string \<times> handler_ptr) list \<Rightarrow> bool" where
  "valid_in regs \<equiv> \<exists>reg \<in> set regs. IsValidRoute (fst reg)"

text \<open>The first write of a valid registration is to the children of the root; others write nothing.\<close>

lemma register_writes_first:
  "register_writes hasher reg = (if IsValidRoute (fst reg)
     then Insert_null [normalized_part (hd (splits (CHR ''/'') (fst reg)))] # tl (register_writes hasher reg) else [])"
proof (cases reg)
  case (Pair path h)
  have "splits (CHR ''/'') path \<noteq> []" by simp
  then show ?thesis unfolding Pair
    by (cases "splits (CHR ''/'') path")
      (auto simp: register_writes_valid register_writes_invalid part_writes_def Let_def)
qed

text \<open>A step of a thread begins a call, performs its next write, or does neither.\<close>

lemma registrar_move_writes:
  assumes "registrar_move hasher i r0 l = Some (r, l')"
  obtains (begins) reg where "to_come r0 = reg # to_come r" "writes_left hasher r0 = []"
      "writes_left hasher r = register_writes hasher reg" "mem l' = mem l" "writes_of (registrar_action hasher l r0) = {}"
    | (silent) "to_come r0 = to_come r" "writes_left hasher r = writes_left hasher r0" "mem l' = mem l"
      "writes_of (registrar_action hasher l r0) = {}"
    | (performs) w where "to_come r0 = to_come r" "writes_left hasher r0 = w # writes_left hasher r"
      "registrar_action hasher l r0 = write_access (mem l) w"
  using assms
proof (cases "(hasher, i, r0, l)" rule: registrar_move.cases)
  case (2 h' i' reg rest l')
  with assms begins show ?thesis by (auto split: if_splits)
next
  case (3 h' i' reg rest l')
  with assms silent show ?thesis by (auto simp: register_writes_AddRoute split: if_splits)
qed (use assms silent performs in auto)

text \<open>What is known of a thread with the calls \<open>t\<close> at each moment.\<close>

definition registrar_ok :: "(string \<Rightarrow> size_t) \<Rightarrow> event list \<Rightarrow> nat \<Rightarrow> (string \<times> handler_ptr) list \<Rightarrow> registrar \<Rightarrow> bool" where
  "registrar_ok hasher tr i t r =
     (set (to_come r) \<subseteq> set t \<and> (writes_left hasher r \<noteq> [] \<longrightarrow> valid_in t) \<and>
      (\<forall>A. (Registrar i, A) \<in> set tr \<longrightarrow> writes_of A \<noteq> {} \<longrightarrow> valid_in t) \<and>
      (valid_in t \<longrightarrow> valid_in (to_come r) \<or> (\<exists>x. Insert_null [x] \<in> set (writes_left hasher r)) \<or>
         (\<exists>A. (Registrar i, A) \<in> set tr \<and> Children [] \<in> writes_of A)))"

lemma registrar_ok_move:
  assumes "registrar_ok hasher tr i t r0" and "registrar_move hasher i r0 l = Some (r, l')"
  shows "registrar_ok hasher (tr @ [(Registrar i, registrar_action hasher l r0)]) i t r"
  using assms(2)
proof (cases rule: registrar_move_writes)
  case (begins reg)
  have "IsValidRoute (fst reg) \<Longrightarrow> \<exists>x. Insert_null [x] \<in> set (register_writes hasher reg)"
    by (subst register_writes_first) auto
  moreover have "register_writes hasher reg \<noteq> [] \<Longrightarrow> IsValidRoute (fst reg)"
    by (subst (asm) register_writes_first) (auto split: if_splits)
  ultimately show ?thesis using assms(1) begins by (auto simp: registrar_ok_def)
next
  case silent
  with assms(1) show ?thesis by (auto simp: registrar_ok_def)
next
  case (performs w)
  have "Children [] \<in> writes_of (write_access (mem l) (Insert_null [x]))" for x by simp
  with assms(1) performs show ?thesis unfolding registrar_ok_def by auto
qed

lemma registrar_ok_other:
  "registrar_ok hasher tr i t r \<Longrightarrow> fst e \<noteq> Registrar i \<Longrightarrow> registrar_ok hasher (tr @ [e]) i t r"
  by (auto simp: registrar_ok_def)

lemma traced_registrars:
  assumes "traced hasher g todo paths (l, rs, qs) tr"
  shows "\<forall>i < length todo. registrar_ok hasher tr i (todo ! i) (rs ! i)"
  using assms
proof (induction rule: traced_induct)
  case start
  show ?case by (simp add: registrar_ok_def)
next
  case (registrar l rs qs tr i r l')
  show ?case
  proof (intro allI impI)
    fix k assume k: "k < length todo"
    with registrar.IH registrar.hyps(2) registrar_ok_move [OF _ registrar.hyps(3)] registrar_ok_other [of hasher tr k]
    show "registrar_ok hasher (tr @ [(Registrar i, registrar_action hasher l (rs ! i))]) k (todo ! k) (rs[i := r] ! k)"
      by (cases "k = i") simp_all
  qed
next
  case (request l rs qs tr j)
  then show ?case by (simp add: registrar_ok_other)
qed

text \<open>A request looks at the children of the root first.\<close>

lemma traced_requests:
  assumes "traced hasher g todo paths (l, rs, qs) tr"
  shows "\<forall>j < length paths. qs ! j = start_request (paths ! j) \<or> (\<exists>B. (Request j, B) \<in> set tr \<and> Children [] \<in> reads_of B)"
  using assms
proof (induction rule: traced_induct)
  case (request l rs qs tr j)
  have first: "read_locations (start_request p) = {Children []}" for p
    by (simp add: start_request_eq)
  show ?case
  proof (intro allI impI)
    fix k assume k: "k < length paths"
    show "qs[j := read_step (mem l) (qs ! j)] ! k = start_request (paths ! k) \<or>
        (\<exists>B. (Request k, B) \<in> set (tr @ [(Request j, Access (read_locations (qs ! j)) {})]) \<and> Children [] \<in> reads_of B)"
    proof (cases "k = j \<and> qs ! j = start_request (paths ! j)")
      case True
      with first [of "paths ! j"] have "Children [] \<in> reads_of (Access (read_locations (qs ! j)) {})" by simp
      with True show ?thesis by (metis in_set_conv_decomp)
    next
      case False
      with request.IH k show ?thesis by (cases "k = j") auto
    qed
  qed
qed auto

text \<open>Every event is of one of the threads and requests that were started.\<close>

lemma traced_threads:
  assumes "traced hasher g todo paths (l, rs, qs) tr" and "(t, A) \<in> set tr"
  shows "case t of Registrar i \<Rightarrow> i < length todo | Request j \<Rightarrow> j < length paths"
proof -
  have "\<forall>e \<in> set tr. case fst e of Registrar i \<Rightarrow> i < length todo | Request j \<Rightarrow> j < length paths"
    using assms(1)
  proof (induction rule: traced_induct)
    case (registrar l rs qs tr i r l')
    then show ?case using traced_lengths(1) [OF registrar.hyps(1)] by auto
  next
    case (request l rs qs tr j)
    then show ?case using traced_lengths(2) [OF request.hyps(1)] by auto
  qed simp
  with assms(2) show ?thesis by fastforce
qed

lemma traced_race_valid:
  assumes "traced hasher g todo paths c tr" and "data_race tr"
  shows "paths \<noteq> [] \<and> valid_in (concat todo)"
proof -
  obtain l rs qs where c: "c = (l, rs, qs)" by (cases c)
  note t = assms(1) [unfolded c]
  from traced_disciplined [OF t] assms(2) obtain i j A B
    where e: "(Registrar i, A) \<in> set tr" "(Request j, B) \<in> set tr" "writes_of A \<noteq> {}"
    using data_race_iff [of tr] by blast
  from traced_threads [OF t e(1)] traced_threads [OF t e(2)] have ij: "i < length todo" "j < length paths" by simp_all
  with traced_registrars [OF t] e(1,3) have "valid_in (todo ! i)" unfolding registrar_ok_def by blast
  with ij show ?thesis by (auto intro: nth_mem)
qed

section \<open>Executions without a race\<close>







section \<open>Properties\<close>

text \<open>C8. The locks order the registrations and nothing else. In every execution of any number of registering
  threads and requests, two accesses of registering threads of which one is a write are ordered by
  happens-before; and the data races are exactly the pairs of a registration that writes an object and a
  request that reads it, in whichever order they come.\<close>

theorem locks_order_registrations:
  assumes "traced hasher g todo paths c tr"
  shows "(\<forall>a b i k. a < b \<and> b < length tr \<and> conflicting (tr ! a) (tr ! b) \<and>
       fst (tr ! a) = Registrar i \<and> fst (tr ! b) = Registrar k \<longrightarrow> happens_before tr a b) \<and>
    (data_race tr \<longleftrightarrow>
       (\<exists>i j A B. (Registrar i, A) \<in> set tr \<and> (Request j, B) \<in> set tr \<and> writes_of A \<inter> reads_of B \<noteq> {}))"
proof -
  obtain l rs qs where c: "c = (l, rs, qs)" by (cases c)
  from traced_disciplined [OF assms [unfolded c]] have "disciplined tr" by blast
  with disciplined_registrar data_race_iff show ?thesis by blast
qed

text \<open>C9. Routes cannot be registered while requests come: an execution in which all calls and all requests
  have come to their end has a data race, and so no defined behaviour, as soon as it has a request and
  the registration of a valid pattern, whichever they are and however they were scheduled; without
  both it has none.\<close>

theorem registration_beside_request_races:
  assumes "traced hasher g todo paths (l, rs, qs) tr"
    and "set rs \<subseteq> {Outside []}" and "\<forall>q \<in> set qs. \<exists>out. q = Finished out"
  shows "data_race tr \<longleftrightarrow> paths \<noteq> [] \<and> (\<exists>reg \<in> set (concat todo). IsValidRoute (fst reg))"
proof -
  note len = traced_lengths [OF assms(1)] and reg_ok = traced_registrars [OF assms(1)]
  from traced_disciplined [OF assms(1)] have dis: "disciplined tr" by blast
  show ?thesis
  proof
    assume "data_race tr"
    with traced_race_valid [OF assms(1)] show "paths \<noteq> [] \<and> valid_in (concat todo)" .
  next
    assume p: "paths \<noteq> [] \<and> valid_in (concat todo)"
    then obtain t where "t \<in> set todo" "valid_in t" by auto
    then obtain i where i: "i < length todo" "valid_in (todo ! i)" by (metis in_set_conv_nth)
    from i(1) len(1) assms(2) have "rs ! i = Outside []" by (metis nth_mem singletonD subsetD)
    moreover from i(1) reg_ok have "registrar_ok hasher tr i (todo ! i) (rs ! i)" by blast
    ultimately obtain A where A: "(Registrar i, A) \<in> set tr" "Children [] \<in> writes_of A"
      using i(2) unfolding registrar_ok_def by auto
    from p len(2) assms(3) have "\<exists>out. qs ! 0 = Finished out" by (metis length_greater_0_conv nth_mem)
    with p traced_requests [OF assms(1)] obtain B where "(Request 0, B) \<in> set tr" "Children [] \<in> reads_of B"
      by (auto simp: start_request_eq)
    with A show "data_race tr" unfolding data_race_iff [OF dis] by blast
  qed
qed


section \<open>Concrete runs\<close>

lemma traced_finishes:
  obtains l rs qs tr where "traced hasher g todo paths (l, rs, qs) tr" "set rs \<subseteq> {Outside []}"
    "\<forall>q \<in> set qs. \<exists>out. q = Finished out"
proof -
  obtain l rs qs where f: "(server_step hasher)\<^sup>*\<^sup>* (start_server g todo paths) (l, rs, qs)"
    "set rs \<subseteq> {Outside []}" "\<forall>j < length paths. \<exists>out. qs ! j = Finished out" by (rule server_finishes)
  from server_traced [OF f(1)] obtain tr where tr: "traced hasher g todo paths (l, rs, qs) tr" by blast
  from f(3) traced_lengths(2) [OF tr] have "\<forall>q \<in> set qs. \<exists>out. q = Finished out" by (metis in_set_conv_nth)
  with that tr f(2) show thesis by blast
qed

theorem locks_order_registrations_witness:
  "\<exists>c tr. traced length_hash make_GlobalDispatcherHandler two_threads [''/a''] c tr \<and>
    (data_race tr \<longleftrightarrow>
       (\<exists>i j A B. (Registrar i, A) \<in> set tr \<and> (Request j, B) \<in> set tr \<and> writes_of A \<inter> reads_of B \<noteq> {}))"
proof -
  obtain l rs qs tr where t: "traced length_hash make_GlobalDispatcherHandler two_threads [''/a''] (l, rs, qs) tr"
    by (rule traced_finishes)
  from locks_order_registrations [OF t] t show ?thesis by blast
qed

theorem registration_beside_request_races_witness:
  "\<exists>c tr. traced length_hash make_GlobalDispatcherHandler two_threads [''/a''] c tr \<and> data_race tr"
proof -
  obtain l rs qs tr where t: "traced length_hash make_GlobalDispatcherHandler two_threads [''/a''] (l, rs, qs) tr"
    "set rs \<subseteq> {Outside []}" "\<forall>q \<in> set qs. \<exists>out. q = Finished out" by (rule traced_finishes)
  have "IsValidRoute ''/a/b''" by code_simp
  then have "\<exists>reg \<in> set (concat two_threads). IsValidRoute (fst reg)" by (simp add: two_threads_def)
  with registration_beside_request_races [OF t] t(1) show ?thesis by blast
qed


end
