(* ===== verification/Router_Reference.thy ===== *)
theory Router_Reference
  imports Router_Spec "HOL-Library.Sublist"
begin

text \<open>
  A reference for \<open>Router::MatchRoute\<close> that knows no tree: it resolves a request against the list of
  registered patterns alone. The trie of \<open>router.cc\<close> computes the same, so what follows for the
  reference holds for the router: the order of registrations does not matter, and only paths of the
  form of a route are found.
\<close>

section \<open>Resolution against a list of patterns\<close>

definition known :: "string list list \<Rightarrow> string list \<Rightarrow> bool" where
  "known pats ks = list_ex (prefix ks) pats"

text \<open>A literal segment is taken when some pattern continues with it, else a parameter.\<close>

fun resolve :: "string list list \<Rightarrow> string list \<Rightarrow> string list \<Rightarrow> string list option" where
  "resolve pats ks [] = Some ks"
| "resolve pats ks (part # parts) =
     (if part \<noteq> param_key \<and> known pats (ks @ [part]) then resolve pats (ks @ [part]) parts
      else if known pats (ks @ [param_key]) \<and> segment_admits param_key part
        then resolve pats (ks @ [param_key]) parts
      else None)"

text \<open>The patterns of a list of registrations, the last registration of each, and the answer.\<close>

definition patterns :: "'h registration list \<Rightarrow> string list list" where
  "patterns regs = map (\<lambda>(k, path, h). pattern_of path) regs"

definition endpoints :: "'h registration list \<Rightarrow> (string list \<times> size_t \<times> 'h option) list" where
  "endpoints regs = map (\<lambda>(k, path, h). (pattern_of path, k, h)) regs"

definition route_answer :: "'h registration list \<Rightarrow> string \<Rightarrow> 'h RouterMatchResult" where
  "route_answer regs path =
     (case resolve (patterns regs) [] (splits (CHR ''/'') path) of
        None \<Rightarrow> no_match
      | Some ks \<Rightarrow>
          (case map_of (rev (endpoints regs)) ks of
             None \<Rightarrow> \<lparr>executor = Some None, result_key = Some 0\<rparr>
           | Some (k, h) \<Rightarrow> \<lparr>executor = Some h, result_key = Some k\<rparr>))"

section \<open>The nodes of the trie are the prefixes of the patterns\<close>

lemma known_append: "known (ps @ qs) ks \<longleftrightarrow> known ps ks \<or> known qs ks"
  by (simp add: known_def)

lemma known_prefix: "known pats (ks @ js) \<Longrightarrow> known pats ks"
  by (auto simp: known_def list_ex_iff dest: append_prefixD)

lemma node_at_add_parts_iff:
  "node_at ks (add_parts k h parts n) \<noteq> None \<longleftrightarrow>
     node_at ks n \<noteq> None \<or> prefix ks (map normalized_part parts)"
proof (induction parts arbitrary: ks n)
  case Nil
  then show ?case by (cases ks) auto
next
  case (Cons part parts)
  show ?case
  proof (cases ks)
    case (Cons j js)
    have "node_at js (step_child part n) \<noteq> None \<longleftrightarrow>
        (case map_of (children n) (normalized_part part) of None \<Rightarrow> js = [] | Some c \<Rightarrow> node_at js c \<noteq> None)"
      by (cases js) (auto simp: step_child_def Let_def split: option.splits)
    then show ?thesis
      using Cons.IH [of js "step_child part n"] Cons
      by (auto simp: add_parts_Cons update_conv' simp del: add_parts.simps split: option.splits)
  qed simp
qed

definition endpoint_of :: "'h RouterNode \<Rightarrow> size_t \<times> 'h option" where
  "endpoint_of n = (key n, handler n)"

lemma endpoint_of_add_parts:
  "node_at ks (add_parts k h parts n) = Some m \<Longrightarrow>
     endpoint_of m = (if ks = map normalized_part parts then (k, h)
       else case node_at ks n of Some m' \<Rightarrow> endpoint_of m' | None \<Rightarrow> (0, None))"
proof (induction parts arbitrary: ks n)
  case Nil
  then show ?case by (cases ks) (auto simp: endpoint_of_def)
next
  case (Cons part parts)
  show ?case
  proof (cases ks)
    case Nil
    with Cons.prems show ?thesis by (auto simp: add_parts_Cons endpoint_of_def simp del: add_parts.simps)
  next
    case (Cons j js)
    show ?thesis
    proof (cases "j = normalized_part part")
      case True
      with Cons Cons.prems have "node_at js (add_parts k h parts (step_child part n)) = Some m"
        by (auto simp: add_parts_Cons update_conv' simp del: add_parts.simps)
      from Cons.IH [OF this] True Cons show ?thesis
        by (cases js) (auto simp: step_child_def Let_def endpoint_of_def split: option.splits)
    next
      case False
      with Cons Cons.prems show ?thesis
        by (auto simp: add_parts_Cons update_conv' simp del: add_parts.simps split: option.splits)
    qed
  qed
qed

lemma add_routes_nodes:
  assumes "add_routes regs new_node = Inr root"
  shows "node_at ks root \<noteq> None \<longleftrightarrow> ks = [] \<or> known (patterns regs) ks"
    and "node_at ks root = Some m \<Longrightarrow> endpoint_of m =
      (case map_of (rev (endpoints regs)) ks of None \<Rightarrow> (0, None) | Some e \<Rightarrow> e)"
  using assms
proof (induction regs arbitrary: root m rule: rev_induct)
  case Nil
  {
    case 1
    then show ?case by (cases ks) (auto simp: add_routes_def patterns_def known_def)
  next
    case 2
    then show ?case by (cases ks) (auto simp: add_routes_def endpoints_def endpoint_of_def)
  }
next
  case (snoc r regs)
  obtain k path h where r: "r = (k, path, h)" by (cases r) auto
  {
    case 1
    then obtain mid where mid: "add_routes regs new_node = Inr mid" "AddRoute k path h mid = Inr root"
      by (auto simp: r add_routes_snoc)
    have "node_at ks root \<noteq> None \<longleftrightarrow> node_at ks mid \<noteq> None \<or> prefix ks (pattern_of path)"
      using AddRoute_Inr [OF mid(2)] by (simp only: node_at_add_parts_iff pattern_of_def)
    with snoc(1) [OF mid(1)] show ?case
      by (simp add: r patterns_def known_append) (auto simp: known_def)
  next
    case 2
    then obtain mid where mid: "add_routes regs new_node = Inr mid" "AddRoute k path h mid = Inr root"
      by (auto simp: r add_routes_snoc)
    from 2(1) AddRoute_Inr [OF mid(2)]
    have m: "node_at ks (add_parts k h (splits (CHR ''/'') path) mid) = Some m" by simp
    show ?case
    proof (cases "ks = pattern_of path")
      case True
      with endpoint_of_add_parts [OF m] show ?thesis by (simp add: r endpoints_def pattern_of_def)
    next
      case False
      have "map_of (rev (endpoints regs)) ks = None" if "node_at ks mid = None"
      proof -
        from that snoc(1) [OF mid(1)] have "\<not> known (patterns regs) ks" by simp
        then show ?thesis
          by (force simp: known_def list_ex_iff patterns_def endpoints_def map_of_eq_None_iff)
      qed
      with endpoint_of_add_parts [OF m] False snoc(2) [OF _ mid(1)] show ?thesis
        by (auto simp: r endpoints_def pattern_of_def split: option.splits)
    qed
  }
qed

section \<open>The match is the resolution\<close>

lemma node_at_snoc: "node_at ks root = Some n \<Longrightarrow> node_at (ks @ [k]) root = map_of (children n) k"
  by (induction ks arbitrary: root) (auto split: option.splits)

lemma wf_node_at: "wf_node root \<Longrightarrow> node_at ks root = Some n \<Longrightarrow> wf_node n"
  by (induction ks arbitrary: root) (auto dest: wf_child split: option.splits)

lemma match_parts_resolve:
  assumes "add_routes regs new_node = Inr root" and "node_at ks root = Some n"
  shows "fst (match_parts parts n params) =
    (case resolve (patterns regs) ks parts of None \<Rightarrow> None | Some js \<Rightarrow> node_at js root)"
  using assms(2)
proof (induction parts arbitrary: ks n params)
  case (Cons part parts)
  have "wf_node root" using add_routes_wf [OF assms(1)] by simp
  then have wf: "wf_node n" using Cons.prems by (rule wf_node_at)
  have child: "map_of (children n) k = node_at (ks @ [k]) root" for k
    using node_at_snoc [OF Cons.prems] by simp
  have known: "known (patterns regs) (ks @ [k]) \<longleftrightarrow> node_at (ks @ [k]) root \<noteq> None" for k
    using add_routes_nodes(1) [OF assms(1), of "ks @ [k]"] by simp
  show ?case
  proof (cases "part \<noteq> param_key \<and> node_at (ks @ [part]) root \<noteq> None")
    case True
    then obtain c where c: "node_at (ks @ [part]) root = Some c" by blast
    from Cons.IH [OF c] True c show ?thesis by (simp add: match_parts_Cons [OF wf] child known del: match_parts.simps)
  next
    case literal: False
    show ?thesis
    proof (cases "node_at (ks @ [param_key]) root")
      case None
      with literal show ?thesis by (auto simp: match_parts_Cons [OF wf] child known simp del: match_parts.simps)
    next
      case (Some c)
      from Cons.IH [OF Some] literal Some show ?thesis
        by (auto simp: match_parts_Cons [OF wf] child known simp del: match_parts.simps)
    qed
  qed
qed simp

lemma match_parts_wf_total:
  "\<exists>ps. match_parts parts n params = (fst (match_parts parts n params), ps)"
  by (metis prod.collapse)

lemma MatchRoute_resolves:
  assumes "add_routes regs new_node = Inr root"
  shows "\<exists>params'. MatchRoute path params root = Inr (route_answer regs path, params')"
proof -
  let ?parts = "splits (CHR ''/'') path"
  have *: "fst (match_parts ?parts root params) =
      (case resolve (patterns regs) [] ?parts of None \<Rightarrow> None | Some js \<Rightarrow> node_at js root)"
    by (rule match_parts_resolve [OF assms]) simp
  obtain ps where ps: "match_parts ?parts root params = (fst (match_parts ?parts root params), ps)"
    using match_parts_wf_total by blast
  show ?thesis
  proof (cases "resolve (patterns regs) [] ?parts")
    case None
    with * ps show ?thesis by (auto simp: MatchRoute_eq route_answer_def)
  next
    case (Some ks)
    have known: "resolve pats js parts = Some is \<Longrightarrow> js = [] \<or> known pats js \<Longrightarrow> is = [] \<or> known pats is"
      for pats js parts "is"
      by (induction pats js parts rule: resolve.induct) (auto split: if_splits)
    from known [OF Some] have "ks = [] \<or> known (patterns regs) ks" by simp
    then obtain m where m: "node_at ks root = Some m"
      using add_routes_nodes(1) [OF assms, of ks] by auto
    from add_routes_nodes(2) [OF assms m] have "node_match m = route_answer regs path"
      by (auto simp: endpoint_of_def route_answer_def Some node_match_def split: option.splits)
    with * ps Some m show ?thesis by (auto simp: MatchRoute_eq)
  qed
qed

text \<open>C1. Looking a request up in the trie gives what resolving it against the list of registrations
  gives: segment by segment a literal continuation of some pattern, else a parameter, without going
  back; then the key and the handler registered last for the pattern reached, or no handler when the
  pattern reached is only a part of a longer one.\<close>

theorem match_is_resolution:
  assumes "add_routes regs new_node = Inr root"
  shows "\<exists>params'. MatchRoute path params root = Inr (route_answer regs path, params')"
  using assms by (rule MatchRoute_resolves)

theorem match_is_resolution_witness:
  "\<exists>root params'. add_routes [(1, ''/a/{x}'', Some True), (2, ''/a/b'', Some False)] new_node = Inr root \<and>
     MatchRoute ''/a/c'' [] root =
       Inr (route_answer [(1, ''/a/{x}'', Some True), (2, ''/a/b'', Some False)] ''/a/c'', params')"
proof -
  have "IsValidRoute ''/a/{x}''" "IsValidRoute ''/a/b''" by code_simp+
  then obtain root where "add_routes [(1, ''/a/{x}'', Some True), (2, ''/a/b'', Some False)] new_node = Inr root"
    by (auto simp: add_routes_def AddRoute_eq simp del: add_parts.simps)
  with match_is_resolution [OF this] show ?thesis by blast
qed

section \<open>The order of registrations\<close>

lemma known_cong: "set ps = set qs \<Longrightarrow> known ps = known qs"
  by (simp add: known_def list_ex_iff fun_eq_iff)

lemma resolve_cong: "known ps = known qs \<Longrightarrow> resolve ps ks parts = resolve qs ks parts"
  by (induction ps ks parts rule: resolve.induct) auto

lemma fst_endpoints: "map fst (endpoints regs) = patterns regs"
  by (simp add: endpoints_def patterns_def case_prod_unfold)

lemma route_answer_cong:
  assumes "set regs = set regs'" and "distinct (patterns regs)" and "distinct (patterns regs')"
  shows "route_answer regs path = route_answer regs' path"
proof -
  have "set (patterns regs) = set (patterns regs')" using assms(1) by (simp add: patterns_def)
  then have "resolve (patterns regs) = resolve (patterns regs')"
    using resolve_cong [OF known_cong] by blast
  moreover have "map_of (rev (endpoints regs)) = map_of (rev (endpoints regs'))"
  proof (rule map_of_eqI)
    show "set (map fst (rev (endpoints regs))) = set (map fst (rev (endpoints regs')))"
      using \<open>set (patterns regs) = set (patterns regs')\<close> by (simp add: fst_endpoints [symmetric])
    have e: "set (endpoints regs) = set (endpoints regs')" using assms(1) by (simp add: endpoints_def)
    have d: "distinct (map fst (rev (endpoints regs)))" "distinct (map fst (rev (endpoints regs')))"
      by (simp_all only: rev_map [symmetric] fst_endpoints distinct_rev assms(2,3))
    show "\<forall>x \<in> set (map fst (rev (endpoints regs))).
        map_of (rev (endpoints regs)) x = map_of (rev (endpoints regs')) x"
      using map_of_inject_set [OF d] e by simp
  qed
  ultimately show ?thesis unfolding route_answer_def by metis
qed

text \<open>C29. The order in which routes are registered does not matter as long as no pattern is registered
  twice: the same routes in another order find the same key and handler for every request.\<close>

theorem registration_order_irrelevant:
  assumes "add_routes regs new_node = Inr root" and "add_routes regs' new_node = Inr root'"
    and "set regs = set regs'" and "distinct (patterns regs)" and "distinct (patterns regs')"
  shows "\<exists>r ps ps'. MatchRoute path params root = Inr (r, ps) \<and> MatchRoute path params root' = Inr (r, ps')"
  using MatchRoute_resolves [OF assms(1), of path params] MatchRoute_resolves [OF assms(2), of path params]
    route_answer_cong [OF assms(3-5), of path] by metis

theorem registration_order_irrelevant_witness:
  "\<exists>root root' r ps ps'. add_routes [(1, ''/a/{x}'', Some True), (2, ''/{y}/b'', Some False)] new_node = Inr root \<and>
     add_routes [(2, ''/{y}/b'', Some False), (1, ''/a/{x}'', Some True)] new_node = Inr root' \<and>
     MatchRoute ''/c/b'' [] root = Inr (r, ps) \<and> MatchRoute ''/c/b'' [] root' = Inr (r, ps')"
proof -
  let ?a = "(1, ''/a/{x}'', Some True) :: bool registration" and ?b = "(2, ''/{y}/b'', Some False) :: bool registration"
  have "IsValidRoute ''/a/{x}''" "IsValidRoute ''/{y}/b''" by code_simp+
  then obtain root root' where roots: "add_routes [?a, ?b] new_node = Inr root" "add_routes [?b, ?a] new_node = Inr root'"
    by (auto simp: add_routes_def AddRoute_eq simp del: add_parts.simps)
  have "pattern_of ''/a/{x}'' \<noteq> pattern_of ''/{y}/b''" by code_simp
  then have "\<exists>r ps ps'. MatchRoute ''/c/b'' [] root = Inr (r, ps) \<and> MatchRoute ''/c/b'' [] root' = Inr (r, ps')"
    by (intro registration_order_irrelevant [OF roots]) (auto simp: patterns_def)
  with roots show ?thesis by blast
qed

section \<open>The paths that are found\<close>

lemma resolve_known:
  "resolve pats ks parts = Some js \<Longrightarrow> ks = [] \<or> known pats ks \<Longrightarrow>
     \<exists>is. js = ks @ is \<and> pattern_admits is parts \<and> (js = [] \<or> known pats js)"
proof (induction pats ks parts rule: resolve.induct)
  case (1 pats ks)
  then show ?case by (auto simp: pattern_admits_def)
next
  case (2 pats ks part parts)
  show ?case
  proof (cases "part \<noteq> param_key \<and> known pats (ks @ [part])")
    case True
    with 2 obtain rest where "js = (ks @ [part]) @ rest" "pattern_admits rest parts" "js = [] \<or> known pats js" by auto
    with True show ?thesis by (intro exI [of _ "part # rest"]) (simp add: pattern_admits_def segment_admits_def)
  next
    case False
    with "2.prems" have p: "known pats (ks @ [param_key])" "segment_admits param_key part"
      "resolve pats (ks @ [param_key]) parts = Some js"
      by (auto split: if_splits)
    with "2.IH"(2) [OF False] obtain rest where
      "js = (ks @ [param_key]) @ rest" "pattern_admits rest parts" "js = [] \<or> known pats js" by auto
    with p show ?thesis by (intro exI [of _ "param_key # rest"]) (simp add: pattern_admits_def)
  qed
qed

lemma ident_route_char: "ident_char c \<Longrightarrow> route_char c"
  by (auto simp: in_class_def in_range_def ident_class_def route_class_def alnum_ranges_def)

lemma normalized_part_nonempty: "normalized_part x \<noteq> param_key \<Longrightarrow> normalized_part x = x"
  by (auto simp: normalized_part_def split: if_splits)

text \<open>C28. The router finds nothing for a path that has not the form of a route itself: a path that is found
  is a sequence of non-empty segments of permitted characters, each after a slash. So a trailing slash,
  a double slash or a missing first slash is never matched.\<close>

theorem found_path_form:
  assumes "add_routes regs new_node = Inr root" and "MatchRoute path params root = Inr (r, params')"
    and "\<not> IsEmpty r"
  shows "\<exists>segs. path = slash_path segs \<and> route_segments segs"
proof -
  let ?parts = "splits (CHR ''/'') path"
  from MatchRoute_resolves [OF assms(1), of path params] assms(2) have "r = route_answer regs path" by simp
  with assms(3) obtain ks where res: "resolve (patterns regs) [] ?parts = Some ks"
    by (auto simp: route_answer_def split: option.splits)
  from resolve_known [OF this] have adm: "pattern_admits ks ?parts" and "ks = [] \<or> known (patterns regs) ks" by auto
  moreover have "ks \<noteq> []" using adm by (auto simp: pattern_admits_def)
  ultimately obtain k q h where q: "(k, q, h) \<in> set regs" "prefix ks (pattern_of q)"
    by (auto simp: known_def list_ex_iff patterns_def)
  have "IsValidRoute q"
    using assms(1) q(1)
  proof (induction regs arbitrary: root rule: rev_induct)
    case (snoc x xs)
    then show ?case by (cases x) (auto simp: add_routes_snoc dest: AddRoute_Inr)
  qed simp
  then obtain qs where qs: "splits (CHR ''/'') q = [] # qs" "route_segments qs" by (rule valid_route_splits)
  from q(2) qs(1) obtain js rest where "pattern_of q = [] # map normalized_part qs"
    "ks = [] # js" "map normalized_part qs = js @ rest"
    using \<open>ks \<noteq> []\<close> by (cases ks) (auto simp: pattern_of_def prefix_def)
  with adm obtain p0 segs where parts: "?parts = p0 # segs" "segment_admits [] p0" "pattern_admits js segs"
    by (auto simp: pattern_admits_def list_all2_Cons1)
  have "[] \<noteq> param_key" by (simp add: param_key_def)
  with parts(2) have "p0 = []" by (simp add: segment_admits_def)
  have "s \<noteq> [] \<and> (\<forall>c \<in> set s. route_char c)" if s: "s \<in> set segs" for s
  proof -
    from parts(3) s obtain j where j: "j \<in> set js" "segment_admits j s"
      unfolding pattern_admits_def by (metis in_set_conv_nth list_all2_conv_all_nth)
    show ?thesis
    proof (cases "j = param_key")
      case True
      with j(2) show ?thesis by (auto simp: segment_admits_def ident_route_char)
    next
      case False
      from j(1) \<open>map normalized_part qs = js @ rest\<close> have "j \<in> set (map normalized_part qs)" by simp
      then obtain x where "x \<in> set qs" "j = normalized_part x" by auto
      with False normalized_part_nonempty [of x] j(2) have "s \<in> set qs" by (simp add: segment_admits_def)
      with qs(2) show ?thesis by (simp add: route_segments_def)
    qed
  qed
  then have "route_segments segs" by (simp add: route_segments_def)
  moreover have "path = slash_path segs"
  proof (cases "segs = []")
    case True
    with parts(1) \<open>p0 = []\<close> joined_splits [of "CHR ''/''" path] show ?thesis by simp
  next
    case False
    with parts(1) \<open>p0 = []\<close> joined_splits [of "CHR ''/''" path] show ?thesis
      by (simp add: slash_path_joined joined_Cons)
  qed
  ultimately show ?thesis by blast
qed

theorem found_path_form_witness:
  "\<exists>root. add_routes [(1, ''/a/{x}'', Some True)] new_node = Inr root \<and>
     MatchRoute ''/a/c'' [] root = Inr (\<lparr>executor = Some (Some True), result_key = Some 1\<rparr>, [(''x'', ''c'')]) \<and>
     (\<exists>segs. ''/a/c'' = slash_path segs \<and> route_segments segs)"
proof -
  let ?root = "add_parts 1 (Some True) [[], ''a'', ''{x}''] new_node"
  have "IsValidRoute ''/a/{x}''" by code_simp
  then have root: "add_routes [(1, ''/a/{x}'', Some True)] new_node = Inr ?root"
    by (simp add: add_routes_def AddRoute_eq del: add_parts.simps)
  have parts: "normalized_part [] = []" "normalized_part ''a'' = ''a''" "normalized_part ''{x}'' = param_key"
    "part_param_name ''{x}'' = ''x''" "[] \<noteq> param_key" "''a'' \<noteq> param_key" "''c'' \<noteq> param_key"
    "regex_match ''c'' param_value_regex" by code_simp+
  have match: "MatchRoute ''/a/c'' [] ?root = Inr (\<lparr>executor = Some (Some True), result_key = Some 1\<rparr>, [(''x'', ''c'')])"
    by (simp add: MatchRoute_eq node_match_def parts Let_def)
  have "\<exists>segs. ''/a/c'' = slash_path segs \<and> route_segments segs"
    by (rule found_path_form [OF root match]) (simp add: IsEmpty_def)
  with root match show ?thesis by blast
qed

end
