(* ===== verification/Single_Server.thy ===== *)
theory Single_Server
  imports Net_Calls Dispatcher
begin

text \<open>
  \<open>http::H2OServer\<close> (\<open>src/piconaut/http/http_single_server.{h,cc}\<close>) and \<open>MakePiconautHandler\<close>
  (\<open>src/piconaut/handlers/handler_base.h\<close>): construction with the global handler, registration of
  routes, \<open>Start\<close> up to the event loop, the accept callback, \<open>Stop\<close> and the destructor.
\<close>

section \<open>State and construction\<close>

text \<open>
  \<open>accept_hosts\<close> and \<open>accept_context\<close> are the two fields of \<open>accept_ctx_\<close> the code sets;
  \<open>listener_data\<close> tells whether \<open>listeners_->data\<close> points to it.
\<close>

record H2OServer =
  host :: string
  port :: int
  server_name :: string
  config_server_name :: "string option"
  context_loop :: pointer
  loops :: pointer
  listeners :: pointer
  handler_count :: nat
  accept_hosts :: bool
  accept_context :: bool
  listener_data :: bool
  routers :: GlobalDispatcherHandler
  net_calls :: "net_call list"

definition net_do :: "net_call list \<Rightarrow> H2OServer \<Rightarrow> H2OServer" where
  "net_do cs s = s\<lparr>net_calls := net_calls s @ cs\<rparr>"

text \<open>
  \<open>MakePiconautHandler\<close> writes through the pointer that \<open>h2o_create_handler\<close> returned before
  anyone looks at it.
\<close>

definition MakePiconautHandler :: "net_env \<Rightarrow> pointer result" where
  "MakePiconautHandler env = (case create_handler env of
     Ptr p \<Rightarrow> Inr (Ptr p) | _ \<Rightarrow> Inl (Undefined_read ''pico_handler''))"

definition RegisterGlobalHandler :: "net_env \<Rightarrow> H2OServer \<Rightarrow> H2OServer result" where
  "RegisterGlobalHandler env s =
     bind_result (MakePiconautHandler env) (\<lambda>h_handler.
     bind_result (is_null_ptr h_handler) (\<lambda>null.
       if null then Inl (Runtime_error ''Error create handler for global path capture'')
       else Inr ((net_do [C_register_path [], C_create_handler []] s)
         \<lparr>handler_count := handler_count s + 1\<rparr>)))"

definition make_H2OServer :: "net_env \<Rightarrow> string \<Rightarrow> int \<Rightarrow> string \<Rightarrow> H2OServer result" where
  "make_H2OServer env h p name =
     (let s = \<lparr>host = h, port = p, server_name = name, config_server_name = None,
         context_loop = Indeterminate, loops = Indeterminate, listeners = Indeterminate,
         handler_count = 0, accept_hosts = False, accept_context = False, listener_data = False,
         routers = make_GlobalDispatcherHandler, net_calls = [C_config_init, C_register_host h p]\<rparr>
      in bind_result (is_null_ptr (register_host env)) (\<lambda>null.
        if null then Inl (Runtime_error ''Failed to register host configuration'')
        else RegisterGlobalHandler env
          (if name \<noteq> [] then s\<lparr>config_server_name := Some name\<rparr> else s)))"

definition RegisterHandler ::
  "(string \<Rightarrow> size_t) \<Rightarrow> string \<Rightarrow> handler_ptr \<Rightarrow> H2OServer \<Rightarrow> H2OServer result" where
  "RegisterHandler hasher path h s =
     bind_result (RegisterRouteHandler hasher path h (routers s)) (\<lambda>g. Inr (s\<lparr>routers := g\<rparr>))"

section \<open>Start, accept, stop\<close>

text \<open>\<open>Start\<close> up to the call of \<open>RunEventLoop\<close>: the state it leaves, and whether it threw.\<close>

definition Start_setup :: "net_env \<Rightarrow> H2OServer \<Rightarrow> H2OServer \<times> unit result" where
  "Start_setup env s =
     (let s0 = s\<lparr>accept_hosts := True, accept_context := False\<rparr>;
          opened = open_listener env (host s) (port s);
          s1 = net_do (fst opened) s0
      in case snd opened of
           Inl e \<Rightarrow> (s1, Inl e)
         | Inr fd \<Rightarrow>
             (let loop = evloop_create env 0;
                  s2 = (net_do [C_evloop_create loop] s1)\<lparr>loops := loop\<rparr>
              in if loop = Null then (s2, Inl (Runtime_error ''Failed to create evloop''))
                 else let
                   s3 = (net_do [C_context_init 0 loop] s2)\<lparr>context_loop := loop\<rparr>;
                   sock = socket_create env 0;
                   s4 = (net_do [C_socket_create loop fd] s3)\<lparr>listeners := sock\<rparr>
                 in if sock = Null then
                      (net_do [C_close fd] s4, Inl (Runtime_error ''Failed to create listener socket''))
                    else (net_do [C_read_start sock]
                            (s4\<lparr>accept_context := True, listener_data := True\<rparr>), Inr ())))"

text \<open>All of \<open>Start\<close>: \<open>None\<close> when the event loop never ends.\<close>

definition Start :: "net_env \<Rightarrow> ('w \<Rightarrow> int \<times> 'w) \<Rightarrow> 'w \<Rightarrow> H2OServer \<Rightarrow> (H2OServer \<times> 'w result) option" where
  "Start env run w s =
     (case Start_setup env s of
        (s', Inl e) \<Rightarrow> Some (s', Inl e)
      | (s', Inr _) \<Rightarrow> map_option (\<lambda>w'. (s', Inr w')) (RunEventLoop run w))"

text \<open>
  The accept callback: \<open>err\<close> from h2o, the socket \<open>h2o_evloop_socket_accept\<close> returns, and the
  accept context that the listener's \<open>data\<close> points to.
\<close>

definition AcceptConnection :: "bool \<Rightarrow> pointer \<Rightarrow> H2OServer \<Rightarrow> H2OServer" where
  "AcceptConnection err sock s =
     (if err then s
      else if sock = Null then s
      else net_do [C_accept (if listener_data s then Some (context_loop s) else None) sock] s)"

definition Stop :: "H2OServer \<Rightarrow> H2OServer" where
  "Stop s = s"

text \<open>
  The destructor closes \<open>listeners_\<close> without a test. \<open>h2o_socket_close\<close> is made for a socket: with a
  null pointer there is no object it could close.
\<close>

definition destroy_H2OServer :: "H2OServer \<Rightarrow> H2OServer result" where
  "destroy_H2OServer s =
     (let s1 = Stop s
      in case listeners s1 of
           Indeterminate \<Rightarrow> Inl (Undefined_read ''listeners_'')
         | Null \<Rightarrow> Inl (Undefined_read ''null listeners_'')
         | Ptr l \<Rightarrow> Inr (net_do [C_socket_close (Ptr l), C_context_dispose, C_config_dispose] s1))"

section \<open>Lemmas\<close>

lemma net_do_sel [simp]:
  "net_calls (net_do cs s) = net_calls s @ cs" "loops (net_do cs s) = loops s"
  "listeners (net_do cs s) = listeners s" "context_loop (net_do cs s) = context_loop s"
  "accept_context (net_do cs s) = accept_context s" "listener_data (net_do cs s) = listener_data s"
  "routers (net_do cs s) = routers s" "host (net_do cs s) = host s" "port (net_do cs s) = port s"
  "accept_hosts (net_do cs s) = accept_hosts s"
  by (simp_all add: net_do_def)

lemma make_H2OServer_state:
  assumes "make_H2OServer env h p name = Inr s"
  shows "listeners s = Indeterminate \<and> loops s = Indeterminate \<and>
    routers s = make_GlobalDispatcherHandler \<and> host s = h \<and> port s = p \<and> open_fds (net_calls s) = []"
  using assms
  by (auto simp: make_H2OServer_def RegisterGlobalHandler_def Let_def result_simps net_do_def
      open_fds_def split: if_splits)

lemma Start_setup_fds:
  assumes "open_fds (net_calls s) = []"
  shows "open_fds (net_calls (fst (Start_setup env s))) =
    (case snd (Start_setup env s) of
       Inr _ \<Rightarrow> [socket_fd env]
     | Inl e \<Rightarrow> if e = Runtime_error ''Failed to create evloop'' then [socket_fd env] else [])"
  using assms
  by (auto simp: Start_setup_def Let_def open_listener_def open_fds_append)

lemma Start_setup_ready:
  assumes "Start_setup env s = (s', Inr u)"
  shows "loops s' = evloop_create env 0 \<and> context_loop s' = evloop_create env 0 \<and>
    listeners s' = socket_create env 0 \<and> listeners s' \<noteq> Null \<and> listener_data s' \<and>
    accept_context s' \<and> accept_hosts s'"
  using assms by (auto simp: Start_setup_def Let_def split: sum.splits if_splits)

lemma open_listener_error:
  "snd (open_listener env h p) = Inl e \<Longrightarrow> e \<noteq> Runtime_error ''Failed to create listener socket''"
  by (auto simp: open_listener_def Let_def split: if_splits)

text \<open>After a failed \<open>Start\<close> the listener is null when its socket could not be created; every other
  failure comes before the assignment.\<close>

lemma Start_setup_failed:
  assumes "Start_setup env s = (s', Inl e)"
  shows "listeners s' = (if e = Runtime_error ''Failed to create listener socket'' then Null else listeners s)"
  using assms open_listener_error [of env "host s" "port s"]
  by (auto simp: Start_setup_def Let_def split: sum.splits if_splits)

section \<open>Properties\<close>

text \<open>An environment in which everything succeeds, and one in which the address is in use.\<close>

definition good_env :: net_env where
  "good_env = \<lparr>socket_fd = 3, bind_rc = 0, listen_rc = 0, inet_pton = (\<lambda>h. Some 0), evloop_create = (\<lambda>i. Ptr 1),
     socket_create = (\<lambda>i. Ptr 2), register_host = Ptr 4, create_handler = Ptr 5\<rparr>"

definition busy_env :: net_env where
  "busy_env = good_env\<lparr>bind_rc := -1\<rparr>"

text \<open>C36. Descriptors: when \<open>Start\<close> of a newly constructed server throws, the listening descriptor has
  been closed again, except when the event loop could not be created: then it stays open. When it
  succeeds exactly the listening descriptor is open.\<close>

theorem start_closes_descriptor:
  assumes "make_H2OServer env h p name = Inr s"
  shows "open_fds (net_calls (fst (Start_setup env s))) =
    (case snd (Start_setup env s) of
       Inr _ \<Rightarrow> [socket_fd env]
     | Inl e \<Rightarrow> if e = Runtime_error ''Failed to create evloop'' then [socket_fd env] else [])"
  using make_H2OServer_state [OF assms] by (intro Start_setup_fds) simp

theorem start_closes_descriptor_witness:
  "\<exists>s. make_H2OServer busy_env ''h'' 80 [] = Inr s \<and>
    open_fds (net_calls (fst (Start_setup busy_env s))) =
    (case snd (Start_setup busy_env s) of
       Inr _ \<Rightarrow> [socket_fd busy_env]
     | Inl e \<Rightarrow> if e = Runtime_error ''Failed to create evloop'' then [socket_fd busy_env] else [])"
proof -
  have "\<exists>s. make_H2OServer busy_env ''h'' 80 [] = Inr s"
    by (simp add: make_H2OServer_def RegisterGlobalHandler_def MakePiconautHandler_def busy_env_def good_env_def
        is_null_ptr_def Let_def)
  then obtain s where s: "make_H2OServer busy_env ''h'' 80 [] = Inr s" by blast
  from s start_closes_descriptor [OF s] show ?thesis by (intro exI [of _ s] conjI)
qed

text \<open>C37. The life of a server: once \<open>Start\<close> has reached the event loop, an accepted connection is handed
  to h2o with the context of the loop that was created, and the destructor closes the listener that was
  created. Without a \<open>Start\<close>, and after every \<open>Start\<close> that threw, the destructor is undefined: it
  closes a null pointer when the listener socket could not be created, and otherwise a pointer that
  was never initialised.\<close>

theorem server_life_cycle:
  assumes "make_H2OServer env h p name = Inr s" and "sock \<noteq> Null" and "socket_create env 0 \<noteq> Indeterminate"
  shows "destroy_H2OServer s = Inl (Undefined_read ''listeners_'') \<and>
    (case Start_setup env s of
       (s', Inr _) \<Rightarrow>
         net_calls (AcceptConnection False sock s') = net_calls s' @ [C_accept (Some (evloop_create env 0)) sock] \<and>
         destroy_H2OServer s' = Inr (net_do [C_socket_close (socket_create env 0), C_context_dispose, C_config_dispose] s')
     | (s', Inl e) \<Rightarrow>
         destroy_H2OServer s' = Inl (Undefined_read
           (if e = Runtime_error ''Failed to create listener socket'' then ''null listeners_'' else ''listeners_'')))"
proof -
  note st = make_H2OServer_state [OF assms(1)]
  have fresh: "destroy_H2OServer s = Inl (Undefined_read ''listeners_'')"
    using st by (simp add: destroy_H2OServer_def Stop_def)
  obtain s' r where sr: "Start_setup env s = (s', r)" by (cases "Start_setup env s")
  show ?thesis
  proof (cases r)
    case (Inl e)
    from Start_setup_failed [of env s s' e] sr Inl st
    have "destroy_H2OServer s' = Inl (Undefined_read
        (if e = Runtime_error ''Failed to create listener socket'' then ''null listeners_'' else ''listeners_''))"
      by (simp add: destroy_H2OServer_def Stop_def)
    with fresh sr Inl show ?thesis by simp
  next
    case (Inr u)
    note ready = Start_setup_ready [of env s s' u]
    have "destroy_H2OServer s' = Inr (net_do [C_socket_close (socket_create env 0), C_context_dispose, C_config_dispose] s')"
      using ready sr Inr assms(3) by (cases "socket_create env 0") (auto simp: destroy_H2OServer_def Stop_def)
    with fresh ready sr Inr assms(2) show ?thesis by (simp add: AcceptConnection_def)
  qed
qed

text \<open>An environment in which only the listener socket cannot be created.\<close>

definition no_socket_env :: net_env where
  "no_socket_env = good_env\<lparr>socket_create := (\<lambda>i. Null)\<rparr>"

theorem server_life_cycle_witness:
  "\<exists>s. make_H2OServer no_socket_env ''h'' 80 [] = Inr s \<and> destroy_H2OServer s = Inl (Undefined_read ''listeners_'') \<and>
    destroy_H2OServer (fst (Start_setup no_socket_env s)) = Inl (Undefined_read ''null listeners_'')"
proof -
  have "\<exists>s. make_H2OServer no_socket_env ''h'' 80 [] = Inr s"
    by (simp add: make_H2OServer_def RegisterGlobalHandler_def MakePiconautHandler_def no_socket_env_def good_env_def
        is_null_ptr_def Let_def)
  then obtain s where s: "make_H2OServer no_socket_env ''h'' 80 [] = Inr s" by blast
  have "snd (Start_setup no_socket_env s) = Inl (Runtime_error ''Failed to create listener socket'')"
    by (simp add: Start_setup_def Let_def no_socket_env_def good_env_def open_listener_def)
  then obtain s' where s': "Start_setup no_socket_env s = (s', Inl (Runtime_error ''Failed to create listener socket''))"
    by (cases "Start_setup no_socket_env s") auto
  have "socket_create no_socket_env 0 \<noteq> Indeterminate" by (simp add: no_socket_env_def)
  from server_life_cycle [OF s _ this, of "Ptr 9"] s s' show ?thesis by (intro exI [of _ s]) simp
qed

end
