(* ===== verification/Signal_Handler.thy ===== *)
theory Signal_Handler
  imports Pico_Base
begin

text \<open>
  \<open>sys::SignalHandler\<close> (\<open>src/piconaut/sys/signal_handler.h\<close>). libuv is a parameter: the codes
  its \<open>uv_signal_init\<close> and \<open>uv_signal_start\<close> return; the calls are recorded in order. The ten
  handles of the class are named by their signal.
\<close>

section \<open>Signals and handles\<close>

datatype SignalType =
    SIGINT_SIGNAL | SIGTERM_SIGNAL | SIGHUP_SIGNAL | SIGQUIT_SIGNAL | SIGUSR1_SIGNAL
  | SIGUSR2_SIGNAL | SIGABRT_SIGNAL | SIGFPE_SIGNAL | SIGILL_SIGNAL | SIGSEGV_SIGNAL
  | Other_signal int

text \<open>The Linux numbers, which the member comments give.\<close>

primrec signal_number :: "SignalType \<Rightarrow> int" where
  "signal_number SIGINT_SIGNAL = 2"
| "signal_number SIGTERM_SIGNAL = 15"
| "signal_number SIGHUP_SIGNAL = 1"
| "signal_number SIGQUIT_SIGNAL = 3"
| "signal_number SIGUSR1_SIGNAL = 10"
| "signal_number SIGUSR2_SIGNAL = 12"
| "signal_number SIGABRT_SIGNAL = 6"
| "signal_number SIGFPE_SIGNAL = 8"
| "signal_number SIGILL_SIGNAL = 4"
| "signal_number SIGSEGV_SIGNAL = 11"
| "signal_number (Other_signal n) = n"

text \<open>\<open>static_cast<SignalType>(signum)\<close>\<close>

definition signal_of :: "int \<Rightarrow> SignalType" where
  "signal_of n =
     (if n = 2 then SIGINT_SIGNAL else if n = 15 then SIGTERM_SIGNAL else if n = 1 then SIGHUP_SIGNAL
      else if n = 3 then SIGQUIT_SIGNAL else if n = 10 then SIGUSR1_SIGNAL
      else if n = 12 then SIGUSR2_SIGNAL else if n = 6 then SIGABRT_SIGNAL
      else if n = 8 then SIGFPE_SIGNAL else if n = 4 then SIGILL_SIGNAL
      else if n = 11 then SIGSEGV_SIGNAL else Other_signal n)"

text \<open>A handle member, named by its signal.\<close>

type_synonym handle = SignalType

datatype uv_call =
    Uv_loop_new
  | Uv_signal_init handle
  | Uv_signal_start handle int
  | Uv_signal_stop handle
  | Uv_close handle
  | Uv_stop
  | Uv_run_thread
  | Uv_join

record uv_env =
  init_code :: "handle \<Rightarrow> int"
  start_code :: "handle \<Rightarrow> int"

section \<open>The class\<close>

text \<open>
  \<open>data_set\<close> are the handles whose \<open>data\<close> is the object; the callback is what it does to the
  program's state \<open>'p\<close>; \<open>signals\<close> is the map that \<open>StopAllSignals\<close> walks.
\<close>

record 'p SignalHandler =
  callback :: "(SignalType \<Rightarrow> 'p \<Rightarrow> 'p) option"
  signals :: "(SignalType \<times> handle) list"
  is_run :: bool
  thread_joinable :: bool
  data_set :: "handle list"
  uv_calls :: "uv_call list"
  sig_errors :: "string list"

definition uv_do :: "uv_call list \<Rightarrow> 'p SignalHandler \<Rightarrow> 'p SignalHandler" where
  "uv_do cs s = s\<lparr>uv_calls := uv_calls s @ cs\<rparr>"

definition log_error :: "string \<Rightarrow> 'p SignalHandler \<Rightarrow> 'p SignalHandler" where
  "log_error m s = s\<lparr>sig_errors := sig_errors s @ [m]\<rparr>"

primrec GetSignalHandle :: "SignalType \<Rightarrow> handle option" where
  "GetSignalHandle SIGINT_SIGNAL = Some SIGINT_SIGNAL"
| "GetSignalHandle SIGTERM_SIGNAL = Some SIGTERM_SIGNAL"
| "GetSignalHandle SIGHUP_SIGNAL = Some SIGHUP_SIGNAL"
| "GetSignalHandle SIGQUIT_SIGNAL = Some SIGQUIT_SIGNAL"
| "GetSignalHandle SIGUSR1_SIGNAL = Some SIGUSR1_SIGNAL"
| "GetSignalHandle SIGUSR2_SIGNAL = Some SIGUSR2_SIGNAL"
| "GetSignalHandle SIGABRT_SIGNAL = Some SIGABRT_SIGNAL"
| "GetSignalHandle SIGFPE_SIGNAL = Some SIGFPE_SIGNAL"
| "GetSignalHandle SIGILL_SIGNAL = Some SIGILL_SIGNAL"
| "GetSignalHandle SIGSEGV_SIGNAL = Some SIGSEGV_SIGNAL"
| "GetSignalHandle (Other_signal n) = None"

definition InitializeSignal :: "uv_env \<Rightarrow> SignalType \<Rightarrow> 'p SignalHandler \<Rightarrow> 'p SignalHandler" where
  "InitializeSignal env signum s =
     (case GetSignalHandle signum of
        None \<Rightarrow> log_error (''Unsupported signal: '' @ int_text (signal_number signum)) s
      | Some h \<Rightarrow>
          let s1 = uv_do [Uv_signal_init h] s
          in if init_code env h \<noteq> 0
             then log_error (''Failed to initialize signal handler for signal: '' @ int_text (signal_number signum)) s1
             else s1\<lparr>data_set := List.insert h (data_set s1)\<rparr>)"

definition StartSignal :: "uv_env \<Rightarrow> SignalType \<Rightarrow> 'p SignalHandler \<Rightarrow> 'p SignalHandler" where
  "StartSignal env signum s =
     (case GetSignalHandle signum of
        None \<Rightarrow> log_error (''Unsupported signal: '' @ int_text (signal_number signum)) s
      | Some h \<Rightarrow>
          let s1 = uv_do [Uv_signal_start h (signal_number signum)] s
          in if start_code env h \<noteq> 0
             then log_error (''Failed to start signal handler for signal: '' @ int_text (signal_number signum)) s1 else s1)"

definition InitializeDefaultSignals :: "uv_env \<Rightarrow> 'p SignalHandler \<Rightarrow> 'p SignalHandler" where
  "InitializeDefaultSignals env s =
     StartSignal env SIGTERM_SIGNAL (StartSignal env SIGINT_SIGNAL
       (InitializeSignal env SIGTERM_SIGNAL (InitializeSignal env SIGINT_SIGNAL s)))"

definition make_SignalHandler :: "uv_env \<Rightarrow> 'p SignalHandler" where
  "make_SignalHandler env = InitializeDefaultSignals env
     \<lparr>callback = None, signals = [], is_run = False, thread_joinable = False, data_set = [],
      uv_calls = [Uv_loop_new], sig_errors = []\<rparr>"

definition StopAllSignals :: "'p SignalHandler \<Rightarrow> 'p SignalHandler" where
  "StopAllSignals s = fold (\<lambda>(signum, h). uv_do [Uv_signal_stop h, Uv_close h]) (signals s) s"

definition sig_Start :: "'p SignalHandler \<Rightarrow> 'p SignalHandler" where
  "sig_Start s = (if is_run s then s
     else (uv_do [Uv_run_thread] (s\<lparr>is_run := True\<rparr>))\<lparr>thread_joinable := True\<rparr>)"

definition sig_Stop :: "'p SignalHandler \<Rightarrow> 'p SignalHandler" where
  "sig_Stop s = StopAllSignals s"

definition sig_Join :: "'p SignalHandler \<Rightarrow> 'p SignalHandler" where
  "sig_Join s = (if thread_joinable s then (uv_do [Uv_join] s)\<lparr>thread_joinable := False\<rparr> else s)"

definition RegisterCallback ::
  "(SignalType \<Rightarrow> 'p \<Rightarrow> 'p) option \<Rightarrow> 'p SignalHandler \<Rightarrow> 'p SignalHandler" where
  "RegisterCallback cb s =
     (case cb of None \<Rightarrow> log_error ''Callback is null.'' s | Some f \<Rightarrow> s\<lparr>callback := Some f\<rparr>)"

definition SetSignalCaptureMode :: "uv_env \<Rightarrow> SignalType list \<Rightarrow> 'p SignalHandler \<Rightarrow> 'p SignalHandler" where
  "SetSignalCaptureMode env sigs s =
     fold (\<lambda>signum t. StartSignal env signum (InitializeSignal env signum t)) sigs s"

text \<open>
  The callback of libuv for a handle: the user callback, when the handle's \<open>data\<close> is the object
  and a callback is registered, then the handle and the loop are stopped.
\<close>

definition OnSignal :: "handle \<Rightarrow> int \<Rightarrow> 'p SignalHandler \<Rightarrow> 'p \<Rightarrow> 'p SignalHandler \<times> 'p" where
  "OnSignal h signum s p =
     (let called = (case callback s of
            Some f \<Rightarrow> if h \<in> set (data_set s) then (s, f (signal_of signum) p)
                      else (log_error (''No callback registered for signal: '' @ int_text signum) s, p)
          | None \<Rightarrow> (log_error (''No callback registered for signal: '' @ int_text signum) s, p))
      in (uv_do [Uv_signal_stop h, Uv_stop] (fst called), snd called))"

text \<open>
  \<open>Run\<close>, the body of the thread, after its loop: \<open>code\<close> is what \<open>uv_run\<close> returns. The callbacks that
  the loop makes before are \<open>OnSignal\<close> steps.
\<close>

definition Run :: "int \<Rightarrow> 'p SignalHandler \<Rightarrow> 'p SignalHandler" where
  "Run code s = (if code \<noteq> 0 then log_error ''Signal monitor failed to run.'' s else s)"

text \<open>
  The destructor: \<open>StopAllSignals\<close>, then the members; the destructor of a joinable
  \<open>std::thread\<close> ends the program.
\<close>

definition destroy_SignalHandler :: "'p SignalHandler \<Rightarrow> 'p SignalHandler result" where
  "destroy_SignalHandler s =
     (let s1 = StopAllSignals s in if thread_joinable s1 then Inl Terminate_called else Inr s1)"

section \<open>The object as a state machine\<close>

text \<open>Every state a program can bring the object into, with the calls of its public interface.\<close>

inductive sig_step :: "uv_env \<Rightarrow> 'p SignalHandler \<Rightarrow> 'p SignalHandler \<Rightarrow> bool" for env where
  start: "sig_step env s (sig_Start s)"
| stop: "sig_step env s (sig_Stop s)"
| join: "sig_step env s (sig_Join s)"
| register: "sig_step env s (RegisterCallback cb s)"
| capture: "sig_step env s (SetSignalCaptureMode env sigs s)"
| loop_end: "is_run s \<Longrightarrow> sig_step env s (Run code s)"
| signal: "h \<in> set (data_set s) \<Longrightarrow> sig_step env s (fst (OnSignal h (signal_number h) s p))"

inductive sig_reachable :: "uv_env \<Rightarrow> 'p SignalHandler \<Rightarrow> bool" for env where
  initial: "sig_reachable env (make_SignalHandler env)"
| next_state: "sig_reachable env s \<Longrightarrow> sig_step env s t \<Longrightarrow> sig_reachable env t"

inductive_cases sig_stepE: "sig_step env s t"

lemma signal_of_number: "signal_of (signal_number (signal_of n)) = signal_of n"
  by (simp add: signal_of_def)

lemma sel_frames [simp]:
  "signals (uv_do cs s) = signals s" "signals (log_error m s) = signals s"
  "is_run (uv_do cs s) = is_run s" "is_run (log_error m s) = is_run s"
  "thread_joinable (uv_do cs s) = thread_joinable s" "thread_joinable (log_error m s) = thread_joinable s"
  "callback (uv_do cs s) = callback s" "callback (log_error m s) = callback s"
  "uv_calls (uv_do cs s) = uv_calls s @ cs" "uv_calls (log_error m s) = uv_calls s"
  "data_set (uv_do cs s) = data_set s" "data_set (log_error m s) = data_set s"
  by (simp_all add: uv_do_def log_error_def)

lemma InitializeSignal_frame [simp]:
  "signals (InitializeSignal env g s) = signals s" "is_run (InitializeSignal env g s) = is_run s"
  "thread_joinable (InitializeSignal env g s) = thread_joinable s"
  by (simp_all add: InitializeSignal_def Let_def split: option.split)

lemma StartSignal_frame [simp]:
  "signals (StartSignal env g s) = signals s" "is_run (StartSignal env g s) = is_run s"
  "thread_joinable (StartSignal env g s) = thread_joinable s"
  by (simp_all add: StartSignal_def Let_def split: option.split)

lemma capture_frame [simp]:
  "signals (SetSignalCaptureMode env gs s) = signals s \<and> is_run (SetSignalCaptureMode env gs s) = is_run s \<and>
   thread_joinable (SetSignalCaptureMode env gs s) = thread_joinable s"
  by (induction gs arbitrary: s) (auto simp: SetSignalCaptureMode_def)

lemma StopAllSignals_empty: "signals s = [] \<Longrightarrow> StopAllSignals s = s"
  by (simp add: StopAllSignals_def)

lemma reachable_no_signals: "sig_reachable env s \<Longrightarrow> signals s = []"
proof (induction rule: sig_reachable.induct)
  case initial
  show ?case by (simp add: make_SignalHandler_def InitializeDefaultSignals_def)
next
  case (next_state s t)
  from next_state(2,3) show ?case
    by (elim sig_stepE)
      (auto simp: sig_Start_def sig_Stop_def sig_Join_def RegisterCallback_def Run_def OnSignal_def Let_def
        StopAllSignals_empty split: option.splits)
qed

text \<open>The number of loop threads a handler has started.\<close>

definition run_threads :: "uv_call list \<Rightarrow> nat" where
  "run_threads cs = length (filter (\<lambda>c. c = Uv_run_thread) cs)"

lemma run_threads_append [simp]: "run_threads (cs @ ds) = run_threads cs + run_threads ds"
  by (simp add: run_threads_def)

lemma run_threads_simps [simp]:
  "run_threads [] = 0"
  "run_threads (c # cs) = (if c = Uv_run_thread then Suc (run_threads cs) else run_threads cs)"
  by (simp_all add: run_threads_def)

lemma run_threads_InitializeSignal [simp]:
  "run_threads (uv_calls (InitializeSignal env g s)) = run_threads (uv_calls s)"
  by (simp add: InitializeSignal_def Let_def split: option.split)

lemma run_threads_StartSignal [simp]:
  "run_threads (uv_calls (StartSignal env g s)) = run_threads (uv_calls s)"
  by (simp add: StartSignal_def Let_def split: option.split)

lemma run_threads_capture [simp]:
  "run_threads (uv_calls (SetSignalCaptureMode env gs s)) = run_threads (uv_calls s)"
  by (induction gs arbitrary: s) (auto simp: SetSignalCaptureMode_def)

lemma reachable_threads:
  "sig_reachable env s \<Longrightarrow>
     run_threads (uv_calls s) = (if is_run s then 1 else 0) \<and> (thread_joinable s \<longrightarrow> is_run s)"
proof (induction rule: sig_reachable.induct)
  case initial
  show ?case by (simp add: make_SignalHandler_def InitializeDefaultSignals_def)
next
  case (next_state s t)
  note none = reachable_no_signals [OF next_state(1)]
  from next_state(2,3) show ?case
    by (elim sig_stepE)
      (auto simp: sig_Start_def sig_Stop_def sig_Join_def RegisterCallback_def Run_def OnSignal_def Let_def
        StopAllSignals_empty none split: option.splits if_splits)
qed

section \<open>Properties\<close>

text \<open>C39. In every state that a program can bring the handler into, \<open>Stop\<close> does nothing at all (the map of
  signals it walks is never filled, so no signal is ever stopped or closed by it); at most one thread
  with the event loop has been started; and the destructor ends the program exactly when that thread
  has not been joined.\<close>

theorem handler_states:
  assumes "sig_reachable env s"
  shows "sig_Stop s = s \<and> run_threads (uv_calls s) \<le> 1 \<and> sig_Start (sig_Start s) = sig_Start s \<and>
    destroy_SignalHandler s = (if thread_joinable s then Inl Terminate_called else Inr s) \<and>
    destroy_SignalHandler (sig_Join s) = Inr (sig_Join s)"
proof -
  note none = reachable_no_signals [OF assms]
  have stop: "StopAllSignals t = t" if "signals t = []" for t :: "'a SignalHandler"
    using that by (rule StopAllSignals_empty)
  have "signals (sig_Join s) = []" "\<not> thread_joinable (sig_Join s)"
    using none by (simp_all add: sig_Join_def)
  then have "destroy_SignalHandler (sig_Join s) = Inr (sig_Join s)"
    by (simp add: destroy_SignalHandler_def stop)
  then show ?thesis
    using reachable_threads [OF assms] none
    by (simp add: sig_Stop_def destroy_SignalHandler_def stop sig_Start_def)
qed

theorem handler_states_witness:
  "let s = sig_Start (make_SignalHandler \<lparr>init_code = (\<lambda>h. 0), start_code = (\<lambda>h. 0)\<rparr>) :: nat SignalHandler
   in sig_Stop s = s \<and> run_threads (uv_calls s) \<le> 1 \<and> sig_Start (sig_Start s) = sig_Start s \<and>
    destroy_SignalHandler s = (if thread_joinable s then Inl Terminate_called else Inr s) \<and>
    destroy_SignalHandler (sig_Join s) = Inr (sig_Join s)"
  unfolding Let_def by (rule handler_states) (rule next_state [OF initial start])

end
