(* ===== verification/App.thy ===== *)
theory App
  imports Json_Statements Single_Server Signal_Handler
begin

text \<open>
  The program \<open>src/main.cc\<close>: the signal callback, the handler \<open>HelloWorldHandler\<close> with the JSON
  document it builds, the routes that are registered, and \<open>main\<close> up to the destruction of the two
  global objects.
\<close>

section \<open>The signal callback\<close>

text \<open>\<open>g_server_\<close> is a nullable \<open>shared_ptr\<close>; the line written to \<open>std::cout\<close> is left out.\<close>

definition CaptureSignalDefault :: "SignalType \<Rightarrow> H2OServer option \<Rightarrow> H2OServer option" where
  "CaptureSignalDefault signum g_server =
     (if signum = SIGINT_SIGNAL \<or> signum = SIGTERM_SIGNAL
      then (case g_server of None \<Rightarrow> None | Some s \<Rightarrow> Some (Stop s))
      else g_server)"

section \<open>HelloWorldHandler\<close>

text \<open>The statements on \<open>json["server"]\<close> and the members after it, in order.\<close>

definition hello_members :: "string \<Rightarrow> string \<Rightarrow> string \<Rightarrow> string \<Rightarrow> string \<Rightarrow> (string list \<times> scalar) list" where
  "hello_members user_agent accept_lang accept_encoding cache_control pragma =
     [([''server'', ''name''], S_cstr ''Piconaut Framework''),
      ([''server'', ''version''], S_cstr ''v0.2.1''),
      ([''status''], S_int 200),
      ([''userAgent''], S_string user_agent),
      ([''acceptLanguage''], S_string accept_lang),
      ([''acceptEncoding''], S_string accept_encoding),
      ([''cacheControl''], S_string cache_control),
      ([''pragma''], S_string pragma)]"

definition hello_params :: "'v rapidjson \<Rightarrow> params \<Rightarrow> 'v ValueBuilder \<Rightarrow> 'v ValueBuilder result" where
  "hello_params R params json =
     bind_result (if length params \<noteq> 0 then create_at R [''params''] json else Inr json)
       (for_result (\<lambda>(name, v). assign_at R [''params'', name] (S_string v)) params)"

definition hello_json ::
  "'v rapidjson \<Rightarrow> (string list \<times> scalar) list \<Rightarrow> params \<Rightarrow> 'v ValueBuilder result" where
  "hello_json R members params =
     bind_result (create_at R [''server''] (make_ValueBuilder R)) (\<lambda>json.
     bind_result (for_result (\<lambda>(ks, v). assign_at R ks v) members json)
       (hello_params R params))"

definition HelloWorldHandler :: "h2o_api \<Rightarrow> 'v rapidjson \<Rightarrow> request_handler" where
  "HelloWorldHandler api R params req =
     bind_result (GetHeader api req ''user-agent'') (\<lambda>user_agent.
     bind_result (GetHeader api req ''accept-encoding'') (\<lambda>accept_encoding.
     bind_result (GetHeader api req ''accept-language'') (\<lambda>accept_lang.
     bind_result (GetHeader api req ''cache-control'') (\<lambda>cache_control.
     bind_result (GetHeader api req ''pragma'') (\<lambda>pragma.
     bind_result (hello_json R (hello_members user_agent accept_lang accept_encoding cache_control pragma)
         params) (\<lambda>json.
     bind_result (SerializeToBytes R json) (\<lambda>buffer.
       Inr (SendJson api buffer 200 req))))))))"

text \<open>The members that the loop over \<open>params\<close> writes.\<close>

definition param_members :: "params \<Rightarrow> (string list \<times> scalar) list" where
  "param_members params = map (\<lambda>(name, v). ([''params'', name], S_string v)) params"

section \<open>main\<close>

text \<open>The patterns, with the handler objects, which all behave the same.\<close>

definition main_routes :: "request_handler \<Rightarrow> (string \<times> handler_ptr) list" where
  "main_routes hello =
     [(''/post'', Some hello),
      (''/post/{id}'', Some hello),
      (''/post/{id}/{slug}'', Some hello),
      (''/{year}/{month}'', Some hello),
      (''/{year}/{month}/post/{id}/{slug}'', Some hello)]"

definition main_port :: int where "main_port = 9066"
definition main_host :: string where "main_host = ''0.0.0.0''"

text \<open>The default argument of the constructor of \<open>H2OServer\<close>.\<close>

definition default_server_name :: string where
  "default_server_name = ''piconaut/0.2.1[h2o/2.2.5]''"

definition main_register ::
  "(string \<Rightarrow> size_t) \<Rightarrow> request_handler \<Rightarrow> H2OServer \<Rightarrow> H2OServer result" where
  "main_register hasher hello =
     for_result (\<lambda>(path, h). RegisterHandler hasher path h) (main_routes hello)"

text \<open>\<open>catch (const std::exception&)\<close>: the errors that are exceptions of the library.\<close>

primrec is_std_exception :: "cxx_error \<Rightarrow> bool" where
  "is_std_exception (Invalid_argument w) = True"
| "is_std_exception Out_of_range = True"
| "is_std_exception (Runtime_error w) = True"
| "is_std_exception Length_error = True"
| "is_std_exception Bad_function_call = True"
| "is_std_exception (Rapidjson_assert w) = False"
| "is_std_exception (Undefined_read w) = False"
| "is_std_exception Terminate_called = False"

text \<open>How the process ends: with a code, by an error, or by the default action of a signal.\<close>

datatype program_end = Exit_code int | Aborted cxx_error | Killed SignalType

text \<open>
  At exit the global \<open>g_signal_\<close> is destroyed before \<open>g_server_\<close>, which was constructed before it.
\<close>

definition at_exit ::
  "int \<Rightarrow> H2OServer option SignalHandler \<Rightarrow> H2OServer option \<Rightarrow> program_end" where
  "at_exit code g_signal g_server =
     (case bind_result (destroy_SignalHandler g_signal) (\<lambda>_.
             case g_server of None \<Rightarrow> Inr () | Some s \<Rightarrow> bind_result (destroy_H2OServer s) (\<lambda>_. Inr ())) of
        Inl e \<Rightarrow> Aborted e
      | Inr _ \<Rightarrow> Exit_code code)"

definition main_signal :: "uv_env \<Rightarrow> H2OServer option SignalHandler" where
  "main_signal uv = sig_Start (RegisterCallback (Some CaptureSignalDefault) (make_SignalHandler uv))"

definition main_catch ::
  "cxx_error \<Rightarrow> H2OServer option SignalHandler \<Rightarrow> H2OServer option \<Rightarrow> program_end" where
  "main_catch e g_signal g_server =
     (if is_std_exception e then at_exit 1 g_signal g_server else Aborted e)"

text \<open>
  \<open>main\<close>: \<open>None\<close> when the event loop never ends. When the registration throws, \<open>g_server_\<close>
  has been assigned already; when the constructor throws, it has not.
\<close>

definition main_program ::
  "uv_env \<Rightarrow> net_env \<Rightarrow> (string \<Rightarrow> size_t) \<Rightarrow> request_handler \<Rightarrow> ('w \<Rightarrow> int \<times> 'w) \<Rightarrow> 'w \<Rightarrow>
     program_end option" where
  "main_program uv env hasher hello run w =
     (let g_signal = main_signal uv
      in case make_H2OServer env main_host main_port default_server_name of
           Inl e \<Rightarrow> Some (main_catch e g_signal None)
         | Inr s \<Rightarrow>
             (case main_register hasher hello s of
                Inl e \<Rightarrow> Some (main_catch e g_signal (Some s))
              | Inr s' \<Rightarrow>
                  (case Start env run w s' of
                     None \<Rightarrow> None
                   | Some (s'', Inl e) \<Rightarrow> Some (main_catch e g_signal (Some s''))
                   | Some (s'', Inr w') \<Rightarrow> Some (at_exit 0 g_signal (Some s'')))))"

context rapidjson_laws
begin

section \<open>The document of HelloWorldHandler\<close>

lemma hello_params_free:
  assumes "ready R b" and "free_place R (document b) [''params'']"
    and "distinct (map fst params)" and "\<forall>m \<in> set params. nul \<notin> set (fst m)"
  shows "\<exists>b'. hello_params R params b = Inr b' \<and> ready R b' \<and> cerr b' = cerr b \<and>
    (\<forall>m \<in> set (param_members params). deref R (fst m) (document b') = Inr (scalar_value R (snd m))) \<and>
    (\<forall>q. diverges [''params''] q \<longrightarrow> deref R q (document b') = deref R q (document b)) \<and>
    (params = [] \<longrightarrow> b' = b)"
proof (cases "params = []")
  case False
  from create_free [OF assms(1,2)] obtain b1 where b1: "create_at R [''params''] b = Inr b1" "ready R b1"
    "cerr b1 = cerr b" "written R [''params''] (rj_object R) (document b) (document b1)" by blast
  then have here: "deref R [''params''] (document b1) = Inr (rj_object R)" by (simp add: written_def)
  have "free_place R (document b1) [''params'', n]" if "nul \<notin> set n" for n
    using that here live_append [of R "document b1" "[''params'']" "[n]"]
    by (simp add: free_place_def object_at_def is_object_def type_object has_object)
  then have free: "\<forall>m \<in> set (param_members params). free_place R (document b1) (fst m)"
    using assms(4) by (auto simp: param_members_def)
  have sorted: "sorted_wrt (\<lambda>m n. diverges (fst m) (fst n)) (param_members params)"
    using assms(3) by (auto simp: param_members_def sorted_wrt_map distinct_conv_nth
        sorted_wrt_iff_nth_less case_prod_beta)
  from assign_members [OF b1(2) free sorted] obtain b'
    where b': "for_result (\<lambda>(ks, v). assign_at R ks v) (param_members params) b1 = Inr b'"
      "ready R b'" "cerr b' = cerr b1"
      "\<forall>m \<in> set (param_members params). deref R (fst m) (document b') = Inr (scalar_value R (snd m))"
      "\<forall>q. (\<forall>m \<in> set (param_members params). diverges (fst m) q) \<longrightarrow>
        deref R q (document b') = deref R q (document b1)"
    by blast
  have loop: "for_result (\<lambda>(ks, v). assign_at R ks v) (param_members ps) c =
      for_result (\<lambda>(name, v). assign_at R [''params'', name] (S_string v)) ps c" for ps c
    by (induction ps arbitrary: c) (auto simp: param_members_def bind_result_def split: sum.splits)
  have "deref R q (document b') = deref R q (document b)" if q: "diverges [''params''] q" for q
  proof -
    have "diverges [''params'', n] q" for n using q by (cases q) auto
    with b'(5) b1(4) q show ?thesis
      by (simp add: param_members_def written_def case_prod_beta del: deref.simps)
  qed
  with b1 b' loop False show ?thesis by (auto simp: hello_params_def)
qed (use assms(1) in \<open>simp add: hello_params_def param_members_def\<close>)

lemma hello_json_ok:
  fixes params :: params and ua al ae cc pr :: string
  defines "fixed \<equiv> hello_members ua al ae cc pr"
  assumes "distinct (map fst params)" and "\<forall>m \<in> set params. nul \<notin> set (fst m)"
  shows "\<exists>b. hello_json R fixed params = Inr b \<and> cerr b = [] \<and>
    (\<forall>m \<in> set (fixed @ param_members params).
       deref R (fst m) (document b) = Inr (scalar_value R (snd m))) \<and>
    (live R (document b) [''params''] \<longleftrightarrow> params \<noteq> [])"
proof -
  let ?b0 = "make_ValueBuilder R"
  have doc0: "document ?b0 = rj_object R" "cerr ?b0 = []" by (simp_all add: make_ValueBuilder_def)
  have r0: "ready R ?b0" using builder_ok_make by (simp add: ready_def make_ValueBuilder_def)
  have top0: "free_place R (rj_object R) [k]" if "nul \<notin> set k" for k
    using that by (simp add: free_place_def object_at_def is_object_def type_object has_object)
  from create_free [OF r0, of "[''server'']"] top0 doc0
  obtain b1 where b1: "create_at R [''server''] ?b0 = Inr b1" "ready R b1" "cerr b1 = []"
    "written R [''server''] (rj_object R) (rj_object R) (document b1)" by auto
  then have server: "deref R [''server''] (document b1) = Inr (rj_object R)" by (simp add: written_def)
  have in_server: "free_place R (document b1) [''server'', k]" if "nul \<notin> set k" for k
    using that server live_append [of R "document b1" "[''server'']" "[k]"]
    by (simp add: free_place_def object_at_def is_object_def type_object has_object)
  have top1: "free_place R (document b1) [k]" if "nul \<notin> set k" "k \<noteq> ''server''" for k
    using that top0 written_free [OF b1(4), of "[k]"] by simp
  have free: "\<forall>m \<in> set fixed. free_place R (document b1) (fst m)"
    by (simp add: fixed_def hello_members_def in_server top1)
  have sorted: "sorted_wrt (\<lambda>m n. diverges (fst m) (fst n)) fixed"
    by (simp add: fixed_def hello_members_def)
  from assign_members [OF b1(2) free sorted] obtain b2
    where b2: "for_result (\<lambda>(ks, v). assign_at R ks v) fixed b1 = Inr b2" "ready R b2" "cerr b2 = cerr b1"
      "\<forall>m \<in> set fixed. deref R (fst m) (document b2) = Inr (scalar_value R (snd m))"
      "\<forall>q. (\<forall>m \<in> set fixed. diverges (fst m) q) \<longrightarrow> deref R q (document b2) = deref R q (document b1)"
    by blast
  have apart: "\<forall>m \<in> set fixed. diverges (fst m) [''params''] \<and> diverges [''params''] (fst m)"
    by (simp add: fixed_def hello_members_def)
  have "live R (document b2) ([] @ [''status''])"
    using b2(4) by (simp add: fixed_def hello_members_def live_def)
  then have "object_at R (document b2) []" by (rule object_above) simp
  moreover have "\<not> live R (document b2) [''params'']"
    using b2(5) apart top1 [of "''params''"] unfolding live_def free_place_def by (simp del: deref.simps)
  ultimately have place: "free_place R (document b2) [''params'']" by (simp add: free_place_def)
  from hello_params_free [OF b2(2) place assms(2,3)] obtain b3
    where b3: "hello_params R params b2 = Inr b3" "ready R b3" "cerr b3 = cerr b2"
      "\<forall>m \<in> set (param_members params). deref R (fst m) (document b3) = Inr (scalar_value R (snd m))"
      "\<forall>q. diverges [''params''] q \<longrightarrow> deref R q (document b3) = deref R q (document b2)"
      "params = [] \<longrightarrow> b3 = b2"
    by blast
  have "live R (document b3) [''params''] \<longleftrightarrow> params \<noteq> []"
  proof (cases params)
    case (Cons p ps)
    then have "live R (document b3) ([''params''] @ [fst p])"
      using b3(4) by (auto simp: param_members_def live_def case_prod_beta)
    with Cons show ?thesis by (metis live_prefix list.distinct(1))
  qed (use b3(6) place in \<open>simp add: free_place_def\<close>)
  moreover have "hello_json R fixed params = Inr b3"
    using b1 b2 b3 by (simp add: hello_json_def)
  moreover have "deref R (fst m) (document b3) = Inr (scalar_value R (snd m))" if "m \<in> set fixed" for m
    using that b2(4) b3(5) apart by metis
  moreover have "cerr b3 = []" using b1(3) b2(3) b3(3) by simp
  ultimately show ?thesis
    using b3(4) by (intro exI [of _ b3]) (simp add: ball_Un del: live_Cons deref.simps)
qed

end

end
