(* ===== verification/App_Spec.thy ===== *)
theory App_Spec
  imports App
begin

text \<open>
  What the program of theory \<open>App\<close> does with a request: the routing tree its five registrations
  build, the answers to requests for them, the document that is sent, and how the program ends.
\<close>

section \<open>The routing tree of the program\<close>

text \<open>The tree that the five registrations build; \<open>ks\<close> gives the keys of their endpoints.\<close>

definition snode :: "(string \<times> 'h RouterNode) list \<Rightarrow> 'h option \<Rightarrow> size_t \<Rightarrow> 'h RouterNode" where
  "snode cs h k = RouterNode cs h kStatic [] Rx_none k"

definition pnode :: "string \<Rightarrow> (string \<times> 'h RouterNode) list \<Rightarrow> 'h option \<Rightarrow> size_t \<Rightarrow> 'h RouterNode" where
  "pnode name cs h k = RouterNode cs h kParameter name param_value_regex k"

lemma node_simps [simp]:
  "children (snode cs h k) = cs" "children (pnode n cs h k) = cs"
  "ntype (snode cs h k) = kStatic" "ntype (pnode n cs h k) = kParameter"
  "param_name (pnode n cs h k) = n" "param_regex (pnode n cs h k) = param_value_regex"
  "handler (snode cs h k) = h" "handler (pnode n cs h k) = h" "key (snode cs h k) = k" "key (pnode n cs h k) = k"
  "set_static (snode cs h k) = snode cs h k" "set_parameter m (pnode n cs h k) = pnode m cs h k"
  "set_endpoint k' h' (snode cs h k) = snode cs h' k'" "set_endpoint k' h' (pnode n cs h k) = pnode n cs h' k'"
  "set_children cs' (snode cs h k) = snode cs' h k" "set_children cs' (pnode n cs h k) = pnode n cs' h k"
  "set_static new_node = snode [] None 0" "set_parameter m new_node = pnode m [] None 0"
  by (simp_all add: snode_def pnode_def new_node_def)

lemma new_node_snode: "new_node = snode [] None 0"
  by (simp add: snode_def new_node_def)

definition main_tree :: "size_t \<Rightarrow> size_t \<Rightarrow> size_t \<Rightarrow> size_t \<Rightarrow> size_t \<Rightarrow> 'h \<Rightarrow> 'h RouterNode" where
  "main_tree k1 k2 k3 k4 k5 f =
     snode [([], snode
       [(''post'', snode [(param_key, pnode ''id'' [(param_key, pnode ''slug'' [] (Some f) k3)] (Some f) k2)] (Some f) k1),
        (param_key, pnode ''year'' [(param_key, pnode ''month''
          [(''post'', snode [(param_key, pnode ''id'' [(param_key, pnode ''slug'' [] (Some f) k5)] None 0)] None 0)]
          (Some f) k4)] None 0)] None 0)] None 0"

lemma main_parts:
  "normalized_part [] = []" "normalized_part ''post'' = ''post''" "normalized_part ''{id}'' = param_key"
  "normalized_part ''{slug}'' = param_key" "normalized_part ''{year}'' = param_key" "normalized_part ''{month}'' = param_key"
  "part_param_name ''{id}'' = ''id''" "part_param_name ''{slug}'' = ''slug''"
  "part_param_name ''{year}'' = ''year''" "part_param_name ''{month}'' = ''month''"
  "[] \<noteq> param_key" "''post'' \<noteq> param_key" "param_key \<noteq> []" "param_key \<noteq> ''post''"
  by code_simp+

lemma main_tree_built:
  "add_parts k5 (Some f) [[], ''{year}'', ''{month}'', ''post'', ''{id}'', ''{slug}'']
    (add_parts k4 (Some f) [[], ''{year}'', ''{month}'']
    (add_parts k3 (Some f) [[], ''post'', ''{id}'', ''{slug}'']
    (add_parts k2 (Some f) [[], ''post'', ''{id}'']
    (add_parts k1 (Some f) [[], ''post''] new_node)))) = main_tree k1 k2 k3 k4 k5 f"
proof -
  let ?post = "\<lambda>cs. (''post'', snode cs (Some f) k1)"
  let ?ids = "[(param_key, pnode ''id'' [(param_key, pnode ''slug'' [] (Some f) k3)] (Some f) k2)]"
  let ?root = "\<lambda>cs. snode [([], snode cs None 0)] None 0"
  note [simp] = main_parts Let_def
  have 1: "add_parts k1 (Some f) [[], ''post''] new_node = ?root [?post []]"
    unfolding new_node_snode by simp
  have 2: "add_parts k2 (Some f) [[], ''post'', ''{id}''] (?root [?post []]) =
      ?root [?post [(param_key, pnode ''id'' [] (Some f) k2)]]"
    by simp
  have 3: "add_parts k3 (Some f) [[], ''post'', ''{id}'', ''{slug}''] (?root [?post [(param_key, pnode ''id'' [] (Some f) k2)]]) =
      ?root [?post ?ids]"
    by simp
  have 4: "add_parts k4 (Some f) [[], ''{year}'', ''{month}''] (?root [?post ?ids]) =
      ?root [?post ?ids, (param_key, pnode ''year'' [(param_key, pnode ''month'' [] (Some f) k4)] None 0)]"
    by simp
  show ?thesis unfolding 1 2 3 4 main_tree_def by simp
qed

lemma main_registered:
  assumes "register_all hasher (main_routes hello) = Inr g"
  shows "router g = main_tree (hasher ''/post'') (hasher ''/post/{id}'') (hasher ''/post/{id}/{slug}'')
    (hasher ''/{year}/{month}'') (hasher ''/{year}/{month}/post/{id}/{slug}'') Dispatcher_fn"
proof -
  have "splits (CHR ''/'') ''/post'' = [[], ''post'']" "splits (CHR ''/'') ''/post/{id}'' = [[], ''post'', ''{id}'']"
    "splits (CHR ''/'') ''/post/{id}/{slug}'' = [[], ''post'', ''{id}'', ''{slug}'']"
    "splits (CHR ''/'') ''/{year}/{month}'' = [[], ''{year}'', ''{month}'']"
    "splits (CHR ''/'') ''/{year}/{month}/post/{id}/{slug}'' = [[], ''{year}'', ''{month}'', ''post'', ''{id}'', ''{slug}'']"
    by code_simp+
  note splits_eq = this
  from add_routes_fold [OF register_all_router [OF assms]] show ?thesis
    unfolding main_tree_built [symmetric]
    by (simp add: route_regs_def main_routes_def splits_eq del: add_parts.simps splits.simps)
qed

lemma ident_not_key: "\<forall>c \<in> set v. ident_char c \<Longrightarrow> v \<noteq> param_key"
  using lbrace_not_ident_char by (auto simp: param_key_def)

lemma main_match:
  assumes "\<forall>x \<in> {v, w}. x \<noteq> [] \<and> (\<forall>c \<in> set x. ident_char c)"
  shows "match_parts [[], ''post'', v] (main_tree k1 k2 k3 k4 k5 f) [] =
      (Some (pnode ''id'' [(param_key, pnode ''slug'' [] (Some f) k3)] (Some f) k2), [(''id'', v)])"
    and "match_parts [[], ''post'', v, w] (main_tree k1 k2 k3 k4 k5 f) [] =
      (Some (pnode ''slug'' [] (Some f) k3), [(''id'', v), (''slug'', w)])"
    and "v \<noteq> ''post'' \<Longrightarrow> match_parts [[], v, w] (main_tree k1 k2 k3 k4 k5 f) [] =
      (Some (pnode ''month'' [(''post'', snode [(param_key, pnode ''id'' [(param_key, pnode ''slug'' [] (Some f) k5)] None 0)] None 0)]
        (Some f) k4), [(''year'', v), (''month'', w)])"
    and "v \<noteq> ''post'' \<Longrightarrow> \<exists>cs. match_parts [[], v] (main_tree k1 k2 k3 k4 k5 f) [] = (Some (pnode ''year'' cs None 0), [(''year'', v)])"
  using assms ident_not_key [of v] ident_not_key [of w]
  by (simp_all add: main_tree_def main_parts Let_def param_value_iff) blast

lemma main_routes_valid: "\<forall>p \<in> fst ` set (main_routes hello). IsValidRoute p"
proof -
  have "list_all IsValidRoute [''/post'', ''/post/{id}'', ''/post/{id}/{slug}'', ''/{year}/{month}'',
      ''/{year}/{month}/post/{id}/{slug}'']" by code_simp
  then show ?thesis by (simp add: main_routes_def)
qed

lemma main_match_runs:
  assumes "register_all hasher (main_routes hello) = Inr g" and "inj_on hasher (fst ` set (main_routes hello))"
    and "MatchRoute (GetPath req) [] (router g) =
      Inr (\<lparr>executor = Some (Some Dispatcher_fn), result_key = Some (hasher p)\<rparr>, params)"
    and "p \<in> fst ` set (main_routes hello)"
  shows "HandleImpl api g req = hello params req"
proof -
  have "map_of (map (\<lambda>(p, h). (hasher p, h)) (main_routes hello)) (hasher p) = Some (Some hello)"
    using map_of_hashed [of hasher p "main_routes hello"] assms(2,4)
    by (auto simp: insert_absorb) (auto simp: main_routes_def)
  from HandleImpl_match [OF assms(3,1) this] show ?thesis by (simp add: Dispatcher_fn_def)
qed

lemma hello_runs:
  fixes R :: "'v rapidjson"
  assumes "rapidjson_laws R" and "header_search (find_header_by_str api)"
    and "distinct (map fst params)" and "\<forall>m \<in> set params. nul \<notin> set (fst m)"
  shows "\<exists>ua al ae cc pr (json :: 'v ValueBuilder).
    GetHeader api req ''user-agent'' = Inr ua \<and> GetHeader api req ''accept-language'' = Inr al \<and>
    GetHeader api req ''accept-encoding'' = Inr ae \<and> GetHeader api req ''cache-control'' = Inr cc \<and>
    GetHeader api req ''pragma'' = Inr pr \<and> cerr json = [] \<and>
    (\<forall>m \<in> set (hello_members ua al ae cc pr @ param_members params).
       deref R (fst m) (document json) = Inr (scalar_value R (snd m))) \<and>
    (live R (document json) [''params''] \<longleftrightarrow> params \<noteq> []) \<and>
    HelloWorldHandler api R params req =
      (case rj_write R (document json) of None \<Rightarrow> Inl serialize_error
       | Some t \<Rightarrow> Inr (SendJson api (buffer_of t) 200 req))"
proof -
  obtain ua al ae cc pr where h: "GetHeader api req ''user-agent'' = Inr ua" "GetHeader api req ''accept-language'' = Inr al"
    "GetHeader api req ''accept-encoding'' = Inr ae" "GetHeader api req ''cache-control'' = Inr cc"
    "GetHeader api req ''pragma'' = Inr pr"
    using GetHeader_total [OF assms(2)] by metis
  from rapidjson_laws.hello_json_ok [OF assms(1,3,4), of ua al ae cc pr] obtain json
    where j: "hello_json R (hello_members ua al ae cc pr) params = Inr json" "cerr json = []"
      "\<forall>m \<in> set (hello_members ua al ae cc pr @ param_members params).
        deref R (fst m) (document json) = Inr (scalar_value R (snd m))"
      "live R (document json) [''params''] \<longleftrightarrow> params \<noteq> []"
    by blast
  have run: "HelloWorldHandler api R params req =
      (case rj_write R (document json) of None \<Rightarrow> Inl serialize_error
       | Some t \<Rightarrow> Inr (SendJson api (buffer_of t) 200 req))"
    by (simp add: HelloWorldHandler_def h j(1) SerializeToBytes_def split: option.splits)
  show ?thesis by (intro exI conjI) (rule h j(2-4) run)+
qed

text \<open>The signal handler of \<open>main\<close> has a thread that nobody joins.\<close>

lemma main_signal_destroyed: "destroy_SignalHandler (main_signal uv) = Inl Terminate_called"
proof -
  have "signals (make_SignalHandler uv :: H2OServer option SignalHandler) = []"
    by (rule reachable_no_signals) (rule initial)
  then show ?thesis
    by (simp add: main_signal_def RegisterCallback_def sig_Start_def destroy_SignalHandler_def StopAllSignals_def uv_do_def
        make_SignalHandler_def InitializeDefaultSignals_def)
qed

section \<open>Properties\<close>

text \<open>C25. The handler of the program answers every request: with the documented header search and JSON
  library, and parameters whose names are distinct and free of NUL bytes, it reads the five headers,
  no JSON statement is refused, and the document that is serialised and sent with status 200 has each
  fixed member, and under \<open>params\<close> each parameter, at its place; \<open>params\<close> is absent when there are none.\<close>

theorem hello_answers:
  fixes R :: "'v rapidjson"
  assumes "rapidjson_laws R" and "header_search (find_header_by_str api)"
    and "distinct (map fst params)" and "\<forall>m \<in> set params. nul \<notin> set (fst m)"
  shows "\<exists>ua al ae cc pr (json :: 'v ValueBuilder).
    GetHeader api req ''user-agent'' = Inr ua \<and> GetHeader api req ''accept-language'' = Inr al \<and>
    GetHeader api req ''accept-encoding'' = Inr ae \<and> GetHeader api req ''cache-control'' = Inr cc \<and>
    GetHeader api req ''pragma'' = Inr pr \<and> cerr json = [] \<and>
    (\<forall>m \<in> set (hello_members ua al ae cc pr @ param_members params).
       deref R (fst m) (document json) = Inr (scalar_value R (snd m))) \<and>
    (live R (document json) [''params''] \<longleftrightarrow> params \<noteq> []) \<and>
    HelloWorldHandler api R params req =
      (case rj_write R (document json) of None \<Rightarrow> Inl serialize_error
       | Some t \<Rightarrow> Inr (SendJson api (buffer_of t) 200 req))"
  using assms by (rule hello_runs)

theorem hello_answers_witness:
  "\<exists>ua al ae cc pr (json :: dom ValueBuilder).
    GetHeader list_api (plain_request ''GET'' ''/post/5'' [(''pragma'', ''no-cache'')]) ''user-agent'' = Inr ua \<and>
    GetHeader list_api (plain_request ''GET'' ''/post/5'' [(''pragma'', ''no-cache'')]) ''accept-language'' = Inr al \<and>
    GetHeader list_api (plain_request ''GET'' ''/post/5'' [(''pragma'', ''no-cache'')]) ''accept-encoding'' = Inr ae \<and>
    GetHeader list_api (plain_request ''GET'' ''/post/5'' [(''pragma'', ''no-cache'')]) ''cache-control'' = Inr cc \<and>
    GetHeader list_api (plain_request ''GET'' ''/post/5'' [(''pragma'', ''no-cache'')]) ''pragma'' = Inr pr \<and>
    cerr json = [] \<and>
    (\<forall>m \<in> set (hello_members ua al ae cc pr @ param_members [(''id'', ''5'')]).
       deref plain_json (fst m) (document json) = Inr (scalar_value plain_json (snd m))) \<and>
    (live plain_json (document json) [''params''] \<longleftrightarrow> [(''id'', ''5'')] \<noteq> []) \<and>
    HelloWorldHandler list_api plain_json [(''id'', ''5'')] (plain_request ''GET'' ''/post/5'' [(''pragma'', ''no-cache'')]) =
      (case rj_write plain_json (document json) of None \<Rightarrow> Inl serialize_error
       | Some t \<Rightarrow> Inr (SendJson list_api (buffer_of t) 200 (plain_request ''GET'' ''/post/5'' [(''pragma'', ''no-cache'')])))"
proof (rule hello_answers [OF plain_json_laws])
  show "header_search (find_header_by_str list_api)" by (simp add: list_api_def front.header_search_axioms)
qed simp_all

text \<open>Routing of the whole program: whatever the hash, as long as it separates the five patterns, the
  registrations succeed, and for all identifiers \<open>v\<close> and \<open>w\<close> the requests \<open>/post/v\<close>, \<open>/post/v/w\<close> and
  \<open>/v/w\<close> run the handler with their parameters under the names of the patterns; but \<open>/v\<close>, which no
  pattern admits, is not answered with 404: the dispatcher throws.\<close>

theorem main_dispatch:
  assumes "inj_on hasher (fst ` set (main_routes hello))"
    and "\<forall>x \<in> {v, w}. x \<noteq> [] \<and> (\<forall>c \<in> set x. ident_char c)" and "v \<noteq> ''post''"
  shows "\<exists>g. register_all hasher (main_routes hello) = Inr g \<and>
    (\<forall>req. GetPath req = slash_path [''post'', v] \<longrightarrow> HandleImpl api g req = hello [(''id'', v)] req) \<and>
    (\<forall>req. GetPath req = slash_path [''post'', v, w] \<longrightarrow> HandleImpl api g req = hello [(''id'', v), (''slug'', w)] req) \<and>
    (\<forall>req. GetPath req = slash_path [v, w] \<longrightarrow> HandleImpl api g req = hello [(''year'', v), (''month'', w)] req) \<and>
    (\<forall>req. GetPath req = slash_path [v] \<longrightarrow> HandleImpl api g req \<in> {Inl Out_of_range, Inl Bad_function_call})"
proof -
  from register_all_valid [OF main_routes_valid] obtain g where g: "register_all hasher (main_routes hello) = Inr g" by blast
  note tree = main_registered [OF g] and match = main_match [OF assms(2)]
  have "CHR ''/'' \<notin> set v" "CHR ''/'' \<notin> set w" using assms(2) slash_not_ident_char by blast+
  then have sp: "splits (CHR ''/'') (slash_path [''post'', v]) = [[], ''post'', v]"
    "splits (CHR ''/'') (slash_path [''post'', v, w]) = [[], ''post'', v, w]"
    "splits (CHR ''/'') (slash_path [v, w]) = [[], v, w]" "splits (CHR ''/'') (slash_path [v]) = [[], v]"
    by (subst splits_slash_path; auto)+
  note run = main_match_runs [OF g assms(1)]
  have r: "p \<in> fst ` set (main_routes hello)" if "p \<in> {''/post/{id}'', ''/post/{id}/{slug}'', ''/{year}/{month}''}" for p
    using that by (auto simp: main_routes_def)
  have "HandleImpl api g req = hello [(''id'', v)] req" if "GetPath req = slash_path [''post'', v]" for req
    by (rule run [where p = "''/post/{id}''"])
      (simp_all add: that MatchRoute_eq sp(1) tree match(1) node_match_def r del: slash_path_simps match_parts.simps)
  moreover have "HandleImpl api g req = hello [(''id'', v), (''slug'', w)] req" if "GetPath req = slash_path [''post'', v, w]" for req
    by (rule run [where p = "''/post/{id}/{slug}''"])
      (simp_all add: that MatchRoute_eq sp(2) tree match(2) node_match_def r del: slash_path_simps match_parts.simps)
  moreover have "HandleImpl api g req = hello [(''year'', v), (''month'', w)] req" if "GetPath req = slash_path [v, w]" for req
    by (rule run [where p = "''/{year}/{month}''"])
      (simp_all add: that MatchRoute_eq sp(3) tree match(3) [OF assms(3)] node_match_def r del: slash_path_simps match_parts.simps)
  moreover have "HandleImpl api g req \<in> {Inl Out_of_range, Inl Bad_function_call}" if p: "GetPath req = slash_path [v]" for req
  proof -
    have "\<exists>cs. match_parts [[], v] (router g) [] = (Some (pnode ''year'' cs None 0), [(''year'', v)])"
      unfolding tree by (rule match(4) [OF assms(3)])
    then obtain cs where "match_parts [[], v] (router g) [] = (Some (pnode ''year'' cs None 0), [(''year'', v)])"
      by blast
    then have "MatchRoute (GetPath req) [] (router g) = Inr (node_match (pnode ''year'' cs None 0), [(''year'', v)])"
      by (simp add: p MatchRoute_eq sp(4) del: slash_path_simps match_parts.simps)
    from HandleImpl_cases [OF g this, of api] show ?thesis by simp
  qed
  ultimately show ?thesis using g by blast
qed

text \<open>A hash that numbers the five patterns, and a handler.\<close>

definition pattern_number :: "string \<Rightarrow> size_t" where
  "pattern_number p = (if p = ''/post'' then 1 else if p = ''/post/{id}'' then 2 else if p = ''/post/{id}/{slug}'' then 3
     else if p = ''/{year}/{month}'' then 4 else 5)"

theorem main_dispatch_witness:
  "\<exists>g. register_all pattern_number (main_routes (HelloWorldHandler list_api plain_json)) = Inr g \<and>
    (\<forall>req. GetPath req = slash_path [''post'', ''2024''] \<longrightarrow> HandleImpl list_api g req =
       HelloWorldHandler list_api plain_json [(''id'', ''2024'')] req) \<and>
    (\<forall>req. GetPath req = slash_path [''post'', ''2024'', ''07''] \<longrightarrow> HandleImpl list_api g req =
       HelloWorldHandler list_api plain_json [(''id'', ''2024''), (''slug'', ''07'')] req) \<and>
    (\<forall>req. GetPath req = slash_path [''2024'', ''07''] \<longrightarrow> HandleImpl list_api g req =
       HelloWorldHandler list_api plain_json [(''year'', ''2024''), (''month'', ''07'')] req) \<and>
    (\<forall>req. GetPath req = slash_path [''2024''] \<longrightarrow> HandleImpl list_api g req \<in> {Inl Out_of_range, Inl Bad_function_call})"
proof (rule main_dispatch)
  show "inj_on pattern_number (fst ` set (main_routes (HelloWorldHandler list_api plain_json)))"
    by (simp add: main_routes_def pattern_number_def)
qed (simp_all add: in_class_def in_range_def ident_class_def)

text \<open>However \<open>main\<close> ends, it is not by returning an exit code: every path that reaches the end of
  \<open>main\<close>, also the one after a caught exception and the one after the event loop, destroys the signal
  handler, whose thread was started and never joined, and that calls \<open>std::terminate\<close>; the other
  endings are errors that \<open>catch\<close> does not see.\<close>

theorem main_never_returns_a_code:
  assumes "main_program uv env hasher hello run w = Some e"
  shows "e = Aborted Terminate_called \<or> (\<exists>err. e = Aborted err \<and> \<not> is_std_exception err)"
proof -
  have exit: "at_exit code (main_signal uv) s = Aborted Terminate_called" for code s
    by (simp add: at_exit_def main_signal_destroyed)
  have caught: "main_catch err (main_signal uv) s = Aborted Terminate_called \<or>
      (\<exists>err'. main_catch err (main_signal uv) s = Aborted err' \<and> \<not> is_std_exception err')" for err s
    by (auto simp: main_catch_def exit)
  show ?thesis
    using assms exit caught
    by (auto simp: main_program_def Let_def split: sum.splits option.splits prod.splits)
qed

theorem main_never_returns_a_code_witness:
  "main_program \<lparr>init_code = (\<lambda>h. 0), start_code = (\<lambda>h. 0)\<rparr> (good_env\<lparr>register_host := Null\<rparr>) pattern_number
     (HelloWorldHandler list_api plain_json) four_turns 0 = Some (Aborted Terminate_called) \<and>
   (Aborted Terminate_called = Aborted Terminate_called \<or>
     (\<exists>err. Aborted Terminate_called = Aborted err \<and> \<not> is_std_exception err))"
proof -
  let ?main = "main_program \<lparr>init_code = (\<lambda>h. 0), start_code = (\<lambda>h. 0)\<rparr> (good_env\<lparr>register_host := Null\<rparr>) pattern_number
     (HelloWorldHandler list_api plain_json) four_turns 0"
  have run: "?main = Some (Aborted Terminate_called)"
    by (simp add: main_program_def make_H2OServer_def good_env_def is_null_ptr_def main_catch_def at_exit_def main_signal_def
        RegisterCallback_def sig_Start_def destroy_SignalHandler_def StopAllSignals_def uv_do_def make_SignalHandler_def
        InitializeDefaultSignals_def InitializeSignal_def StartSignal_def Let_def)
  from main_never_returns_a_code [OF run] run show ?thesis by simp
qed

text \<open>An interrupt does not stop the server: when \<open>SIGINT\<close> or \<open>SIGTERM\<close> is delivered to the handler
  that \<open>main\<close> has set up, the callback runs with that signal, and the server is exactly what it was
  before, because \<open>H2OServer::Stop\<close> is empty; the loop of the signal thread is stopped, once and for all.\<close>

theorem interrupt_keeps_serving:
  assumes "init_code uv SIGINT_SIGNAL = 0" and "init_code uv SIGTERM_SIGNAL = 0"
    and "sig \<in> {SIGINT_SIGNAL, SIGTERM_SIGNAL}"
  shows "sig \<in> set (data_set (main_signal uv)) \<and>
    OnSignal sig (signal_number sig) (main_signal uv) g_server =
      (uv_do [Uv_signal_stop sig, Uv_stop] (main_signal uv), g_server)"
proof -
  have d: "data_set (uv_do cs s) = data_set s" "data_set (StartSignal uv g s) = data_set s"
    "data_set (s\<lparr>is_run := b\<rparr>) = data_set s" "data_set (s\<lparr>thread_joinable := b\<rparr>) = data_set s"
    for cs g b and s :: "H2OServer option SignalHandler"
    by (simp_all add: StartSignal_def Let_def log_error_def uv_do_def split: option.split)
  have mem: "sig \<in> set (data_set (main_signal uv))"
    using assms by (auto simp: main_signal_def sig_Start_def RegisterCallback_def make_SignalHandler_def
        InitializeDefaultSignals_def d InitializeSignal_def Let_def)
  have cb: "callback (main_signal uv) = Some CaptureSignalDefault"
    by (simp add: main_signal_def sig_Start_def RegisterCallback_def uv_do_def)
  have "CaptureSignalDefault (signal_of (signal_number sig)) g_server = g_server"
    using assms(3) by (auto simp: CaptureSignalDefault_def Stop_def signal_of_def split: option.split)
  with mem cb show ?thesis by (simp add: OnSignal_def)
qed

theorem interrupt_keeps_serving_witness:
  "SIGINT_SIGNAL \<in> set (data_set (main_signal \<lparr>init_code = (\<lambda>h. 0), start_code = (\<lambda>h. 0)\<rparr>)) \<and>
    OnSignal SIGINT_SIGNAL (signal_number SIGINT_SIGNAL) (main_signal \<lparr>init_code = (\<lambda>h. 0), start_code = (\<lambda>h. 0)\<rparr>) None =
      (uv_do [Uv_signal_stop SIGINT_SIGNAL, Uv_stop] (main_signal \<lparr>init_code = (\<lambda>h. 0), start_code = (\<lambda>h. 0)\<rparr>), None)"
  by (rule interrupt_keeps_serving) simp_all

end
