(* ===== verification/Hello_Document.thy ===== *)
theory Hello_Document
  imports App_Spec Json_Map
begin

text \<open>
  The document that \<open>HelloWorldHandler\<close> (\<open>src/main.cc\<close>) sends, as a whole: its statements are run in the
  abstract specification of the builder (\<open>Json_Map\<close>), which gives the entry at every position; and they
  put nothing but objects, strings and integers into it, which a writer never refuses.
\<close>

section \<open>The statements of the handler\<close>

definition hello_statements ::
  "string \<Rightarrow> string \<Rightarrow> string \<Rightarrow> string \<Rightarrow> string \<Rightarrow> params \<Rightarrow> (string list \<times> scalar option) list" where
  "hello_statements ua al ae cc pr params =
     ([''server''], None) # map (\<lambda>(ks, v). (ks, Some v)) (hello_members ua al ae cc pr) @
     (if params = [] then [] else ([''params''], None) # map (\<lambda>(n, v). ([''params'', n], Some (S_string v))) params)"

lemma for_result_map: "for_result f (map g xs) s = for_result (\<lambda>x. f (g x)) xs s"
  by (induction xs arbitrary: s) (simp_all add: bind_result_def split: sum.split)

lemma hello_json_statements:
  "hello_json R (hello_members ua al ae cc pr) params =
     for_result (statement R) (hello_statements ua al ae cc pr params) (make_ValueBuilder R)"
proof -
  have "for_result (\<lambda>x. statement R (case x of (ks, v) \<Rightarrow> (ks, Some v))) ms b = for_result (\<lambda>(ks, v). assign_at R ks v) ms b" for ms b
    by (rule arg_cong [of _ _ "\<lambda>f. for_result f ms b"]) (auto simp: statement_def fun_eq_iff)
  moreover have "for_result (\<lambda>x. statement R (case x of (n, v) \<Rightarrow> ([''params'', n], Some (S_string v)))) ps b =
      for_result (\<lambda>(n, v). assign_at R [''params'', n] (S_string v)) ps b" for ps b
    by (rule arg_cong [of _ _ "\<lambda>f. for_result f ps b"]) (auto simp: statement_def fun_eq_iff)
  ultimately show ?thesis
    by (simp add: hello_json_def hello_statements_def hello_params_def for_result_append for_result_map statement_def
        bind_result_def split: sum.split)
qed

section \<open>The document\<close>

text \<open>The entry at every position.\<close>

definition hello_map ::
  "'v rapidjson \<Rightarrow> string \<Rightarrow> string \<Rightarrow> string \<Rightarrow> string \<Rightarrow> string \<Rightarrow> params \<Rightarrow> path \<Rightarrow> 'v entry option" where
  "hello_map R ua al ae cc pr params =
     [[] \<mapsto> Obj,
      [''server''] \<mapsto> Obj,
      [''server'', ''name''] \<mapsto> Leaf (rj_string R ''Piconaut Framework''),
      [''server'', ''version''] \<mapsto> Leaf (rj_string R ''v0.2.1''),
      [''status''] \<mapsto> Leaf (rj_int R 200),
      [''userAgent''] \<mapsto> Leaf (rj_string R (c_str ua)),
      [''acceptLanguage''] \<mapsto> Leaf (rj_string R (c_str al)),
      [''acceptEncoding''] \<mapsto> Leaf (rj_string R (c_str ae)),
      [''cacheControl''] \<mapsto> Leaf (rj_string R (c_str cc)),
      [''pragma''] \<mapsto> Leaf (rj_string R (c_str pr))] ++
     (if params = [] then Map.empty
      else [[''params''] \<mapsto> Obj] ++ map_of (map (\<lambda>(n, v). ([''params'', n], Leaf (rj_string R (c_str v)))) params))"

lemma doc_statements_append:
  "doc_statements R (xs @ ys) s = Option.bind (doc_statements R xs s) (doc_statements R ys)"
proof (induction xs arbitrary: s)
  case (Cons x xs)
  then show ?case by (cases "doc_statement R x s") simp_all
qed simp

lemma params_doc:
  assumes "m [''params''] = Some Obj" and "distinct (map fst params)" and "\<forall>p \<in> set params. nul \<notin> set (fst p)"
    and "\<forall>p \<in> set params. m [''params'', fst p] = None"
  shows "doc_statements R (map (\<lambda>(n, v). ([''params'', n], Some (S_string v))) params) (m, es) =
    Some (m ++ map_of (map (\<lambda>(n, v). ([''params'', n], Leaf (rj_string R (c_str v)))) params), es)"
  using assms
proof (induction params arbitrary: m)
  case (Cons p params)
  obtain n v where p: "p = (n, v)" by (cases p)
  let ?m = "m([''params'', n] \<mapsto> Leaf (rj_string R (c_str v)))"
  let ?rest = "map (\<lambda>(n, v). ([''params'', n], Leaf (rj_string R (c_str v)))) params"
  have "doc_statement R ([''params'', n], Some (S_string v)) (m, es) = Some (?m, es)"
    using Cons.prems p by (simp add: doc_statement_def takes_def new_entry_def Let_def)
  moreover have "\<forall>q \<in> set params. ?m [''params'', fst q] = None"
    using Cons.prems p by (auto simp: image_iff)
  with Cons have "doc_statements R (map (\<lambda>(n, v). ([''params'', n], Some (S_string v))) params) (?m, es) =
      Some (?m ++ map_of ?rest, es)" by simp
  moreover have "n \<notin> fst ` set params" using Cons.prems(2) p by simp
  then have "[''params'', n] \<notin> dom (map_of ?rest)"
    by (auto simp: dom_map_of_conv_image_fst image_image case_prod_beta)
  ultimately show ?case using p by (simp add: map_add_upd_left) (simp add: fun_eq_iff map_add_def)
qed simp

context rapidjson_laws
begin

lemma doc_of_make: "doc_of R (make_ValueBuilder R) = ([[] \<mapsto> Obj], [])"
proof -
  have "json_map R (rj_object R) p = ([[] \<mapsto> Obj] :: path \<Rightarrow> 'v entry option) p" for p
    by (cases p) (simp_all add: json_map_def entry_of_def is_object_def type_object has_object)
  then show ?thesis by (simp add: doc_of_def make_ValueBuilder_def fun_eq_iff)
qed

lemma hello_doc:
  assumes "distinct (map fst params)" and "\<forall>m \<in> set params. nul \<notin> set (fst m)"
  shows "doc_statements R (hello_statements ua al ae cc pr params) (doc_of R (make_ValueBuilder R)) =
    Some (hello_map R ua al ae cc pr params, [])"
proof -
  let ?fixed = "([''server''], None) # map (\<lambda>(ks, v). (ks, Some v)) (hello_members ua al ae cc pr)"
  have fixed: "doc_statements R ?fixed (doc_of R (make_ValueBuilder R)) = Some (hello_map R ua al ae cc pr [], [])"
    by (simp add: doc_of_make hello_members_def doc_statement_def takes_def new_entry_def hello_map_def Let_def)
  show ?thesis
  proof (cases "params = []")
    case False
    let ?m = "(hello_map R ua al ae cc pr [])([''params''] \<mapsto> Obj)"
    have "doc_statement R ([''params''], None) (hello_map R ua al ae cc pr [], []) = Some (?m, [])"
      by (simp add: doc_statement_def takes_def new_entry_def hello_map_def Let_def)
    moreover have "\<forall>p \<in> set params. ?m [''params'', fst p] = None" by (simp add: hello_map_def)
    with params_doc [OF _ assms, of ?m R "[]"]
    have "doc_statements R (map (\<lambda>(n, v). ([''params'', n], Some (S_string v))) params) (?m, []) =
      Some (?m ++ map_of (map (\<lambda>(n, v). ([''params'', n], Leaf (rj_string R (c_str v)))) params), [])" by simp
    moreover have "?m ++ map_of (map (\<lambda>(n, v). ([''params'', n], Leaf (rj_string R (c_str v)))) params) =
      hello_map R ua al ae cc pr params"
      using False by (simp add: hello_map_def)
    moreover have "hello_statements ua al ae cc pr params =
      ?fixed @ ([''params''], None) # map (\<lambda>(n, v). ([''params'', n], Some (S_string v))) params"
      using False by (simp add: hello_statements_def)
    ultimately show ?thesis using fixed by (simp only: doc_statements_append) (simp del: doc_statements.simps(2) add: doc_statements.simps(2) [of R "([''params''], None)"])
  qed (use fixed in \<open>simp add: hello_statements_def\<close>)
qed

lemma hello_document:
  assumes "distinct (map fst params)" and "\<forall>m \<in> set params. nul \<notin> set (fst m)"
  shows "\<exists>json. hello_json R (hello_members ua al ae cc pr) params = Inr json \<and> cerr json = [] \<and>
    json_map R (document json) = hello_map R ua al ae cc pr params"
proof -
  have "\<forall>st \<in> set (hello_statements ua al ae cc pr params). fst st \<noteq> []"
    by (auto simp: hello_statements_def hello_members_def split: if_splits)
  from statements_doc [OF ready_make this] hello_doc [OF assms, of ua al ae cc pr] show ?thesis
    unfolding hello_json_statements by (auto simp: doc_of_def split: sum.splits)
qed

end

section \<open>Documents that are always written\<close>

text \<open>
  A \<open>Writer\<close> refuses only a \<open>double\<close> that is infinite or not a number. \<open>plain_made\<close> are the values into
  which nothing but objects, strings, integers and nulls has been put; \<open>writes_plain\<close> says that these
  are written.
\<close>

inductive plain_made :: "'v rapidjson \<Rightarrow> 'v \<Rightarrow> bool" for R where
  null: "plain_made R (rj_null R)"
| object: "plain_made R (rj_object R)"
| string: "plain_made R (rj_string R s)"
| int: "plain_made R (rj_int R i)"
| add: "plain_made R d \<Longrightarrow> plain_made R x \<Longrightarrow> rj_type R d = 3 \<Longrightarrow> \<not> rj_has_member R d k \<Longrightarrow>
    plain_made R (rj_add_member R k x d)"
| put: "plain_made R d \<Longrightarrow> plain_made R x \<Longrightarrow> rj_type R d = 3 \<Longrightarrow> rj_has_member R d k \<Longrightarrow>
    plain_made R (rj_put_member R k x d)"

definition writes_plain :: "'v rapidjson \<Rightarrow> bool" where
  "writes_plain R = (\<forall>d. plain_made R d \<longrightarrow> rj_write R d \<noteq> None)"

definition plain_scalar :: "scalar \<Rightarrow> bool" where
  "plain_scalar v = (case v of S_string s \<Rightarrow> True | S_cstr s \<Rightarrow> True | S_int i \<Rightarrow> True | _ \<Rightarrow> False)"

lemma plain_scalar_value: "plain_scalar v \<Longrightarrow> plain_made R (scalar_value R v)"
  by (cases v) (auto simp: plain_scalar_def intro: plain_made.intros)

context rapidjson_laws
begin

lemma plain_member: "plain_made R d \<Longrightarrow> rj_type R d = 3 \<Longrightarrow> rj_has_member R d j \<Longrightarrow> plain_made R (rj_member R d j)"
proof (induction rule: plain_made.induct)
  case (add d x k)
  then show ?case using member_add [of d k j x] has_add [of d k x j] by auto
next
  case (put d x k)
  then show ?case using member_put [of d k j x] has_put [of d k x j] by auto
qed (auto simp: type_simps has_object)

lemma plain_deref: "plain_made R d \<Longrightarrow> deref R p d = Inr x \<Longrightarrow> plain_made R x"
proof (induction p arbitrary: d)
  case (Cons k p)
  from Cons.prems(2) have "rj_type R d = 3" "rj_has_member R d k" "deref R p (rj_member R d k) = Inr x"
    by (auto simp: is_object_def split: if_splits)
  with Cons.IH plain_member [OF Cons.prems(1)] show ?case by blast
qed simp

lemma plain_store: "plain_made R d \<Longrightarrow> plain_made R x \<Longrightarrow> store R x p d = Inr d' \<Longrightarrow> plain_made R d'"
proof (induction p arbitrary: d d')
  case (Cons k p)
  from Cons.prems(3) obtain m where m: "rj_type R d = 3" "rj_has_member R d k" "store R x p (rj_member R d k) = Inr m"
    "d' = rj_put_member R k m d"
    by (auto simp: is_object_def result_simps split: if_splits)
  from Cons.IH [OF plain_member [OF Cons.prems(1) m(1,2)] Cons.prems(2) m(3)] show ?case
    unfolding m(4) by (rule plain_made.put [OF Cons.prems(1) _ m(1,2)])
qed simp

text \<open>The operators of the builder put nothing else into a document.\<close>

lemma plain_ensure: "plain_made R (document b) \<Longrightarrow> plain_made R (document (ensure_object R b))"
  by (simp add: ensure_object_def plain_made.object)

lemma index_builder_document:
  assumes "index_builder R k b = Inr b'"
  defines "b1 \<equiv> ensure_object R b"
  obtains (kept) "document b' = document b1"
    | (added) nv where "deref R (GetNodeValue b1) (document b1) = Inr nv" "rj_type R nv = 3" "\<not> rj_has_member R nv (c_str k)"
      "store R (rj_add_member R (c_str k) (rj_null R) nv) (GetNodeValue b1) (document b1) = Inr (document b')"
proof -
  from assms(1) obtain nv found where nv: "deref R (GetNodeValue b1) (document b1) = Inr nv" "has_member R nv (c_str k) = Inr found"
    by (auto simp: index_builder_def Let_def result_simps b1_def)
  then have "rj_type R nv = 3" "found = rj_has_member R nv (c_str k)"
    by (auto simp: has_member_def is_object_def split: if_splits)
  with nv assms(1) kept added show thesis
    by (cases found) (auto simp: index_builder_def Let_def result_simps b1_def)
qed

lemma plain_index:
  assumes "plain_made R (document b)" and "index_builder R k b = Inr b'"
  shows "plain_made R (document b')"
  using assms(2)
proof (cases rule: index_builder_document)
  case kept
  then show ?thesis using plain_ensure [OF assms(1)] by simp
next
  case (added nv)
  from plain_deref [OF plain_ensure [OF assms(1)] added(1)] have "plain_made R nv" .
  from plain_made.add [OF this plain_made.null added(2,3)] show ?thesis
    by (rule plain_store [OF plain_ensure [OF assms(1)] _ added(4)])
qed

lemma plain_index_all: "plain_made R (document b) \<Longrightarrow> index_all R ks b = Inr b' \<Longrightarrow> plain_made R (document b')"
  unfolding index_all_def by (rule for_result_invariant [of _ _ _ _ "\<lambda>b. plain_made R (document b)"]) (auto intro: plain_index)

lemma plain_assign:
  assumes "plain_made R (document b)" and "plain_scalar v" and "assign R v b = Inr b'"
  shows "plain_made R (document b')"
proof -
  let ?b = "ensure_object R b"
  obtain retype where "assign R v = assign_scalar R (insert kUnknown (scalar_types v)) retype (scalar_value R v)"
    by (rule assign_eq_scalar)
  with assms(3) have "document b' = document ?b \<or> (\<exists>p. store R (scalar_value R v) p (document ?b) = Inr (document b'))"
    by (auto simp: assign_scalar_def Let_def result_simps split: option.splits if_splits)
  with plain_store [OF plain_ensure [OF assms(1)] plain_scalar_value [OF assms(2)]] plain_ensure [OF assms(1)] show ?thesis
    by metis
qed

lemma plain_create:
  assumes "plain_made R (document b)" and "CreateJsonObject R b = Inr b'"
  shows "plain_made R (document b')"
proof -
  from assms(2) have "document b' = document b \<or> (\<exists>p. store R (rj_object R) p (document b) = Inr (document b'))"
    by (auto simp: CreateJsonObject_def result_simps split: option.splits if_splits)
  with plain_store [OF assms(1) plain_made.object] assms(1) show ?thesis by metis
qed

lemma plain_statement:
  assumes "plain_made R (document b)" and "snd st = None \<or> plain_scalar (the (snd st))" and "statement R st b = Inr b'"
  shows "plain_made R (document b')"
proof -
  from assms(3) obtain b1 where b1: "index_all R (fst st) b = Inr b1"
    and b': "case snd st of None \<Rightarrow> CreateJsonObject R b1 = Inr b' | Some v \<Rightarrow> assign R v b1 = Inr b'"
    by (cases st) (auto simp: statement_def create_at_def assign_at_def result_simps split: option.splits)
  from plain_index_all [OF assms(1) b1] have p: "plain_made R (document b1)" .
  from b' p assms(2) show ?thesis
    by (cases "snd st") (auto dest: plain_create plain_assign)
qed

lemma hello_plain:
  assumes "hello_json R (hello_members ua al ae cc pr) params = Inr b"
  shows "plain_made R (document b)"
proof -
  have "snd st = None \<or> plain_scalar (the (snd st))" if "st \<in> set (hello_statements ua al ae cc pr params)" for st
    using that by (auto simp: hello_statements_def hello_members_def plain_scalar_def split: if_splits)
  moreover have "plain_made R (document (make_ValueBuilder R))" by (simp add: make_ValueBuilder_def plain_made.object)
  ultimately show ?thesis
    using for_result_invariant [OF assms [unfolded hello_json_statements], of "\<lambda>b. plain_made R (document b)"] plain_statement
    by blast
qed

end

section \<open>The answer to a request\<close>

text \<open>
  \<open>r\<close> is the request \<open>req\<close> after the handler has answered it: with status 200 and the text of a document
  that has the five headers of the request and the parameters \<open>ps\<close> at their places, and nothing else.
\<close>

definition hello_answer :: "'v rapidjson \<Rightarrow> h2o_api \<Rightarrow> params \<Rightarrow> h2o_req \<Rightarrow> h2o_req \<Rightarrow> bool" where
  "hello_answer R api ps req r =
     (\<exists>ua al ae cc pr d t.
        GetHeader api req ''user-agent'' = Inr ua \<and> GetHeader api req ''accept-language'' = Inr al \<and>
        GetHeader api req ''accept-encoding'' = Inr ae \<and> GetHeader api req ''cache-control'' = Inr cc \<and>
        GetHeader api req ''pragma'' = Inr pr \<and>
        json_map R d = hello_map R ua al ae cc pr ps \<and> rj_write R d = Some t \<and>
        r = SendJson api (buffer_of t) 200 req)"

lemma hello_answered:
  fixes R :: "'v rapidjson"
  assumes "rapidjson_laws R" and "writes_plain R" and "header_search (find_header_by_str api)"
    and "distinct (map fst params)" and "\<forall>m \<in> set params. nul \<notin> set (fst m)"
  shows "\<exists>r. HelloWorldHandler api R params req = Inr r \<and> hello_answer R api params req r"
proof -
  obtain ua al ae cc pr where h: "GetHeader api req ''user-agent'' = Inr ua" "GetHeader api req ''accept-language'' = Inr al"
    "GetHeader api req ''accept-encoding'' = Inr ae" "GetHeader api req ''cache-control'' = Inr cc"
    "GetHeader api req ''pragma'' = Inr pr"
    using GetHeader_total [OF assms(3)] by metis
  from rapidjson_laws.hello_document [OF assms(1,4,5), of ua al ae cc pr] obtain json
    where j: "hello_json R (hello_members ua al ae cc pr) params = Inr json"
      "json_map R (document json) = hello_map R ua al ae cc pr params" by blast
  from rapidjson_laws.hello_plain [OF assms(1) j(1)] assms(2) obtain t where t: "rj_write R (document json) = Some t"
    unfolding writes_plain_def by blast
  have "HelloWorldHandler api R params req = Inr (SendJson api (buffer_of t) 200 req)"
    by (simp add: HelloWorldHandler_def h j(1) SerializeToBytes_def t)
  with h j(2) t show ?thesis unfolding hello_answer_def by blast
qed

end
