(* ===== verification/Serving.thy ===== *)
theory Serving
  imports Hello_Document
begin

text \<open>
  The parts of the sample program put together: \<open>HandlerBase::HandlerCallback\<close>, which h2o calls for each
  request, runs the global dispatcher of the server, which runs \<open>HelloWorldHandler\<close>. An exception that
  leaves the callback leaves the event loop and \<open>Start\<close>, and \<open>main\<close> catches it. What h2o does in a turn
  of its loop is not code of this repository: which requests it has for the callback, and in which
  order, is a parameter here, the list of the requests. That the callbacks come one after the other is
  the one thing that is used of h2o; there is one loop, in one thread.
\<close>

section \<open>A sequence of requests\<close>

definition answer :: "h2o_api \<Rightarrow> H2OServer \<Rightarrow> h2o_req \<Rightarrow> (int \<times> h2o_req option) result" where
  "answer api s req = HandlerCallback (Some (HandleImpl api (routers s))) (Some req)"

text \<open>
  The callbacks for a list of requests, whatever turns of the loop they come in: the requests answered,
  and the exception that ended the serving, if any.
\<close>

fun serve :: "h2o_api \<Rightarrow> H2OServer \<Rightarrow> h2o_req list \<Rightarrow> h2o_req list \<times> cxx_error option" where
  "serve api s [] = ([], None)"
| "serve api s (req # reqs) =
     (case answer api s req of
        Inl e \<Rightarrow> ([], Some e)
      | Inr (code, r) \<Rightarrow>
          (case serve api s reqs of (answered, e) \<Rightarrow> ((case r of None \<Rightarrow> answered | Some r' \<Rightarrow> r' # answered), e)))"

text \<open>\<open>main\<close> from the event loop on: what ends it when the loop itself does not end.\<close>

definition main_after_loop ::
  "uv_env \<Rightarrow> H2OServer \<Rightarrow> h2o_req list \<times> cxx_error option \<Rightarrow> program_end" where
  "main_after_loop uv s served =
     (case snd served of
        None \<Rightarrow> at_exit 0 (main_signal uv) (Some s)
      | Some e \<Rightarrow> main_catch e (main_signal uv) (Some s))"

lemma answer_HandleImpl:
  "answer api s req = bind_result (HandleImpl api (routers s) req) (\<lambda>r. Inr (0, Some r))"
  by (simp add: answer_def HandlerCallback_def make_Request_def make_Response_def)

lemma serve_append:
  "snd (serve api s reqs) = None \<Longrightarrow>
     serve api s (reqs @ rest) = (fst (serve api s reqs) @ fst (serve api s rest), snd (serve api s rest))"
  by (induction reqs) (auto split: sum.splits prod.splits option.splits)

lemma serve_all_answered:
  assumes "\<forall>req \<in> set reqs. \<exists>r. HandleImpl api (routers s) req = Inr r \<and> P req r"
  shows "snd (serve api s reqs) = None \<and> list_all2 P reqs (fst (serve api s reqs))"
  using assms by (induction reqs) (auto simp: answer_HandleImpl split: prod.splits)

section \<open>The requests the program answers\<close>

text \<open>The parameters the handler gets for the segments of a path; \<open>None\<close> for a path of another shape.\<close>

definition sample_params :: "string list \<Rightarrow> params option" where
  "sample_params segs =
     (case segs of
        [p] \<Rightarrow> if p = ''post'' then Some [] else None
      | [p, v] \<Rightarrow> Some (if p = ''post'' then [(''id'', v)] else [(''year'', p), (''month'', v)])
      | [p, v, w] \<Rightarrow> if p = ''post'' then Some [(''id'', v), (''slug'', w)] else None
      | [y, m, p, v, w] \<Rightarrow> if y \<noteq> ''post'' \<and> p = ''post''
          then Some [(''year'', y), (''month'', m), (''id'', v), (''slug'', w)] else None
      | _ \<Rightarrow> None)"

definition ident :: "string \<Rightarrow> bool" where
  "ident s = (s \<noteq> [] \<and> (\<forall>c \<in> set s. ident_char c))"

lemma sample_match:
  assumes "\<forall>x \<in> set segs. ident x" and "sample_params segs = Some ps"
  shows "\<exists>m p. p \<in> fst ` set (main_routes hello) \<and> handler m = Some f \<and> key m = hasher p \<and>
    match_parts ([] # segs) (main_tree (hasher ''/post'') (hasher ''/post/{id}'') (hasher ''/post/{id}/{slug}'')
      (hasher ''/{year}/{month}'') (hasher ''/{year}/{month}/post/{id}/{slug}'') f) [] = (Some m, ps)"
proof -
  note [simp] = main_tree_def main_parts Let_def param_value_iff main_routes_def
  have nk: "x \<noteq> param_key" if "x \<in> set segs" for x
    using assms(1) that ident_not_key by (simp add: ident_def)
  consider (1) "segs = [''post'']" "ps = []"
    | (2) v where "segs = [''post'', v]" "ps = [(''id'', v)]"
    | (3) y m where "segs = [y, m]" "y \<noteq> ''post''" "ps = [(''year'', y), (''month'', m)]"
    | (4) v w where "segs = [''post'', v, w]" "ps = [(''id'', v), (''slug'', w)]"
    | (5) y m v w where "segs = [y, m, ''post'', v, w]" "y \<noteq> ''post''"
        "ps = [(''year'', y), (''month'', m), (''id'', v), (''slug'', w)]"
    using assms(2) by (auto simp: sample_params_def split: list.splits if_splits)
  then show ?thesis
  proof cases
    case 1
    then show ?thesis by auto
  next
    case 2
    with nk [of v] assms(1) show ?thesis by (auto simp: ident_def)
  next
    case 3
    with nk [of y] nk [of m] assms(1) show ?thesis by (auto simp: ident_def)
  next
    case 4
    with nk [of v] nk [of w] assms(1) show ?thesis by (auto simp: ident_def)
  next
    case 5
    with nk [of y] nk [of m] nk [of v] nk [of w] assms(1) show ?thesis by (auto simp: ident_def)
  qed
qed

lemma ident_no_slash: "ident x \<Longrightarrow> CHR ''/'' \<notin> set x"
  using slash_not_ident_char by (auto simp: ident_def)

lemma sample_request:
  assumes "register_all hasher (main_routes hello) = Inr g" and "inj_on hasher (fst ` set (main_routes hello))"
    and "GetPath req = slash_path segs" and "\<forall>x \<in> set segs. ident x" and "sample_params segs = Some ps"
  shows "HandleImpl api g req = hello ps req"
proof -
  from sample_match [OF assms(4,5), of hello Dispatcher_fn hasher] obtain m p
    where m: "p \<in> fst ` set (main_routes hello)" "handler m = Some Dispatcher_fn" "key m = hasher p"
      "match_parts ([] # segs) (router g) [] = (Some m, ps)"
    unfolding main_registered [OF assms(1)] by blast
  have "splits (CHR ''/'') (GetPath req) = [] # segs"
    unfolding assms(3) using assms(4) ident_no_slash by (intro splits_slash_path) blast
  with m have "MatchRoute (GetPath req) [] (router g) =
      Inr (\<lparr>executor = Some (Some Dispatcher_fn), result_key = Some (hasher p)\<rparr>, ps)"
    by (simp add: MatchRoute_eq node_match_def)
  from main_match_runs [OF assms(1,2) this m(1)] show ?thesis .
qed

lemma sample_params_names:
  "sample_params segs = Some ps \<Longrightarrow> distinct (map fst ps) \<and> (\<forall>m \<in> set ps. nul \<notin> set (fst m))"
  by (auto simp: sample_params_def split: list.splits if_splits)

text \<open>A request for an inner node of the tree.\<close>

lemma year_request:
  assumes "register_all hasher (main_routes hello) = Inr g"
    and "GetPath req = slash_path [v]" and "ident v" and "v \<noteq> ''post''"
  shows "HandleImpl api g req \<in> {Inl Out_of_range, Inl Bad_function_call}"
proof -
  have "\<exists>cs. match_parts [[], v] (router g) [] = (Some (pnode ''year'' cs None 0), [(''year'', v)])"
    unfolding main_registered [OF assms(1)] using assms(3) by (intro main_match(4) assms(4)) (auto simp: ident_def)
  then obtain cs where m: "match_parts [[], v] (router g) [] = (Some (pnode ''year'' cs None 0), [(''year'', v)])"
    by blast
  have "splits (CHR ''/'') (GetPath req) = [[], v]"
    unfolding assms(2) using assms(3) ident_no_slash by (intro splits_slash_path) simp
  with m have "MatchRoute (GetPath req) [] (router g) = Inr (node_match (pnode ''year'' cs None 0), [(''year'', v)])"
    by (simp add: MatchRoute_eq)
  from HandleImpl_cases [OF assms(1) this, of api] show ?thesis by simp
qed

lemma main_register_routers:
  assumes "for_result (\<lambda>(path, h). RegisterHandler hasher path h) regs s = Inr s'"
  shows "for_result (\<lambda>(path, h). RegisterRouteHandler hasher path h) regs (routers s) = Inr (routers s')"
  using assms by (induction regs arbitrary: s) (fastforce simp: RegisterHandler_def result_simps)+

text \<open>The server of the program, after its registrations.\<close>

definition sample_server :: "net_env \<Rightarrow> (string \<Rightarrow> size_t) \<Rightarrow> request_handler \<Rightarrow> H2OServer result" where
  "sample_server env hasher hello =
     bind_result (make_H2OServer env main_host main_port default_server_name) (main_register hasher hello)"

lemma sample_server_routers:
  "sample_server env hasher hello = Inr s \<Longrightarrow> register_all hasher (main_routes hello) = Inr (routers s)"
  by (auto simp: sample_server_def main_register_def register_all_def result_simps
      dest!: main_register_routers make_H2OServer_state)

section \<open>Properties\<close>

text \<open>A request of one of the five registered shapes, and what its answer has to be.\<close>

definition sample_shape :: "h2o_req \<Rightarrow> bool" where
  "sample_shape req =
     (\<exists>segs. GetPath req = slash_path segs \<and> (\<forall>x \<in> set segs. ident x) \<and> sample_params segs \<noteq> None)"

definition sample_answer :: "'v rapidjson \<Rightarrow> h2o_api \<Rightarrow> h2o_req \<Rightarrow> h2o_req \<Rightarrow> bool" where
  "sample_answer R api req r =
     (\<exists>segs ps. GetPath req = slash_path segs \<and> sample_params segs = Some ps \<and> hello_answer R api ps req r)"

lemma sample_request_answered:
  fixes R :: "'v rapidjson"
  assumes "rapidjson_laws R" and "writes_plain R" and "header_search (find_header_by_str api)"
    and "register_all hasher (main_routes (HelloWorldHandler api R)) = Inr g"
    and "inj_on hasher (fst ` set (main_routes (HelloWorldHandler api R)))" and "sample_shape req"
  shows "\<exists>r. HandleImpl api g req = Inr r \<and> sample_answer R api req r"
proof -
  from assms(6) obtain segs ps where r: "GetPath req = slash_path segs" "\<forall>x \<in> set segs. ident x" "sample_params segs = Some ps"
    unfolding sample_shape_def by blast
  from sample_params_names [OF r(3)] have ps: "distinct (map fst ps)" "\<forall>m \<in> set ps. nul \<notin> set (fst m)" by simp_all
  from hello_answered [OF assms(1-3) ps, of req] sample_request [OF assms(4,5) r] r(1,3) show ?thesis
    unfolding sample_answer_def by auto
qed

text \<open>C10. The whole path of a request, for the sample program: whatever sequence of requests of the five
  registered shapes h2o has for the callback, it returns for each of them, and each is answered, in
  order, with status 200 and the text of the document that has the five headers of that request and the
  parameters of its path at their places, and nothing else. The JSON library is only assumed to write
  documents without floating-point numbers.\<close>

theorem sample_program_serves:
  fixes R :: "'v rapidjson"
  assumes "rapidjson_laws R" and "writes_plain R" and "header_search (find_header_by_str api)"
    and "sample_server env hasher (HelloWorldHandler api R) = Inr s"
    and "inj_on hasher (fst ` set (main_routes (HelloWorldHandler api R)))" and "\<forall>req \<in> set reqs. sample_shape req"
  shows "snd (serve api s reqs) = None \<and> list_all2 (sample_answer R api) reqs (fst (serve api s reqs))"
  using sample_request_answered [OF assms(1-3) sample_server_routers [OF assms(4)] assms(5)] assms(6)
  by (intro serve_all_answered) blast

text \<open>A writer that refuses every document with a floating-point number in it, and the sample server on it.\<close>

fun dom_has_double :: "dom \<Rightarrow> bool" where
  "dom_has_double (DDouble x) = True"
| "dom_has_double (DArray vs) = (\<exists>v \<in> set vs. dom_has_double v)"
| "dom_has_double (DObject ms) = (\<exists>m \<in> set ms. dom_has_double (snd m))"
| "dom_has_double v = False"

definition sample_json :: "dom rapidjson" where
  "sample_json = plain_json\<lparr>rj_write := (\<lambda>d. if dom_has_double d then None else Some (dom_text (\<lambda>x. []) d))\<rparr>"

lemma sample_json_laws: "rapidjson_laws sample_json"
  using plain_json_laws unfolding rapidjson_laws_def sample_json_def by simp

lemma update_set: "set (AList.update k v xs) \<subseteq> insert (k, v) (set xs)"
  by (induction xs) auto

lemma sample_json_writes: "writes_plain sample_json"
proof -
  have "\<not> dom_has_double d" if "plain_made sample_json d" for d
    using that
  proof (induction rule: plain_made.induct)
    case (add d x k)
    then show ?case by (cases d) (auto simp: sample_json_def plain_json_sel)
  next
    case (put d x k)
    then show ?case
      using update_set [of k x "members_of d"] by (cases d) (fastforce simp: sample_json_def plain_json_sel)+
  qed (simp_all add: sample_json_def plain_json_sel)
  then show ?thesis by (simp add: writes_plain_def sample_json_def)
qed

lemma pattern_number_inj: "inj_on pattern_number (fst ` set (main_routes hello))"
  by (simp add: main_routes_def pattern_number_def)

lemma sample_server_starts: "\<exists>s. sample_server good_env hasher hello = Inr s"
proof -
  have "\<exists>s. make_H2OServer good_env main_host main_port default_server_name = Inr s"
    by (simp add: make_H2OServer_def RegisterGlobalHandler_def MakePiconautHandler_def good_env_def is_null_ptr_def Let_def)
  then obtain s where s: "make_H2OServer good_env main_host main_port default_server_name = Inr s" by blast
  have "\<exists>t. for_result (\<lambda>(path, h). RegisterHandler hasher path h) regs u = Inr t"
    if "\<forall>p \<in> fst ` set regs. IsValidRoute p" for regs u
    using that by (induction regs arbitrary: u) (auto simp: RegisterHandler_def RegisterRouteHandler_def AddRoute_eq Let_def)
  from this [OF main_routes_valid] s show ?thesis by (simp add: sample_server_def main_register_def)
qed

lemma list_api_headers: "header_search (find_header_by_str list_api)"
  by (simp add: list_api_def front.header_search_axioms)

lemma sample_reqs_shape:
  "\<forall>req \<in> set [plain_request ''GET'' ''/post/5'' [], plain_request ''GET'' ''/2024/07'' []]. sample_shape req"
proof -
  have id: "ident ''post''" "ident ''5''" "ident ''2024''" "ident ''07''"
    by (simp_all add: ident_def in_class_def in_range_def ident_class_def)
  have "\<exists>segs. ''/post/5'' = slash_path segs \<and> (\<forall>x \<in> set segs. ident x) \<and> sample_params segs \<noteq> None"
    by (intro exI [of _ "[''post'', ''5'']"]) (simp add: id sample_params_def)
  moreover have "\<exists>segs. ''/2024/07'' = slash_path segs \<and> (\<forall>x \<in> set segs. ident x) \<and> sample_params segs \<noteq> None"
    by (intro exI [of _ "[''2024'', ''07'']"]) (simp add: id sample_params_def)
  ultimately show ?thesis by (simp add: sample_shape_def)
qed

theorem sample_program_serves_witness:
  "\<exists>s. sample_server good_env pattern_number (HelloWorldHandler list_api sample_json) = Inr s \<and>
     snd (serve list_api s [plain_request ''GET'' ''/post/5'' [], plain_request ''GET'' ''/2024/07'' []]) = None \<and>
     list_all2 (sample_answer sample_json list_api)
       [plain_request ''GET'' ''/post/5'' [], plain_request ''GET'' ''/2024/07'' []]
       (fst (serve list_api s [plain_request ''GET'' ''/post/5'' [], plain_request ''GET'' ''/2024/07'' []]))"
proof -
  let ?reqs = "[plain_request ''GET'' ''/post/5'' [], plain_request ''GET'' ''/2024/07'' []]"
  obtain s where s: "sample_server good_env pattern_number (HelloWorldHandler list_api sample_json) = Inr s"
    using sample_server_starts by blast
  from sample_program_serves [OF sample_json_laws sample_json_writes list_api_headers s pattern_number_inj sample_reqs_shape] s
  show ?thesis by blast
qed

text \<open>C15. One request ends the program: after any requests that were answered, a request \<open>/v\<close> with a single
  segment other than \<open>post\<close> is not answered; its exception leaves the callback, the event loop and
  \<open>Start\<close>, the requests behind it are lost, and the way out of \<open>main\<close> ends in \<open>std::terminate\<close>.\<close>

theorem one_request_ends_program:
  assumes "sample_server env hasher hello = Inr s" and "snd (serve api s reqs) = None"
    and "GetPath bad = slash_path [v]" and "ident v" and "v \<noteq> ''post''"
  shows "\<exists>e. serve api s (reqs @ bad # lost) = (fst (serve api s reqs), Some e) \<and>
    e \<in> {Out_of_range, Bad_function_call} \<and>
    main_after_loop uv s (serve api s (reqs @ bad # lost)) = Aborted Terminate_called"
proof -
  from year_request [OF sample_server_routers [OF assms(1)] assms(3-5), of api] obtain e
    where e: "HandleImpl api (routers s) bad = Inl e" "e \<in> {Out_of_range, Bad_function_call}" by blast
  have served: "serve api s (reqs @ bad # lost) = (fst (serve api s reqs), Some e)"
    using e(1) by (simp add: serve_append [OF assms(2)] answer_HandleImpl)
  moreover have "main_after_loop uv s (serve api s (reqs @ bad # lost)) = Aborted Terminate_called"
    using e(2) unfolding served by (auto simp: main_after_loop_def main_catch_def at_exit_def main_signal_destroyed)
  ultimately show ?thesis using e(2) by blast
qed

theorem one_request_ends_program_witness:
  "\<exists>s e. sample_server good_env pattern_number (HelloWorldHandler list_api sample_json) = Inr s \<and>
     serve list_api s ([] @ plain_request ''GET'' ''/2024'' [] # [plain_request ''GET'' ''/post'' []]) =
       (fst (serve list_api s []), Some e) \<and> e \<in> {Out_of_range, Bad_function_call} \<and>
     main_after_loop \<lparr>init_code = (\<lambda>h. 0), start_code = (\<lambda>h. 0)\<rparr> s
       (serve list_api s ([] @ plain_request ''GET'' ''/2024'' [] # [plain_request ''GET'' ''/post'' []])) =
       Aborted Terminate_called"
proof -
  obtain s where s: "sample_server good_env pattern_number (HelloWorldHandler list_api sample_json) = Inr s"
    using sample_server_starts by blast
  have "ident ''2024''" by (simp add: ident_def in_class_def in_range_def ident_class_def)
  with one_request_ends_program [OF s, where reqs = "[]" and bad = "plain_request ''GET'' ''/2024'' []" and v = "''2024''"] s
  show ?thesis by fastforce
qed

end
