(* ===== verification/Interrupts.thy ===== *)
theory Interrupts
  imports Serving
begin

text \<open>
  The sample program with its second thread. \<open>main\<close> (\<open>src/main.cc\<close>) starts the loop of the signal
  handler in a thread of its own before it makes the server, so that the callback
  \<open>CaptureSignalDefault\<close> can run between any two of \<open>main\<close>'s steps. Here \<open>main\<close> is taken step by step, a
  step being a statement of \<open>main\<close> or what one turn of the event loop brings, and interleaved with the
  signals that are sent to the process: with the callbacks of libuv, and with the default action of a
  signal that libuv does not watch. A callback and a step of \<open>main\<close> do not overlap; that the callback
  may read \<open>g_server_\<close> while \<open>main\<close> assigns it, without a lock, is a race of the program and not here.
\<close>

section \<open>The steps of main\<close>

text \<open>What a turn of the event loop meets: a request, or an error of the loop itself.\<close>

datatype loop_event = Request h2o_req | Loop_error

text \<open>Where \<open>main\<close> is: before the server is made, with routes still to register, in the loop, at its end.\<close>

datatype main_at =
    Constructing
  | Registering "(string \<times> handler_ptr) list"
  | Looping "loop_event list"
  | Ended program_end

record process =
  main_at :: main_at
  g_server :: "H2OServer option"
  g_signal :: "H2OServer option SignalHandler"
  answered :: "h2o_req list"

text \<open>What the program runs on.\<close>

record world =
  net :: net_env
  path_hash :: "string \<Rightarrow> size_t"
  hello :: request_handler
  h2o :: h2o_api
  events :: "loop_event list"

definition start_process :: "uv_env \<Rightarrow> process" where
  "start_process uv =
     \<lparr>main_at = Constructing, g_server = None, g_signal = main_signal uv, answered = []\<rparr>"

text \<open>An exception that reaches \<open>main\<close>, and the end of its block.\<close>

definition main_throws :: "cxx_error \<Rightarrow> process \<Rightarrow> process" where
  "main_throws e p = p\<lparr>main_at := Ended (main_catch e (g_signal p) (g_server p))\<rparr>"

definition main_returns :: "process \<Rightarrow> process" where
  "main_returns p = p\<lparr>main_at := Ended (at_exit 0 (g_signal p) (g_server p))\<rparr>"

definition register_step :: "world \<Rightarrow> string \<times> handler_ptr \<Rightarrow> (string \<times> handler_ptr) list \<Rightarrow> H2OServer \<Rightarrow> process \<Rightarrow> process" where
  "register_step w r rest s p =
     (case RegisterHandler (path_hash w) (fst r) (snd r) s of
        Inl e \<Rightarrow> main_throws e p
      | Inr s' \<Rightarrow> p\<lparr>g_server := Some s', main_at := Registering rest\<rparr>)"

definition start_step :: "world \<Rightarrow> H2OServer \<Rightarrow> process \<Rightarrow> process" where
  "start_step w s p =
     (case Start_setup (net w) s of
        (s', Inl e) \<Rightarrow> main_throws e (p\<lparr>g_server := Some s'\<rparr>)
      | (s', Inr _) \<Rightarrow> p\<lparr>g_server := Some s', main_at := Looping (events w)\<rparr>)"

definition loop_step :: "world \<Rightarrow> loop_event \<Rightarrow> loop_event list \<Rightarrow> H2OServer \<Rightarrow> process \<Rightarrow> process" where
  "loop_step w ev rest s p =
     (case ev of
        Loop_error \<Rightarrow> main_returns p
      | Request req \<Rightarrow>
          (case answer (h2o w) s req of
             Inl e \<Rightarrow> main_throws e p
           | Inr (code, r) \<Rightarrow>
               p\<lparr>answered := answered p @ (case r of None \<Rightarrow> [] | Some a \<Rightarrow> [a]), main_at := Looping rest\<rparr>))"

text \<open>
  The next step of \<open>main\<close>: \<open>None\<close> at its end, and in the loop while nothing happens. Calls on a null
  \<open>g_server_\<close> would be undefined.
\<close>

definition on_server :: "(H2OServer \<Rightarrow> process \<Rightarrow> process) \<Rightarrow> process \<Rightarrow> process option" where
  "on_server f p = Some
     (case g_server p of None \<Rightarrow> main_throws (Undefined_read ''g_server_'') p | Some s \<Rightarrow> f s p)"

definition main_step :: "world \<Rightarrow> process \<Rightarrow> process option" where
  "main_step w p =
     (case main_at p of
        Constructing \<Rightarrow> Some
          (case make_H2OServer (net w) main_host main_port default_server_name of
             Inl e \<Rightarrow> main_throws e p
           | Inr s \<Rightarrow> p\<lparr>g_server := Some s, main_at := Registering (main_routes (hello w))\<rparr>)
      | Registering (r # rest) \<Rightarrow> on_server (register_step w r rest) p
      | Registering [] \<Rightarrow> on_server (start_step w) p
      | Looping (ev # rest) \<Rightarrow> on_server (loop_step w ev rest) p
      | Looping [] \<Rightarrow> None
      | Ended e \<Rightarrow> None)"

section \<open>The callbacks of the signal thread\<close>

text \<open>The handles libuv watches after a sequence of calls.\<close>

primrec uv_watch :: "uv_env \<Rightarrow> uv_call \<Rightarrow> handle set \<Rightarrow> handle set" where
  "uv_watch uv Uv_loop_new A = A"
| "uv_watch uv (Uv_signal_init h) A = A"
| "uv_watch uv (Uv_signal_start h n) A = (if start_code uv h = 0 then insert h A else A)"
| "uv_watch uv (Uv_signal_stop h) A = A - {h}"
| "uv_watch uv (Uv_close h) A = A - {h}"
| "uv_watch uv Uv_stop A = A"
| "uv_watch uv Uv_run_thread A = A"
| "uv_watch uv Uv_join A = A"

definition watched :: "uv_env \<Rightarrow> 'p SignalHandler \<Rightarrow> handle set" where
  "watched uv s = fold (uv_watch uv) (uv_calls s) {}"

definition deliver :: "handle \<Rightarrow> process \<Rightarrow> process" where
  "deliver h p =
     (case OnSignal h (signal_number h) (g_signal p) (g_server p) of
        (sg, server) \<Rightarrow> p\<lparr>g_signal := sg, g_server := server\<rparr>)"

definition kill :: "SignalType \<Rightarrow> process \<Rightarrow> process" where
  "kill g p = p\<lparr>main_at := Ended (Killed g)\<rparr>"

text \<open>
  What a signal does that is sent to the process. While libuv watches it, its callback runs; after a
  \<open>uv_stop\<close> the loop of the signal thread may have come to its end already, and then nobody looks at the
  signal any more. A signal that libuv does not watch, or no longer since \<open>uv_signal_stop\<close> has given its
  handler back, has the default action of the system, which for each signal of \<open>SignalType\<close> ends the
  process.
\<close>

inductive signal_effect :: "uv_env \<Rightarrow> SignalType \<Rightarrow> process \<Rightarrow> process \<Rightarrow> bool" for uv g p where
  delivered: "g \<in> watched uv (g_signal p) \<Longrightarrow> signal_effect uv g p (deliver g p)"
| unseen: "g \<in> watched uv (g_signal p) \<Longrightarrow> Uv_stop \<in> set (uv_calls (g_signal p)) \<Longrightarrow> signal_effect uv g p p"
| default_action: "g \<notin> watched uv (g_signal p) \<Longrightarrow> GetSignalHandle g = Some g \<Longrightarrow> signal_effect uv g p (kill g p)"


text \<open>\<open>main\<close> goes on, or a signal comes, any one at any time while the process lives.\<close>

inductive process_step :: "uv_env \<Rightarrow> world \<Rightarrow> process \<Rightarrow> process \<Rightarrow> bool" for uv w where
  main: "main_step w p = Some p' \<Longrightarrow> process_step uv w p p'"
| signal: "signal_effect uv g p p' \<Longrightarrow> (\<forall>e. main_at p \<noteq> Ended e) \<Longrightarrow> process_step uv w p p'"

inductive_cases process_stepE: "process_step uv w p p'"

text \<open>The same program when no signal comes.\<close>

definition quiet_step :: "world \<Rightarrow> process \<Rightarrow> process \<Rightarrow> bool" where
  "quiet_step w p p' = (main_step w p = Some p')"

section \<open>Interrupts leave main alone\<close>

text \<open>Two states in which \<open>main\<close> has done the same; only the calls to libuv may differ.\<close>

definition same_main :: "process \<Rightarrow> process \<Rightarrow> bool" where
  "same_main p q = (main_at p = main_at q \<and> g_server p = g_server q \<and> answered p = answered q)"

text \<open>The handler as \<open>main\<close> has set it up, whatever it has told libuv since.\<close>

definition armed :: "process \<Rightarrow> bool" where
  "armed p = (signals (g_signal p) = [] \<and> thread_joinable (g_signal p) \<and>
     callback (g_signal p) = Some CaptureSignalDefault)"

lemma CaptureSignalDefault_id: "CaptureSignalDefault signum g = g"
  by (simp add: CaptureSignalDefault_def Stop_def split: option.split)

lemma armed_at_exit: "armed p \<Longrightarrow> at_exit code (g_signal p) g = Aborted Terminate_called"
  by (simp add: armed_def at_exit_def destroy_SignalHandler_def StopAllSignals_def Let_def)

lemma armed_main_signal: "armed (start_process uv)"
  by (simp add: armed_def start_process_def main_signal_def sig_Start_def RegisterCallback_def
      make_SignalHandler_def InitializeDefaultSignals_def)

lemma main_throws_eq:
  "armed p \<Longrightarrow> main_throws e p =
     p\<lparr>main_at := Ended (Aborted (if is_std_exception e then Terminate_called else e))\<rparr>"
  by (simp add: main_throws_def main_catch_def armed_at_exit)

lemma main_returns_eq: "armed p \<Longrightarrow> main_returns p = p\<lparr>main_at := Ended (Aborted Terminate_called)\<rparr>"
  by (simp add: main_returns_def armed_at_exit)

lemma armed_frame [simp]:
  "armed (p\<lparr>main_at := a\<rparr>) = armed p" "armed (p\<lparr>g_server := s\<rparr>) = armed p" "armed (p\<lparr>answered := rs\<rparr>) = armed p"
  by (simp_all add: armed_def)

lemma same_main_update [simp]:
  "same_main p q \<Longrightarrow> same_main (p\<lparr>main_at := a\<rparr>) (q\<lparr>main_at := a\<rparr>)"
  "same_main p q \<Longrightarrow> same_main (p\<lparr>g_server := s\<rparr>) (q\<lparr>g_server := s\<rparr>)"
  "same_main p q \<Longrightarrow> same_main (p\<lparr>answered := rs\<rparr>) (q\<lparr>answered := rs\<rparr>)"
  by (simp_all add: same_main_def)

lemma on_server_cong:
  assumes "same_main p q" and "armed p" and "armed q"
    and "\<And>s. same_main (f s p) (f s q)"
  shows "\<exists>p' q'. on_server f p = Some p' \<and> on_server f q = Some q' \<and> same_main p' q'"
  using assms by (cases "g_server q") (auto simp: on_server_def main_throws_eq same_main_def)

lemma main_step_same:
  assumes "same_main p q" and "armed p" and "armed q" and "main_step w p = Some p'"
  shows "\<exists>q'. main_step w q = Some q' \<and> same_main p' q'"
proof -
  have a: "main_at q = main_at p" "answered q = answered p" using assms(1) by (simp_all add: same_main_def)
  note eqs = assms(1-3) main_throws_eq main_returns_eq
  have "same_main (register_step w r rest s p) (register_step w r rest s q)" for r rest s
    using eqs by (simp add: register_step_def split: sum.split)
  then have reg: "\<exists>p' q'. on_server (register_step w r rest) p = Some p' \<and> on_server (register_step w r rest) q = Some q' \<and>
      same_main p' q'" for r rest
    by (rule on_server_cong [OF assms(1-3)])
  have "same_main (start_step w s p) (start_step w s q)" for s
    using eqs by (simp add: start_step_def split: sum.split prod.split)
  then have start: "\<exists>p' q'. on_server (start_step w) p = Some p' \<and> on_server (start_step w) q = Some q' \<and>
      same_main p' q'"
    by (rule on_server_cong [OF assms(1-3)])
  have "same_main (loop_step w ev rest s p) (loop_step w ev rest s q)" for ev rest s
    using eqs a by (simp add: loop_step_def split: sum.split prod.split loop_event.split)
  then have loop: "\<exists>p' q'. on_server (loop_step w ev rest) p = Some p' \<and> on_server (loop_step w ev rest) q = Some q' \<and>
      same_main p' q'" for ev rest
    by (rule on_server_cong [OF assms(1-3)])
  show ?thesis
  proof (cases "main_at p")
    case Constructing
    with assms(4) a eqs show ?thesis by (auto simp: main_step_def split: sum.splits)
  next
    case (Registering rs)
    with assms(4) a reg start show ?thesis by (cases rs) (fastforce simp: main_step_def)+
  next
    case (Looping evs)
    with assms(4) a loop show ?thesis by (cases evs) (fastforce simp: main_step_def)+
  next
    case (Ended e)
    with assms(4) show ?thesis by (simp add: main_step_def)
  qed
qed

lemma main_step_signal: "main_step w p = Some p' \<Longrightarrow> g_signal p' = g_signal p"
  by (auto simp: main_step_def on_server_def main_throws_def main_returns_def register_step_def start_step_def
      loop_step_def split: main_at.splits list.splits option.splits sum.splits prod.splits loop_event.splits)

lemma armed_main_step: "main_step w p = Some p' \<Longrightarrow> armed p' = armed p"
  by (simp add: armed_def main_step_signal)

lemma deliver_same: "armed p \<Longrightarrow> same_main (deliver h p) p \<and> armed (deliver h p)"
  by (auto simp: armed_def deliver_def same_main_def OnSignal_def Let_def CaptureSignalDefault_id)

section \<open>What the signals have done\<close>

text \<open>The handler after the callbacks of the signals \<open>hs\<close>, in order.\<close>

definition handled :: "uv_env \<Rightarrow> SignalType list \<Rightarrow> process \<Rightarrow> bool" where
  "handled uv hs p =
     (uv_calls (g_signal p) = uv_calls (main_signal uv) @ concat (map (\<lambda>h. [Uv_signal_stop h, Uv_stop]) hs))"

lemma deliver_signals:
  "uv_calls (g_signal (deliver h p)) = uv_calls (g_signal p) @ [Uv_signal_stop h, Uv_stop]"
  by (simp add: deliver_def OnSignal_def Let_def split: option.split)

lemma main_signal_calls:
  "uv_calls (main_signal uv) =
     [Uv_loop_new, Uv_signal_init SIGINT_SIGNAL, Uv_signal_init SIGTERM_SIGNAL, Uv_signal_start SIGINT_SIGNAL 2,
      Uv_signal_start SIGTERM_SIGNAL 15, Uv_run_thread]"
proof -
  have u: "uv_calls (s\<lparr>data_set := d\<rparr>) = uv_calls s" "uv_calls (s\<lparr>is_run := b\<rparr>) = uv_calls s"
    "uv_calls (s\<lparr>thread_joinable := b\<rparr>) = uv_calls s"
    for d b and s :: "H2OServer option SignalHandler" by simp_all
  show ?thesis
    by (simp add: main_signal_def sig_Start_def RegisterCallback_def make_SignalHandler_def
        InitializeDefaultSignals_def InitializeSignal_def StartSignal_def Let_def u)
qed

text \<open>The signals libuv has agreed to watch.\<close>

definition captured :: "uv_env \<Rightarrow> SignalType set" where
  "captured uv = {g \<in> {SIGINT_SIGNAL, SIGTERM_SIGNAL}. start_code uv g = 0}"

lemma watched_handled: "handled uv hs p \<Longrightarrow> watched uv (g_signal p) = captured uv - set hs"
proof -
  have "fold (uv_watch uv) (concat (map (\<lambda>h. [Uv_signal_stop h, Uv_stop]) hs)) A = A - set hs" for A
    by (induction hs arbitrary: A) auto
  moreover have "fold (uv_watch uv) (uv_calls (main_signal uv)) {} = captured uv"
    by (auto simp: main_signal_calls captured_def)
  moreover assume "handled uv hs p"
  ultimately show ?thesis by (simp add: watched_def handled_def)
qed

lemma handled_start: "handled uv [] (start_process uv)"
  by (simp add: handled_def start_process_def)

lemma handled_deliver: "handled uv hs p \<Longrightarrow> handled uv (hs @ [h]) (deliver h p)"
  by (simp add: handled_def deliver_signals)


lemma handled_cong: "g_signal p = g_signal q \<Longrightarrow> handled uv hs p = handled uv hs q"
  by (simp add: handled_def)

text \<open>
  Signals leave what \<open>main\<close> does as it is: the process is where a run without signals is, or was, when a
  default action ended it.
\<close>

definition undisturbed :: "uv_env \<Rightarrow> world \<Rightarrow> process \<Rightarrow> bool" where
  "undisturbed uv w p =
     (\<exists>q. (quiet_step w)\<^sup>*\<^sup>* (start_process uv) q \<and> armed q \<and> g_server q = g_server p \<and> answered q = answered p \<and>
        (main_at q = main_at p \<or>
         (\<exists>g. main_at p = Ended (Killed g) \<and> g \<notin> watched uv (g_signal p) \<and> (\<forall>e. main_at q \<noteq> Ended e))))"

lemma undisturbed_live:
  assumes "undisturbed uv w p" and "\<forall>g. main_at p \<noteq> Ended (Killed g)"
  obtains q where "(quiet_step w)\<^sup>*\<^sup>* (start_process uv) q" "armed q" "same_main p q"
  using assms unfolding undisturbed_def same_main_def by metis

lemma undisturbedI: "(quiet_step w)\<^sup>*\<^sup>* (start_process uv) q \<Longrightarrow> armed q \<Longrightarrow> same_main p q \<Longrightarrow> undisturbed uv w p"
  unfolding undisturbed_def same_main_def by metis

lemma undisturbed_main:
  assumes "undisturbed uv w p" and "armed p" and "main_step w p = Some p'"
  shows "undisturbed uv w p'"
proof -
  have "\<forall>g. main_at p \<noteq> Ended (Killed g)" using assms(3) by (auto simp: main_step_def)
  with assms(1) obtain q where q: "(quiet_step w)\<^sup>*\<^sup>* (start_process uv) q" "armed q" "same_main p q"
    by (rule undisturbed_live)
  from main_step_same [OF q(3) assms(2) q(2) assms(3)] obtain q' where q': "main_step w q = Some q'" "same_main p' q'"
    by blast
  have "(quiet_step w)\<^sup>*\<^sup>* (start_process uv) q'" using q(1) q'(1) by (metis quiet_step_def rtranclp.rtrancl_into_rtrancl)
  moreover have "armed q'" using q(2) q'(1) by (simp add: armed_main_step)
  ultimately show ?thesis using q'(2) by (rule undisturbedI)
qed

lemma undisturbed_signal:
  assumes "undisturbed uv w p" and "armed p" and "\<forall>e. main_at p \<noteq> Ended e" and "signal_effect uv g p p'"
  shows "undisturbed uv w p'"
proof -
  from assms(1,3) obtain q where q: "(quiet_step w)\<^sup>*\<^sup>* (start_process uv) q" "armed q" "same_main p q"
    by (metis undisturbed_live)
  from assms(4) show ?thesis
  proof cases
    case delivered
    with deliver_same [OF assms(2), of g] q(3) have "same_main p' q" by (auto simp: same_main_def)
    with q(1,2) show ?thesis by (rule undisturbedI)
  next
    case default_action
    with q assms(3) show ?thesis unfolding undisturbed_def by (auto simp: kill_def same_main_def)
  qed (use assms(1) in simp)
qed

lemma reachable_process:
  assumes "(process_step uv w)\<^sup>*\<^sup>* (start_process uv) p"
  shows "armed p \<and> undisturbed uv w p \<and> (\<exists>hs. distinct hs \<and> set hs \<subseteq> captured uv \<and> handled uv hs p)"
  using assms
proof (induction rule: rtranclp_induct)
  case base
  have "undisturbed uv w (start_process uv)"
    by (rule undisturbedI [OF _ armed_main_signal]) (simp_all add: same_main_def)
  with armed_main_signal [of uv] handled_start [of uv] show ?case by (intro conjI exI [of _ "[]"]) simp_all
next
  case (step p p')
  then obtain hs where hs: "distinct hs" "set hs \<subseteq> captured uv" "handled uv hs p" by blast
  from step(2) show ?case
  proof (rule process_stepE)
    assume m: "main_step w p = Some p'"
    with hs(3) have "handled uv hs p'" by (metis handled_cong main_step_signal)
    with step.IH hs(1,2) m show ?thesis by (auto simp: armed_main_step intro: undisturbed_main)
  next
    fix g assume g: "signal_effect uv g p p'" and live: "\<forall>e. main_at p \<noteq> Ended e"
    from g have "armed p' \<and> (\<exists>hs. distinct hs \<and> set hs \<subseteq> captured uv \<and> handled uv hs p')"
    proof cases
      case delivered
      with watched_handled [OF hs(3)] have "distinct (hs @ [g]) \<and> set (hs @ [g]) \<subseteq> captured uv"
        using hs(1,2) by simp
      with handled_deliver [OF hs(3), of g] deliver_same [of p g] step.IH delivered show ?thesis by metis
    next
      case default_action
      then have "g_signal p' = g_signal p" by (simp add: kill_def)
      with hs step.IH handled_cong [of p' p uv hs] show ?thesis by (auto simp: armed_def)
    qed (use step.IH in simp)
    with undisturbed_signal [OF _ _ live g] step.IH show ?thesis by blast
  qed
qed

section \<open>What main has answered\<close>

lemma serve_routers: "routers s = routers s' \<Longrightarrow> serve api s reqs = serve api s' reqs"
  by (induction reqs) (auto simp: answer_HandleImpl split: sum.split prod.split)

lemma Start_setup_routers: "routers (fst (Start_setup env s)) = routers s"
  by (simp add: Start_setup_def Let_def split: sum.split)

lemma serve_snoc:
  assumes "serve api s reqs = (rs, None)" and "answer api s req = Inr (code, r)"
  shows "serve api s (reqs @ [req]) = (rs @ (case r of None \<Rightarrow> [] | Some a \<Rightarrow> [a]), None)"
  using serve_append [of api s reqs "[req]"] assms by (simp split: option.split)

text \<open>What holds of \<open>main\<close> at each of its places.\<close>

definition main_progress :: "world \<Rightarrow> process \<Rightarrow> bool" where
  "main_progress w p =
     (case main_at p of
        Constructing \<Rightarrow> answered p = []
      | Registering rs \<Rightarrow> answered p = [] \<and>
          (\<exists>s0 s old. g_server p = Some s \<and> main_routes (hello w) = old @ rs \<and>
             make_H2OServer (net w) main_host main_port default_server_name = Inr s0 \<and>
             for_result (\<lambda>(path, h). RegisterHandler (path_hash w) path h) old s0 = Inr s)
      | Looping rest \<Rightarrow>
          (\<exists>s0 reqs. g_server p = Some (fst (Start_setup (net w) s0)) \<and> snd (Start_setup (net w) s0) = Inr () \<and>
             sample_server (net w) (path_hash w) (hello w) = Inr s0 \<and> events w = map Request reqs @ rest \<and>
             serve (h2o w) s0 reqs = (answered p, None))
      | Ended e \<Rightarrow> True)"

lemma main_progress_start: "main_progress w (start_process uv)"
  by (simp add: main_progress_def start_process_def)

lemma main_throws_progress: "main_progress w (main_throws e p)" "main_progress w (main_returns p)"
  by (simp_all add: main_progress_def main_throws_def main_returns_def)

lemma register_step_progress:
  assumes "main_progress w p" and "main_at p = Registering (r # rest)" and "g_server p = Some s"
  shows "main_progress w (register_step w r rest s p)"
proof (cases "RegisterHandler (path_hash w) (fst r) (snd r) s")
  case (Inl e)
  then show ?thesis by (simp add: register_step_def main_throws_progress)
next
  case (Inr s')
  from assms obtain s0 old where o: "main_routes (hello w) = old @ r # rest" "answered p = []"
    "make_H2OServer (net w) main_host main_port default_server_name = Inr s0"
    "for_result (\<lambda>(path, h). RegisterHandler (path_hash w) path h) old s0 = Inr s"
    by (auto simp: main_progress_def)
  have "for_result (\<lambda>(path, h). RegisterHandler (path_hash w) path h) (old @ [r]) s0 = Inr s'"
    using o(4) Inr by (simp add: for_result_append case_prod_beta result_simps)
  with o(1-3) Inr show ?thesis by (fastforce simp: register_step_def main_progress_def)
qed

lemma start_step_progress:
  assumes "main_progress w p" and "main_at p = Registering []" and "g_server p = Some s"
  shows "main_progress w (start_step w s p)"
proof -
  from assms have "sample_server (net w) (path_hash w) (hello w) = Inr s" "answered p = []"
    by (auto simp: main_progress_def sample_server_def main_register_def result_simps)
  then show ?thesis
    by (auto simp: start_step_def main_throws_progress split: prod.split sum.split)
      (auto simp: main_progress_def intro!: exI [of _ s] exI [of _ "[]"])
qed

lemma loop_step_progress:
  assumes "main_progress w p" and "main_at p = Looping (ev # rest)" and "g_server p = Some s"
  shows "main_progress w (loop_step w ev rest s p)"
proof (cases ev)
  case Loop_error
  then show ?thesis by (simp add: loop_step_def main_throws_progress)
next
  case (Request req)
  from assms obtain s0 reqs where o: "sample_server (net w) (path_hash w) (hello w) = Inr s0"
    "s = fst (Start_setup (net w) s0)" "snd (Start_setup (net w) s0) = Inr ()" "events w = map Request reqs @ Request req # rest"
    "serve (h2o w) s0 reqs = (answered p, None)"
    by (auto simp: main_progress_def Request)
  have routers: "routers s = routers s0" unfolding o(2) by (rule Start_setup_routers)
  show ?thesis
  proof (cases "answer (h2o w) s req")
    case (Inl e)
    then show ?thesis by (simp add: loop_step_def Request main_throws_progress)
  next
    case (Inr a)
    then obtain code r where a: "answer (h2o w) s0 req = Inr (code, r)" "a = (code, r)"
      using routers by (cases a) (simp add: answer_HandleImpl)
    from serve_snoc [OF o(5) a(1)] o(1,3,4) a(2) Inr assms(3) [unfolded o(2)] show ?thesis
      unfolding o(2) by (auto simp: loop_step_def Request main_progress_def intro!: exI [of _ s0] exI [of _ "reqs @ [req]"])
  qed
qed

lemma main_step_progress:
  assumes "main_progress w p" and "main_step w p = Some p'"
  shows "main_progress w p'"
proof (cases "main_at p")
  case Constructing
  with assms show ?thesis
    by (auto simp: main_step_def main_throws_progress split: sum.splits) (auto simp: main_progress_def)
next
  case (Registering rs)
  with assms show ?thesis
    using register_step_progress [OF assms(1)] start_step_progress [OF assms(1)]
    by (cases rs) (auto simp: main_step_def on_server_def main_throws_progress split: option.splits)
next
  case (Looping evs)
  with assms show ?thesis
    using loop_step_progress [OF assms(1)]
    by (cases evs) (auto simp: main_step_def on_server_def main_throws_progress split: option.splits)
qed (use assms in \<open>simp add: main_step_def\<close>)

lemma same_main_progress: "same_main p q \<Longrightarrow> main_progress w p = main_progress w q"
  unfolding same_main_def main_progress_def by (elim conjE) (simp only:)

lemma process_progress:
  assumes "(process_step uv w)\<^sup>*\<^sup>* (start_process uv) p"
  shows "main_progress w p"
  using assms
proof (induction rule: rtranclp_induct)
  case (step p p')
  from step(2) show ?case
  proof (rule process_stepE)
    assume "main_step w p = Some p'"
    with step.IH show ?thesis by (rule main_step_progress)
  next
    fix g assume "signal_effect uv g p p'"
    then show ?thesis
    proof cases
      case delivered
      with step.IH reachable_process [OF step(1)] show ?thesis
        using deliver_same same_main_progress by blast
    next
      case default_action
      then show ?thesis by (simp add: kill_def main_progress_def)
    qed (use step.IH in simp)
  qed
qed (rule main_progress_start)

text \<open>What \<open>Start\<close> has left of the server when \<open>main\<close> is in the loop.\<close>

definition listening :: "world \<Rightarrow> H2OServer \<Rightarrow> bool" where
  "listening w s =
     (open_fds (net_calls s) = [socket_fd (net w)] \<and> listeners s = socket_create (net w) 0 \<and> listeners s \<noteq> Null \<and>
      (\<forall>l. C_socket_close l \<notin> set (net_calls s)) \<and>
      (\<forall>sock. sock \<noteq> Null \<longrightarrow>
         net_calls (AcceptConnection False sock s) = net_calls s @ [C_accept (Some (evloop_create (net w) 0)) sock]))"

lemma RegisterHandler_net: "RegisterHandler hasher path h s = Inr s' \<Longrightarrow> net_calls s' = net_calls s"
  by (auto simp: RegisterHandler_def result_simps)

lemma sample_server_net:
  assumes "sample_server env hasher hl = Inr s"
  shows "open_fds (net_calls s) = [] \<and> (\<forall>l. C_socket_close l \<notin> set (net_calls s))"
proof -
  from assms obtain s0 where s0: "make_H2OServer env main_host main_port default_server_name = Inr s0"
    "for_result (\<lambda>(path, h). RegisterHandler hasher path h) (main_routes hl) s0 = Inr s"
    by (auto simp: sample_server_def main_register_def result_simps)
  from s0(2) have "net_calls s = net_calls s0"
    by (rule for_result_invariant [where P = "\<lambda>s. net_calls s = net_calls s0"]) (auto simp: RegisterHandler_net)
  moreover have "\<forall>l. C_socket_close l \<notin> set (net_calls s0)"
    using s0(1) by (auto simp: make_H2OServer_def RegisterGlobalHandler_def Let_def result_simps split: if_splits)
  ultimately show ?thesis using make_H2OServer_state [OF s0(1)] by simp
qed

lemma started_listening:
  assumes "sample_server (net w) (path_hash w) (hello w) = Inr s" and "snd (Start_setup (net w) s) = Inr ()"
  shows "listening w (fst (Start_setup (net w) s))"
proof -
  let ?s = "fst (Start_setup (net w) s)"
  from assms(2) have st: "Start_setup (net w) s = (?s, Inr ())" by (metis prod.collapse)
  note ready = Start_setup_ready [OF st]
  have "open_fds (net_calls ?s) = [socket_fd (net w)]"
    using Start_setup_fds [of s "net w"] sample_server_net [OF assms(1)] assms(2) by simp
  moreover have "\<forall>l. C_socket_close l \<notin> set (net_calls ?s)"
    using sample_server_net [OF assms(1)] assms(2)
    by (auto simp: Start_setup_def open_listener_def Let_def split: if_splits)
  ultimately show ?thesis using ready by (auto simp: listening_def AcceptConnection_def)
qed

section \<open>main reaches the event loop\<close>

lemma main_step_run: "main_step w p = Some p' \<Longrightarrow> (process_step uv w)\<^sup>*\<^sup>* p' q \<Longrightarrow> (process_step uv w)\<^sup>*\<^sup>* p q"
  by (meson process_step.main converse_rtranclp_into_rtranclp)

lemma registrations_run:
  assumes "for_result (\<lambda>(path, h). RegisterHandler (path_hash w) path h) rs s = Inr s'"
    and "main_at p = Registering rs" and "g_server p = Some s"
  shows "\<exists>p'. (process_step uv w)\<^sup>*\<^sup>* p p' \<and> main_at p' = Registering [] \<and> g_server p' = Some s'"
  using assms
proof (induction rs arbitrary: s p)
  case (Cons r rs)
  then obtain t where t: "RegisterHandler (path_hash w) (fst r) (snd r) s = Inr t"
    "for_result (\<lambda>(path, h). RegisterHandler (path_hash w) path h) rs t = Inr s'"
    by (cases r) (auto simp: result_simps)
  have "main_step w p = Some (p\<lparr>g_server := Some t, main_at := Registering rs\<rparr>)"
    using Cons.prems t(1) by (simp add: main_step_def on_server_def register_step_def)
  with Cons.IH [OF t(2), of "p\<lparr>g_server := Some t, main_at := Registering rs\<rparr>"] show ?case
    by (auto intro: main_step_run)
qed auto

lemma loop_reached:
  assumes "sample_server (net w) (path_hash w) (hello w) = Inr s" and "snd (Start_setup (net w) s) = Inr u"
  shows "\<exists>p. (process_step uv w)\<^sup>*\<^sup>* (start_process uv) p \<and> main_at p = Looping (events w)"
proof -
  let ?p = "start_process uv"
  from assms(1) obtain s0 where s0: "make_H2OServer (net w) main_host main_port default_server_name = Inr s0"
    "for_result (\<lambda>(path, h). RegisterHandler (path_hash w) path h) (main_routes (hello w)) s0 = Inr s"
    by (auto simp: sample_server_def main_register_def result_simps)
  let ?q = "?p\<lparr>g_server := Some s0, main_at := Registering (main_routes (hello w))\<rparr>"
  have "main_step w ?p = Some ?q" using s0(1) by (simp add: main_step_def start_process_def)
  moreover from registrations_run [OF s0(2), of ?q uv] obtain r
    where r: "(process_step uv w)\<^sup>*\<^sup>* ?q r" "main_at r = Registering []" "g_server r = Some s" by auto
  moreover have "\<exists>r'. main_step w r = Some r' \<and> main_at r' = Looping (events w)"
    using r(2,3) assms(2) by (cases "Start_setup (net w) s") (simp add: main_step_def on_server_def start_step_def)
  ultimately show ?thesis
    by (meson main_step_run process_step.main rtranclp.rtrancl_into_rtrancl)
qed

section \<open>Properties\<close>


text \<open>C16. The sample program keeps serving under interrupts: whenever \<open>main\<close> is in the event loop, whatever
  signals came before or between, the server object is there, its listening descriptor is open, its
  listener has not been closed and still hands connections to h2o with the context of the loop; and of
  the requests, all of the five registered shapes, a first part has been taken and each of them was
  answered, in order, by the document with its headers and parameters. As everywhere here, the callback
  reads \<open>g_server_\<close> between two steps of \<open>main\<close>, not while \<open>main\<close> assigns it.\<close>

theorem answers_under_interrupts:
  fixes R :: "'v rapidjson"
  assumes "(process_step uv w)\<^sup>*\<^sup>* (start_process uv) p" and "main_at p = Looping rest"
    and "rapidjson_laws R" and "writes_plain R" and "header_search (find_header_by_str (h2o w))"
    and "hello w = HelloWorldHandler (h2o w) R" and "inj_on (path_hash w) (fst ` set (main_routes (hello w)))"
    and "\<forall>req. Request req \<in> set (events w) \<longrightarrow> sample_shape req"
  shows "\<exists>s reqs. g_server p = Some s \<and> listening w s \<and> events w = map Request reqs @ rest \<and>
    list_all2 (sample_answer R (h2o w)) reqs (answered p)"
proof -
  from process_progress [OF assms(1)] assms(2) obtain s0 reqs where o:
    "g_server p = Some (fst (Start_setup (net w) s0))" "snd (Start_setup (net w) s0) = Inr ()"
    "sample_server (net w) (path_hash w) (hello w) = Inr s0" "events w = map Request reqs @ rest"
    "serve (h2o w) s0 reqs = (answered p, None)"
    by (auto simp: main_progress_def)
  have "\<forall>req \<in> set reqs. \<exists>r. HandleImpl (h2o w) (routers s0) req = Inr r \<and> sample_answer R (h2o w) req r"
    using sample_request_answered [OF assms(3-5) sample_server_routers [OF o(3) [unfolded assms(6)]] assms(7) [unfolded assms(6)]]
      assms(8) o(4) by auto
  from serve_all_answered [OF this] o(5) have "list_all2 (sample_answer R (h2o w)) reqs (answered p)" by simp
  with started_listening [OF o(3,2)] o(1,4) show ?thesis by blast
qed

text \<open>A world in which the server starts, and a libuv in which the signals can be watched.\<close>

definition calm_uv :: uv_env where
  "calm_uv = \<lparr>init_code = (\<lambda>h. 0), start_code = (\<lambda>h. 0)\<rparr>"

definition small_world :: world where
  "small_world = \<lparr>net = good_env, path_hash = pattern_number, hello = HelloWorldHandler list_api sample_json,
     h2o = list_api, events = [Request (plain_request ''GET'' ''/post/5'' []), Loop_error]\<rparr>"



theorem answers_under_interrupts_witness:
  "\<exists>p s reqs. (process_step calm_uv small_world)\<^sup>*\<^sup>* (start_process calm_uv) p \<and>
     main_at p = Looping (events small_world) \<and> g_server p = Some s \<and> listening small_world s \<and>
     events small_world = map Request reqs @ events small_world \<and>
     list_all2 (sample_answer sample_json (h2o small_world)) reqs (answered p)"
proof -
  obtain s where s: "sample_server (net small_world) (path_hash small_world) (hello small_world) = Inr s"
    using sample_server_starts by (auto simp: small_world_def)
  have "\<exists>u. snd (Start_setup (net small_world) t) = Inr u" for t
    by (simp add: small_world_def good_env_def Start_setup_def open_listener_def Let_def)
  with loop_reached [OF s] obtain p where p: "(process_step calm_uv small_world)\<^sup>*\<^sup>* (start_process calm_uv) p"
    "main_at p = Looping (events small_world)" by blast
  have h: "header_search (find_header_by_str (h2o small_world))" by (simp add: small_world_def list_api_headers)
  have r: "hello small_world = HelloWorldHandler (h2o small_world) sample_json" by (simp add: small_world_def)
  have i: "inj_on (path_hash small_world) (fst ` set (main_routes (hello small_world)))"
    by (simp add: small_world_def pattern_number_inj)
  have e: "\<forall>req. Request req \<in> set (events small_world) \<longrightarrow> sample_shape req"
    using sample_reqs_shape by (simp add: small_world_def)
  from answers_under_interrupts [OF p sample_json_laws sample_json_writes h r i e] p show ?thesis by blast
qed

end
