(* ===== verification/Spec2Isabelle.thy ===== *)
theory Spec2Isabelle
  imports Middleware Json_Value_Cursor Json_Map Query_Reference Multi_Server Impl_Threads Handler_Glue Data_Races
    Router_Reference Interrupts
begin

text \<open>
  Verification of Piconaut, a small C++ web framework on top of the HTTP library h2o.

  \<^bold>\<open>The program.\<close> A server (\<open>src/piconaut/http/http_single_server.cc\<close>, \<open>http_server.cc\<close>,
  \<open>impl/h2o_impl.h\<close>) opens a listening socket and runs h2o's event loop. For each request h2o calls
  \<open>HandlerBase::HandlerCallback\<close>, which wraps the request object in \<open>Request\<close> and \<open>Response\<close> and calls
  the \<open>GlobalDispatcherHandler\<close>. The dispatcher asks the \<open>Router\<close>, a trie of path segments with
  static and parameter nodes, for the route, looks the route up by the hash of its path, and runs the
  route's handler with the parameters the match has bound. Handlers build their answers with the JSON
  classes \<open>ValueBuilder\<close> and \<open>Value\<close> over RapidJSON. Beside this stand the middleware chain with a
  CSRF filter, the server configuration, the signal handler over libuv, and the sample program
  \<open>src/main.cc\<close>, which puts the parts together.

  \<^bold>\<open>The theories, in the order of their imports.\<close>
  \<^item> \<open>Pico_Base\<close>: the error values (\<open>cxx_error\<close>: one constructor for each way an operation leaves
    normal control flow, undefined reads and \<open>std::terminate\<close> included), results \<open>cxx_error + 'a\<close> with
    \<open>bind_result\<close> and \<open>for_result\<close>, hash maps as association lists, decimal text.
  \<^item> \<open>String_Utils\<close> (\<open>utils/string_utils.h\<close>): the two \<open>SplitString\<close> loops with their positions and the
    \<open>substr\<close> calls that could throw; they return always and invert joining.
  \<^item> \<open>Regex_Lang\<close>, \<open>Route_Syntax\<close> (\<open>Router::IsValidRoute\<close>): the two regular expressions, a matcher by
    derivatives that decides the declarative language, the brace scan, and the grammar they accept.
  \<^item> \<open>Router\<close> (\<open>router_node.h\<close>, \<open>router.h\<close>, \<open>router.cc\<close>): nodes, \<open>AddRoute\<close>, \<open>MatchRoute\<close>,
    \<open>PrintRouterTree\<close>. The loop that moves the \<open>node\<close> pointer is the recursion \<open>add_parts\<close> and
    \<open>match_parts\<close>. \<open>Router_Spec\<close>: the tree invariant \<open>wf_node\<close>, the abstract table \<open>route_table\<close> that
    \<open>AddRoute\<close> updates, soundness of a match, completeness up to \<open>shadowed\<close>, parameter values.
    \<open>Router_Reference\<close>: a request resolved in the list of registered patterns, without a tree; the
    match is this resolution, so the order of registration does not matter.
  \<^item> \<open>Http_Message\<close> (\<open>request.cc\<close>, \<open>response.cc\<close>, \<open>JsonBuffer\<close>): one h2o request as a record, the
    functions of h2o as the record \<open>h2o_api\<close>, their documentation as the locales \<open>header_search\<close> and
    \<open>substring_search\<close>; memory reads keep the bytes that may be read, so that a read outside is an error.
    \<open>Query_Reference\<close>: what \<open>GetQueryString\<close> returns for every query and name, without offsets.
  \<^item> \<open>Dispatcher\<close> (\<open>global_dispatcher_handler.h\<close>, \<open>handler_base.h\<close>, \<open>route.cc\<close>): uses the router through
    the locale \<open>route_index\<close>, interpreted on the model of the trie; every outcome of a dispatch.
    \<open>Handler_Glue\<close> (\<open>piconaut_handler_t.h\<close>, \<open>MakePiconautHandler\<close>): the memory that h2o makes for a
    handler, with the offset of the pointer the callback casts back and reads.
  \<^item> \<open>Router_Concurrent\<close>: requests while routes are registered. A registration is the list of its single
    writes (\<open>operator[]\<close> of a child map is two of them, the null pointer is seen in between), a request
    the state of its next read; \<open>conc_step\<close> interleaves them. \<open>Concurrent_Spec\<close>: the uninterrupted
    runs are the operations of \<open>Dispatcher\<close>, every schedule ends, and what a request between two writes
    runs into.
    \<open>Registration_Threads\<close>: any number of threads that register, with the two mutexes, and any number of
    requests (\<open>server_step\<close>); each state is one of \<open>conc_step\<close> for a serial order of the registrations,
    and there is no deadlock. \<open>Data_Races\<close>: the same steps as events with the objects they read and
    write and the mutexes they take (\<open>traced\<close>), happens-before and data races of such a trace. The
    registrations race with nothing of each other; a request that runs beside a registration races with
    it, because \<open>MatchRoute\<close> and \<open>__HandleImpl\<close> lock nothing, and C++ gives such an execution no
    meaning; without a race each request is answered as the operations of \<open>Dispatcher\<close> answer it.
  \<^item> \<open>Middleware\<close> (\<open>middleware/\<close>): the manager as a composition, the locale \<open>filter_middleware\<close>,
    interpreted on the CSRF middleware.
  \<^item> \<open>Rapidjson\<close>: the interface the JSON classes use, the locale \<open>rapidjson_laws\<close> of its documented laws,
    and a document model that satisfies them. \<open>Json_Builder\<close>, \<open>Json_Builder_Spec\<close>
    (\<open>value_builder.{h,cc}\<close>): pointers into the document are paths; the invariant that no pointer
    dangles, and what a chained statement writes and leaves. \<open>Json_Statements\<close>: sequences of statements,
    the members they leave and the types they keep. \<open>Json_Map\<close>: the abstract specification of the
    builder, a map from positions to leaves and objects, and the proof that statements implement it.
    \<open>Json_Value\<close> (\<open>value.{h,cc}\<close>): assignments and the reads \<open>As<T>\<close>. \<open>Json_Value_Spec\<close>: sequences of
    its operations, the invariant of its pointer, and each read on every state they reach.
    \<open>Json_Value_Cursor\<close>: the abstract specification of the class, one level of members and a cursor.
  \<^item> \<open>Server_Config\<close> (\<open>config.cc\<close>, the configuration part of \<open>h2o_impl.h\<close>; the locale
    \<open>config_option\<close> relates a setter to its getter, interpreted on each of them), \<open>Net_Calls\<close> (socket calls, the
    event loop), \<open>Single_Server\<close>, \<open>Multi_Server\<close>, \<open>Impl_Server\<close>: the three servers, each as a record of
    its members and the calls it has made, in order. The workers of \<open>H2OServerImpl\<close> are joined in
    order, and \<open>workers_join_iff\<close> says when the joins return. \<open>Impl_Threads\<close>: \<open>Start\<close> of this server
    statement by statement (\<open>start_program\<close>), interleaved with the loops of the workers, the callbacks
    on their sockets and calls of \<open>Stop\<close> (\<open>impl_step\<close>); what it does is what it does alone, \<open>Stop\<close> does
    not end it, and every socket goes to the last worker's context.
  \<^item> \<open>Signal_Handler\<close> (\<open>sys/signal_handler.h\<close>): the object as a step relation over its public operations,
    with invariants of the reachable states.
  \<^item> \<open>App\<close>, \<open>App_Spec\<close> (\<open>src/main.cc\<close>): the handler and its document, the routing tree of the program,
    and how \<open>main\<close> ends. \<open>Hello_Document\<close>: the statements of the handler as positions and
    values, and the document they make, written out. \<open>Serving\<close>: the callback, the dispatcher, the router
    and the handler composed over a sequence of requests, and what an exception that leaves a handler
    does to the program. \<open>Interrupts\<close>: \<open>main\<close> step by step, interleaved with the signals the process
    gets (\<open>process_step\<close>). A signal whose watcher is active reaches the callback, which changes nothing
    of the server; its watcher is stopped then, so the same signal again takes its default action and
    kills the process, and so does a signal that was never watched.

  \<^bold>\<open>Conventions.\<close> State is a record that operations take and return; a throw is an \<open>Inl\<close>; what an object
  tells a library is a list of calls. \<open>size_t\<close>, \<open>int\<close>, ports and timeouts are words of their width where
  the width is seen; lengths in memory are \<open>nat\<close> with the wrap-around of \<open>size_t\<close> written out
  (\<open>size_sub\<close>). An uninitialised pointer is a value of its own, \<open>Indeterminate\<close>, and reading it an error.

  \<^bold>\<open>Termination.\<close> All operations are total functions; the split loops and the middleware recursion
  carry their measures, and so does a request that reads the routes step by step (\<open>reads_left\<close>) and
  threads that register (\<open>server_work\<close>), which bounds every interleaving too. The event loop may run for
  ever: it is a \<open>partial_function\<close> into \<open>option\<close>, and \<open>event_loop_returns_iff\<close> says when it returns. No fuel is used.

  \<^bold>\<open>Assumptions.\<close> They are the laws of the locales \<open>header_search\<close>, \<open>substring_search\<close> and
  \<open>rapidjson_laws\<close>, where a theorem names them; a hash that separates the registered paths, where a
  theorem says \<open>inj_on\<close>; and, where a theorem says \<open>writes_plain\<close>, that RapidJSON's writer writes every
  document made of objects, strings, integers and nulls (it refuses the doubles NaN and
  infinity, so nothing is assumed of other documents). Each has a concrete instance, on which the
  witnesses run. Three facts about the libraries are part of definitions: a stopped signal watcher of
  libuv gives the signal its default action back, \<open>h2o_socket_close\<close> needs a socket, and h2o calls the
  handler once for each request, in some order, which is the list that \<open>serve\<close> takes.

  \<^bold>\<open>Not modelled.\<close> What an execution with a data race does: C++ leaves it undefined. \<open>Router_Concurrent\<close>
  and \<open>Registration_Threads\<close> show its steps as if each access of a table were atomic; \<open>Data_Races\<close> says
  which executions have a race, and what is said there of requests, beyond the existence of a schedule,
  is said of the executions without one. The same holds of \<open>g_server_\<close>, which \<open>main\<close> writes and the signal callback reads
  with no lock: in \<open>Interrupts\<close> a callback and a step of \<open>main\<close> are one step each. Interleavings of the threads of the
  multi-threaded server, which all run one event loop, what h2o does not allow; what h2o does with a
  socket or a request once it has it; the contents
  of \<open>std::cout\<close> and \<open>std::cerr\<close> apart from the builder's and the signal handler's messages; the
  unspecified iteration order of hash maps (the list order stands for it); h2o, libuv, RapidJSON and
  OpenSSL, which are parameters; the macros for namespaces and exports (\<open>macro.h\<close>), which carry no
  behaviour; tests and build files.
\<close>

end
